(* ===== verification/Jfs_Prelude.thy ===== *)
theory Jfs_Prelude
  imports Main "HOL-Library.Word"
begin

text \<open>
  Shared ground of the development: the C integer types of \<^verbatim>\<open>typedefs.h\<close>, the outcome of a
  C call, the allocator, byte buffers and their little-endian reading.

  \<^item> A C function that returns is \<open>Some (Inr x)\<close>; one that stops the process (a wild access, a
    failed assertion, \<^verbatim>\<open>exit\<close>) is \<open>Some (Inl f)\<close> with the reason \<open>f\<close>; one that loops forever is
    \<open>None\<close>. The sequencing operator is \<open>run_bind\<close>.
  \<^item> \<^verbatim>\<open>malloc\<close> answers from a script, one answer per call, so that every pattern of allocation
    failures is covered; the number of live blocks is counted, so that leaks can be stated.
\<close>

unbundle bit_operations_syntax

section \<open>Integer types\<close>

type_synonym u8 = "8 word"
type_synonym u16 = "16 word"
type_synonym u24 = "24 word"
type_synonym u32 = "32 word"
type_synonym u64 = "64 word"
type_synonym bytes = "u8 list"

declare of_nat_unat [simp del]

lemma unat_bound: "unat (w :: 'a::len word) < 2 ^ LENGTH('a)"
  by (rule unsigned_less)

lemma unat_ucast_up: "LENGTH('a) \<le> LENGTH('b) \<Longrightarrow> unat (ucast (w :: 'a::len word) :: 'b::len word) = unat w"
  by (simp add: unsigned_ucast_eq take_bit_nat_eq_self_iff less_le_trans [OF unat_bound])

lemma take_bit_word_small: "unat (w :: 'a::len word) < 2 ^ n \<Longrightarrow> take_bit n w = w"
  by (simp add: word_unat_eq_iff unsigned_take_bit_eq take_bit_nat_eq_self)

lemma unat_two_power: "k < LENGTH('a) \<Longrightarrow> unat (2 ^ k :: 'a::len word) = 2 ^ k"
proof -
  assume k: "k < LENGTH('a)"
  then have "0 < (2 ^ k :: 'a word)" by (simp add: word_greater_zero_iff)
  then have "uint (2 ^ k :: 'a word) = 2 ^ k" by (rule uint_2p)
  then show ?thesis by (metis nat_numeral nat_power_eq nat_uint_eq zero_le_numeral)
qed

lemma unat_mask_word: "k < LENGTH('a) \<Longrightarrow> unat (mask k :: 'a::len word) = 2 ^ k - 1"
proof -
  assume k: "k < LENGTH('a)"
  then have "(1 :: 'a word) \<le> 2 ^ k"
    by (simp add: word_le_nat_alt unat_two_power)
  with k show ?thesis
    by (simp add: mask_eq_exp_minus_1 unat_sub unat_two_power)
qed

lemma or_add_nat: "(b :: nat) < 2 ^ n \<Longrightarrow> a * 2 ^ n OR b = a * 2 ^ n + b"
proof -
  assume "b < 2 ^ n"
  then have "take_bit n b = b" by (rule take_bit_nat_eq_self)
  then have "k < n" if "bit b k" for k using that by (metis bit_take_bit_iff)
  then have "push_bit n a AND b = 0" by (intro bit_eqI) (fastforce simp: bit_simps)
  then show ?thesis by (simp add: push_bit_eq_mult disjunctive_add_eq_or)
qed

text \<open>Two parts of a word, the upper one shifted above the lower.\<close>

lemma unat_join:
  fixes x y :: "'a::len word"
  assumes "unat x < 2 ^ k" and "2 ^ k * unat y < 2 ^ LENGTH('a)"
  shows "unat (x OR push_bit k y) = unat x + 2 ^ k * unat y"
proof -
  have "unat (push_bit k y) = unat y * 2 ^ k"
    unfolding unsigned_push_bit_eq using assms(2) by (simp add: push_bit_eq_mult take_bit_nat_eq_self mult.commute)
  with or_add_nat [OF assms(1), of "unat y"] show ?thesis by (simp add: unsigned_or_eq or.commute mult.commute)
qed

section \<open>Outcomes of C code\<close>

datatype fault =
    Segv            \<comment> \<open>an access outside the mapped disk image\<close>
  | Out_Of_Bounds   \<comment> \<open>an access outside the C object it is meant for\<close>
  | Uninit_Read     \<comment> \<open>a read of memory that was never written\<close>
  | Null_Deref
  | Use_After_Free  \<comment> \<open>an access to an object that was freed, or never allocated\<close>
  | Assert_Failed
  | Abort_Called
  | Exit_Called int

type_synonym 'a run = "(fault + 'a) option"

definition run_return :: "'a \<Rightarrow> 'a run" where
  "run_return x = Some (Inr x)"

definition run_fault :: "fault \<Rightarrow> 'a run" where
  "run_fault f = Some (Inl f)"

definition run_bind :: "'a run \<Rightarrow> ('a \<Rightarrow> 'b run) \<Rightarrow> 'b run" where
  "run_bind m k = Option.bind m (\<lambda>r. case r of Inl f \<Rightarrow> Some (Inl f) | Inr x \<Rightarrow> k x)"

definition run_check :: "bool \<Rightarrow> fault \<Rightarrow> 'a run \<Rightarrow> 'a run" where
  "run_check b f m = (if b then m else run_fault f)"

definition run_lift :: "fault + 'a \<Rightarrow> 'a run" where
  "run_lift r = Some r"

named_theorems run_simps "how an outcome is sequenced"
named_theorems run_iff "when a sequence of calls returns"

lemma run_bind_return [simp, run_simps]: "run_bind (run_return x) k = k x"
  by (simp add: run_bind_def run_return_def)

lemma run_bind_fault [simp, run_simps]: "run_bind (run_fault f) k = run_fault f"
  by (simp add: run_bind_def run_fault_def)

lemma run_bind_None [simp, run_simps]: "run_bind None k = None"
  by (simp add: run_bind_def)

lemma run_bind_lift [simp, run_simps]:
  "run_bind (run_lift (Inr x)) k = k x" "run_bind (run_lift (Inl f)) k = run_fault f"
  by (simp_all add: run_bind_def run_lift_def run_fault_def)

lemma run_check_True [simp, run_simps]: "run_check True f m = m"
  by (simp add: run_check_def)

lemma run_check_False [simp, run_simps]: "run_check False f m = run_fault f"
  by (simp add: run_check_def)

lemma run_return_inject [simp]: "run_return x = run_return y \<longleftrightarrow> x = y"
  by (simp add: run_return_def)

lemma run_fault_inject [simp]: "run_fault f = run_fault g \<longleftrightarrow> f = g"
  by (simp add: run_fault_def)

lemma run_distinct [simp]:
  "run_return x \<noteq> run_fault f" "run_fault f \<noteq> run_return x"
  "run_return x \<noteq> None" "run_fault f \<noteq> None"
  "None \<noteq> run_return x" "None \<noteq> run_fault f"
  by (simp_all add: run_return_def run_fault_def)

lemma run_cases [case_names returns faults diverges]:
  obtains x where "m = run_return x" | f where "m = run_fault f" | "m = None"
  by (metis option.exhaust run_fault_def run_return_def sum.exhaust)

lemma run_bind_assoc: "run_bind (run_bind m k) l = run_bind m (\<lambda>x. run_bind (k x) l)"
  by (cases m rule: run_cases) auto

lemma run_bind_return_iff [run_iff]:
  "run_bind m k = run_return y \<longleftrightarrow> (\<exists>x. m = run_return x \<and> k x = run_return y)"
  by (cases m rule: run_cases) auto

lemma run_check_return_iff [run_iff]:
  "run_check b f m = run_return y \<longleftrightarrow> b \<and> m = run_return y"
  by (simp add: run_check_def)

lemma run_lift_return_iff [run_iff]: "run_lift r = run_return y \<longleftrightarrow> r = Inr y"
  by (simp add: run_lift_def run_return_def)

text \<open>The sequencing operator may surround a recursive call of a loop that may not end.\<close>

lemma run_bind_mono [partial_function_mono]:
  assumes "mono_option B" and "\<And>y. mono_option (\<lambda>f. C y f)"
  shows "mono_option (\<lambda>f. run_bind (B f) (\<lambda>y. C y f))"
  unfolding run_bind_def
proof (intro bind_mono assms(1))
  fix r
  show "mono_option (\<lambda>f. case r of Inl e \<Rightarrow> Some (Inl e) | Inr x \<Rightarrow> C x f)"
    by (cases r) (simp_all add: assms(2) option.const_mono)
qed

lemma run_check_mono [partial_function_mono]:
  "mono_option B \<Longrightarrow> mono_option (\<lambda>f. run_check b e (B f))"
  by (cases b) (simp_all add: option.const_mono)

section \<open>Loops\<close>

text \<open>
  A C loop (a \<^verbatim>\<open>goto\<close> back to a label) over a state: the body ends with the state of the next round
  (\<open>Inl\<close>) or with the result of the loop (\<open>Inr\<close>). A loop that never ends is \<open>None\<close>.
\<close>

partial_function (option) run_loop :: "('s \<Rightarrow> ('s + 'r) run) \<Rightarrow> 's \<Rightarrow> 'r run" where
  "run_loop body s = run_bind (body s) (\<lambda>x. case x of Inl s' \<Rightarrow> run_loop body s' | Inr r \<Rightarrow> run_return r)"

lemma run_loop_next: "body s = run_return (Inl s') \<Longrightarrow> run_loop body s = run_loop body s'"
  by (subst run_loop.simps) simp

lemma run_loop_done: "body s = run_return (Inr r) \<Longrightarrow> run_loop body s = run_return r"
  by (subst run_loop.simps) simp

lemma run_loop_fault: "body s = run_fault f \<Longrightarrow> run_loop body s = run_fault f"
  by (subst run_loop.simps) simp

lemma run_loop_outcome:
  assumes "run_loop body s = Some x" and "I s"
    and "\<And>s s'. I s \<Longrightarrow> body s = run_return (Inl s') \<Longrightarrow> I s'"
    and "\<And>s r. I s \<Longrightarrow> body s = run_return (Inr r) \<Longrightarrow> Q (Inr r)"
    and "\<And>s f. I s \<Longrightarrow> body s = run_fault f \<Longrightarrow> Q (Inl f)"
  shows "Q x"
proof -
  have "b = body \<longrightarrow> I s \<longrightarrow> Q x" if "run_loop b s = Some x" for b s x
  proof (rule run_loop.raw_induct [where P = "\<lambda>b s x. b = body \<longrightarrow> I s \<longrightarrow> Q x", OF _ that])
    fix f b s x
    assume IH: "\<And>b s x. f b s = Some x \<Longrightarrow> b = body \<longrightarrow> I s \<longrightarrow> Q x"
      and eq: "run_bind (b s) (\<lambda>x. case x of Inl s' \<Rightarrow> f b s' | Inr r \<Rightarrow> run_return r) = Some x"
    show "b = body \<longrightarrow> I s \<longrightarrow> Q x"
    proof (intro impI)
      assume b: "b = body" and "I s"
      with eq assms(3-5) [OF \<open>I s\<close>] IH show "Q x"
        by (cases "body s" rule: run_cases) (auto simp: run_return_def run_fault_def run_bind_def split: sum.splits)
    qed
  qed
  with assms(1,2) show ?thesis by blast
qed

lemma run_loop_invariant:
  assumes "run_loop body s = run_return r" and "I s"
    and "\<And>s s'. I s \<Longrightarrow> body s = run_return (Inl s') \<Longrightarrow> I s'"
    and "\<And>s r. I s \<Longrightarrow> body s = run_return (Inr r) \<Longrightarrow> Q r"
  shows "Q r"
  using run_loop_outcome [where Q = "\<lambda>x. \<forall>r. x = Inr r \<longrightarrow> Q r" and I = I, OF assms(1) [unfolded run_return_def]]
    assms(2-4) by blast

lemma run_loop_diverges:
  assumes "I s" and "\<And>s. I s \<Longrightarrow> \<exists>s'. body s = run_return (Inl s') \<and> I s'"
  shows "run_loop body s = None"
proof (rule ccontr)
  assume "run_loop body s \<noteq> None"
  then obtain x where "run_loop body s = Some x" by blast
  then show False
    by (rule run_loop_outcome [where I = I]) (use assms in fastforce)+
qed

section \<open>Singly linked lists\<close>

text \<open>\<open>chain nxt p xs\<close>: following \<open>nxt\<close> from the pointer \<open>p\<close> visits \<open>xs\<close> and ends at the null pointer.\<close>

fun chain :: "('a \<Rightarrow> 'a option) \<Rightarrow> 'a option \<Rightarrow> 'a list \<Rightarrow> bool" where
  "chain nxt p [] \<longleftrightarrow> p = None"
| "chain nxt p (a # xs) \<longleftrightarrow> p = Some a \<and> chain nxt (nxt a) xs"

lemma chain_None [simp]: "chain nxt None xs \<longleftrightarrow> xs = []"
  by (cases xs) auto

lemma chain_Some: "chain nxt (Some a) xs \<longleftrightarrow> (\<exists>ys. xs = a # ys \<and> chain nxt (nxt a) ys)"
  by (cases xs) auto

lemma chain_update [simp]: "a \<notin> set xs \<Longrightarrow> chain (nxt(a := q)) p xs = chain nxt p xs"
  by (induction xs arbitrary: p) auto

lemma chain_cong: "(\<And>a. a \<in> set xs \<Longrightarrow> nxt a = nxt' a) \<Longrightarrow> chain nxt p xs = chain nxt' p xs"
  by (induction xs arbitrary: p) auto

lemma chain_unique: "chain nxt p xs \<Longrightarrow> chain nxt p ys \<Longrightarrow> xs = ys"
proof (induction xs arbitrary: p ys)
  case (Cons a xs)
  then show ?case by (cases ys) auto
qed simp

lemma chain_append:
  "chain nxt p (xs @ a # ys) \<longleftrightarrow> chain (nxt(a := None)) p (xs @ [a]) \<and> chain nxt (nxt a) ys"
  if "a \<notin> set xs"
  using that by (induction xs arbitrary: p) auto

section \<open>The allocator\<close>

record heap =
  mh_answers :: "nat \<Rightarrow> bool"   \<comment> \<open>does the next, the second next, \<dots> call succeed?\<close>
  mh_live :: int                 \<comment> \<open>blocks allocated and not freed\<close>

definition malloc :: "heap \<Rightarrow> bool \<times> heap" where
  "malloc h = (mh_answers h 0,
     h\<lparr>mh_answers := (\<lambda>i. mh_answers h (Suc i)),
       mh_live := mh_live h + (if mh_answers h 0 then 1 else 0)\<rparr>)"

definition free_block :: "heap \<Rightarrow> heap" where
  "free_block h = h\<lparr>mh_live := mh_live h - 1\<rparr>"

definition mem_ok :: "heap \<Rightarrow> bool" where
  "mem_ok h \<longleftrightarrow> (\<forall>i. mh_answers h i)"

lemma malloc_fst: "fst (malloc h) = mh_answers h 0"
  by (simp add: malloc_def)

lemma malloc_live: "mh_live (snd (malloc h)) = mh_live h + (if fst (malloc h) then 1 else 0)"
  by (simp add: malloc_def)

lemma mem_ok_malloc [simp]: "mem_ok h \<Longrightarrow> fst (malloc h) \<and> mem_ok (snd (malloc h))"
  by (simp add: mem_ok_def malloc_def)

lemma mem_ok_malloc_snd [simp]: "mem_ok h \<Longrightarrow> mem_ok (snd (malloc h))"
  by (simp add: mem_ok_def malloc_def)

lemma mem_ok_malloc_fst [simp]: "mem_ok h \<Longrightarrow> fst (malloc h)"
  by (simp add: mem_ok_def malloc_def)

lemma mem_ok_free [simp]: "mem_ok (free_block h) = mem_ok h"
  by (simp add: mem_ok_def free_block_def)

lemma free_block_live [simp]: "mh_live (free_block h) = mh_live h - 1"
  by (simp add: free_block_def)

text \<open>What a routine that frees all it allocates leaves of the allocator: nothing is leaked, and an
  allocator that never fails still never fails.\<close>

definition balanced :: "heap \<Rightarrow> heap \<Rightarrow> bool" where
  "balanced h h' \<longleftrightarrow> mh_live h' = mh_live h \<and> (mem_ok h \<longrightarrow> mem_ok h')"

lemma balanced_refl [simp, intro]: "balanced h h"
  by (simp add: balanced_def)

lemma balanced_trans: "balanced h h' \<Longrightarrow> balanced h' h'' \<Longrightarrow> balanced h h''"
  by (simp add: balanced_def)

lemma balanced_mem_ok: "balanced h h' \<Longrightarrow> mem_ok h \<Longrightarrow> mem_ok h'"
  by (simp add: balanced_def)

lemma balanced_malloc_free:
  "malloc h = (True, h1) \<Longrightarrow> balanced h (free_block h1)"
  "malloc h = (False, h1) \<Longrightarrow> balanced h h1"
  by (auto simp: malloc_def balanced_def mem_ok_def free_block_def)

section \<open>Little-endian reading of byte buffers\<close>

definition le16 :: "bytes \<Rightarrow> nat \<Rightarrow> u16" where
  "le16 b p = ucast (b ! p) OR push_bit 8 (ucast (b ! (p + 1)))"

definition le32 :: "bytes \<Rightarrow> nat \<Rightarrow> u32" where
  "le32 b p = ucast (b ! p) OR push_bit 8 (ucast (b ! (p + 1)))
     OR push_bit 16 (ucast (b ! (p + 2))) OR push_bit 24 (ucast (b ! (p + 3)))"

definition le64 :: "bytes \<Rightarrow> nat \<Rightarrow> u64" where
  "le64 b p = ucast (le32 b p) OR push_bit 32 (ucast (le32 b (p + 4)))"

lemma unat_le16: "unat (le16 b p) = unat (b ! p) + 256 * unat (b ! (p + 1))"
  using unat_join [of "ucast (b ! p) :: u16" 8 "ucast (b ! (p + 1))"] unat_bound [of "b ! p"] unat_bound [of "b ! (p + 1)"]
  by (simp add: le16_def unat_ucast_up)

lemma unat_le32:
  "unat (le32 b p) = unat (b ! p) + 256 * (unat (b ! (p + 1)) + 256 * (unat (b ! (p + 2)) + 256 * unat (b ! (p + 3))))"
proof -
  note n = unat_bound [of "b ! p"] unat_bound [of "b ! (p + 1)"] unat_bound [of "b ! (p + 2)"] unat_bound [of "b ! (p + 3)"]
  define x :: u32 where "x = ucast (b ! p) OR push_bit 8 (ucast (b ! (p + 1)))"
  have x: "unat x = unat (b ! p) + 256 * unat (b ! (p + 1))"
    using unat_join [of "ucast (b ! p) :: u32" 8 "ucast (b ! (p + 1))"] n by (simp add: x_def unat_ucast_up)
  define y :: u32 where "y = x OR push_bit 16 (ucast (b ! (p + 2)))"
  have y: "unat y = unat x + 65536 * unat (b ! (p + 2))"
    using unat_join [of x 16 "ucast (b ! (p + 2))"] n x by (simp add: y_def unat_ucast_up)
  have "unat (y OR push_bit 24 (ucast (b ! (p + 3)))) = unat y + 16777216 * unat (b ! (p + 3))"
    using unat_join [of y 24 "ucast (b ! (p + 3))"] n x y by (simp add: unat_ucast_up)
  moreover have "le32 b p = y OR push_bit 24 (ucast (b ! (p + 3)))" by (simp add: le32_def y_def x_def or.assoc)
  ultimately show ?thesis by (simp add: x y algebra_simps)
qed

lemma unat_le64: "unat (le64 b p) = unat (le32 b p) + 4294967296 * unat (le32 b (p + 4))"
  using unat_join [of "ucast (le32 b p) :: u64" 32 "ucast (le32 b (p + 4))"] unat_bound [of "le32 b p"] unat_bound [of "le32 b (p + 4)"]
  by (simp add: le64_def unat_ucast_up)

definition bytes_at :: "bytes \<Rightarrow> nat \<Rightarrow> nat \<Rightarrow> bytes" where
  "bytes_at b p n = take n (drop p b)"

lemma length_bytes_at [simp]: "length (bytes_at b p n) = min n (length b - p)"
  by (simp add: bytes_at_def)

lemma nth_bytes_at [simp]: "i < n \<Longrightarrow> p + n \<le> length b \<Longrightarrow> bytes_at b p n ! i = b ! (p + i)"
  by (simp add: bytes_at_def)

lemma bytes_at_bytes_at:
  "m + k \<le> n \<Longrightarrow> p + n \<le> length b \<Longrightarrow> bytes_at (bytes_at b p n) m k = bytes_at b (p + m) k"
  by (simp add: bytes_at_def take_drop drop_drop add.commute min_def)

text \<open>A multi-byte field of a sub-buffer is the field of the buffer at the shifted offset.\<close>

lemma le16_bytes_at: "i + 2 \<le> n \<Longrightarrow> p + n \<le> length b \<Longrightarrow> le16 (bytes_at b p n) i = le16 b (p + i)"
  by (simp add: le16_def add.assoc)

lemma le32_bytes_at: "i + 4 \<le> n \<Longrightarrow> p + n \<le> length b \<Longrightarrow> le32 (bytes_at b p n) i = le32 b (p + i)"
  by (simp add: le32_def add.assoc)

lemma le64_bytes_at: "i + 8 \<le> n \<Longrightarrow> p + n \<le> length b \<Longrightarrow> le64 (bytes_at b p n) i = le64 b (p + i)"
  by (simp add: le64_def le32_bytes_at add.assoc)

end
