(* ===== verification/Jfs_Types.thy ===== *)
theory Jfs_Types
  imports Jfs_Prelude
begin

text \<open>
  The descriptors of \<^verbatim>\<open>jfs_types.h\<close>, \<^verbatim>\<open>jfs_xtree.h\<close> and \<^verbatim>\<open>jfs_dtree.h\<close> (extents, quotas, slots of the
  directory index) and the macros that build and read them. Each packs a 40-bit block number or offset
  as an 8-bit high and a 32-bit low part; the locale \<open>split40\<close> states this once and is interpreted for
  every such field.

  \<^verbatim>\<open>__cpu_to_le32\<close> and \<^verbatim>\<open>__cpu_to_le24\<close> are not defined in the repository: they are arguments
  of the macros that use them. The readers \<^verbatim>\<open>__le16_to_cpu\<close>, \<^verbatim>\<open>__le24_to_cpu\<close>, \<^verbatim>\<open>__le32_to_cpu\<close> are those of
  \<^verbatim>\<open>jfs_dirread.h\<close>.
\<close>

section \<open>Byte-order readers\<close>

definition le16_to_cpu :: "u16 \<Rightarrow> u16" where
  "le16_to_cpu x = x"

definition le24_to_cpu :: "u24 \<Rightarrow> u32" where
  "le24_to_cpu x = ucast x"

definition le32_to_cpu :: "u32 \<Rightarrow> u32" where
  "le32_to_cpu x = x"

section \<open>Descriptors\<close>

record lxd_t =
  lxd_len :: u24
  lxd_off1 :: u8
  lxd_off2 :: u32

definition LXDlength :: "lxd_t \<Rightarrow> u32 \<Rightarrow> lxd_t" where
  "LXDlength lxd length32 = lxd\<lparr>lxd_len := ucast length32\<rparr>"

definition LXDoffset :: "lxd_t \<Rightarrow> u64 \<Rightarrow> lxd_t" where
  "LXDoffset lxd offset64 =
     lxd\<lparr>lxd_off1 := ucast (signed_drop_bit 32 offset64),
         lxd_off2 := ucast (offset64 AND 0xffffffff)\<rparr>"

definition lengthLXD :: "lxd_t \<Rightarrow> u32" where
  "lengthLXD lxd = ucast (lxd_len lxd)"

definition offsetLXD :: "lxd_t \<Rightarrow> u64" where
  "offsetLXD lxd = push_bit 32 (ucast (lxd_off1 lxd)) OR ucast (lxd_off2 lxd)"

record pxd_t =
  pxd_len :: u24
  pxd_addr1 :: u8
  pxd_addr2 :: u32

definition PXDlength :: "(u32 \<Rightarrow> u24) \<Rightarrow> pxd_t \<Rightarrow> u32 \<Rightarrow> pxd_t" where
  "PXDlength cpu_to_le24 pxd length32 = pxd\<lparr>pxd_len := cpu_to_le24 length32\<rparr>"

definition PXDaddress :: "(u32 \<Rightarrow> u32) \<Rightarrow> pxd_t \<Rightarrow> u64 \<Rightarrow> pxd_t" where
  "PXDaddress cpu_to_le32 pxd address64 =
     pxd\<lparr>pxd_addr1 := ucast (signed_drop_bit 32 address64),
         pxd_addr2 := cpu_to_le32 (ucast (address64 AND 0xffffffff))\<rparr>"

definition lengthPXD :: "pxd_t \<Rightarrow> u32" where
  "lengthPXD pxd = le24_to_cpu (pxd_len pxd)"

definition addressPXD :: "pxd_t \<Rightarrow> u64" where
  "addressPXD pxd = push_bit 32 (ucast (pxd_addr1 pxd)) OR ucast (le32_to_cpu (pxd_addr2 pxd))"

record dxd_t =
  dxd_flag :: u8
  dxd_rsrvd :: u24
  dxd_size :: u32
  dxd_len :: u24
  dxd_addr1 :: u8
  dxd_addr2 :: u32

text \<open>The \<^verbatim>\<open>DXD\<close> macros are the \<^verbatim>\<open>PXD\<close> ones applied to a \<^verbatim>\<open>dxd_t\<close>.\<close>

definition DXDlength :: "(u32 \<Rightarrow> u24) \<Rightarrow> dxd_t \<Rightarrow> u32 \<Rightarrow> dxd_t" where
  "DXDlength cpu_to_le24 dxd length32 = dxd\<lparr>dxd_len := cpu_to_le24 length32\<rparr>"

definition DXDaddress :: "(u32 \<Rightarrow> u32) \<Rightarrow> dxd_t \<Rightarrow> u64 \<Rightarrow> dxd_t" where
  "DXDaddress cpu_to_le32 dxd address64 =
     dxd\<lparr>dxd_addr1 := ucast (signed_drop_bit 32 address64),
         dxd_addr2 := cpu_to_le32 (ucast (address64 AND 0xffffffff))\<rparr>"

definition lengthDXD :: "dxd_t \<Rightarrow> u32" where
  "lengthDXD dxd = le24_to_cpu (dxd_len dxd)"

definition addressDXD :: "dxd_t \<Rightarrow> u64" where
  "addressDXD dxd = push_bit 32 (ucast (dxd_addr1 dxd)) OR ucast (le32_to_cpu (dxd_addr2 dxd))"

record dasd_t =
  dasd_thresh :: u8
  dasd_delta :: u8
  dasd_rsrvd1 :: u8
  dasd_limit_hi :: u8
  dasd_limit_lo :: u32
  dasd_rsrvd2 :: "u8 list"
  dasd_used_hi :: u8
  dasd_used_lo :: u32

definition DASDLIMIT :: "dasd_t \<Rightarrow> u64" where
  "DASDLIMIT dasdp = push_bit 32 (ucast (dasd_limit_hi dasdp)) + ucast (le32_to_cpu (dasd_limit_lo dasdp))"

definition setDASDLIMIT :: "(u32 \<Rightarrow> u32) \<Rightarrow> dasd_t \<Rightarrow> u64 \<Rightarrow> dasd_t" where
  "setDASDLIMIT cpu_to_le32 dasdp limit =
     dasdp\<lparr>dasd_limit_hi := ucast (drop_bit 32 limit), dasd_limit_lo := cpu_to_le32 (ucast limit)\<rparr>"

definition DASDUSED :: "dasd_t \<Rightarrow> u64" where
  "DASDUSED dasdp = push_bit 32 (ucast (dasd_used_hi dasdp)) + ucast (le32_to_cpu (dasd_used_lo dasdp))"

definition setDASDUSED :: "(u32 \<Rightarrow> u32) \<Rightarrow> dasd_t \<Rightarrow> u64 \<Rightarrow> dasd_t" where
  "setDASDUSED cpu_to_le32 dasdp used =
     dasdp\<lparr>dasd_used_hi := ucast (drop_bit 32 used), dasd_used_lo := cpu_to_le32 (ucast used)\<rparr>"

record xad_t =
  xad_flag :: u8
  xad_rsvrd :: u16
  xad_off1 :: u8
  xad_off2 :: u32
  xad_len :: u24
  xad_addr1 :: u8
  xad_addr2 :: u32

definition XADoffset :: "(u32 \<Rightarrow> u32) \<Rightarrow> xad_t \<Rightarrow> u64 \<Rightarrow> xad_t" where
  "XADoffset cpu_to_le32 xad offset64 =
     xad\<lparr>xad_off1 := ucast (drop_bit 32 offset64),
         xad_off2 := cpu_to_le32 (ucast (offset64 AND 0xffffffff))\<rparr>"

definition XADaddress :: "(u32 \<Rightarrow> u32) \<Rightarrow> xad_t \<Rightarrow> u64 \<Rightarrow> xad_t" where
  "XADaddress cpu_to_le32 xad address64 =
     xad\<lparr>xad_addr1 := ucast (drop_bit 32 address64),
         xad_addr2 := cpu_to_le32 (ucast (address64 AND 0xffffffff))\<rparr>"

definition XADlength :: "(u32 \<Rightarrow> u24) \<Rightarrow> xad_t \<Rightarrow> u32 \<Rightarrow> xad_t" where
  "XADlength cpu_to_le24 xad length32 = xad\<lparr>xad_len := cpu_to_le24 length32\<rparr>"

definition addressXAD :: "xad_t \<Rightarrow> u64" where
  "addressXAD xad = push_bit 32 (ucast (xad_addr1 xad)) OR ucast (le32_to_cpu (xad_addr2 xad))"

definition lengthXAD :: "xad_t \<Rightarrow> u32" where
  "lengthXAD xad = le24_to_cpu (xad_len xad)"

definition offsetXAD :: "xad_t \<Rightarrow> u64" where
  "offsetXAD xad = push_bit 32 (ucast (xad_off1 xad)) OR ucast (le32_to_cpu (xad_off2 xad))"

record dir_table_slot_t =
  dts_rsrvd :: u8
  dts_flag :: u8
  dts_slot :: u8
  dts_addr1 :: u8
  dts_addr2 :: u32

definition DTSaddress :: "(u32 \<Rightarrow> u32) \<Rightarrow> dir_table_slot_t \<Rightarrow> u64 \<Rightarrow> dir_table_slot_t" where
  "DTSaddress cpu_to_le32 dts address64 =
     dts\<lparr>dts_addr1 := ucast (drop_bit 32 address64),
         dts_addr2 := cpu_to_le32 (ucast (address64 AND 0xffffffff))\<rparr>"

definition addressDTS :: "dir_table_slot_t \<Rightarrow> u64" where
  "addressDTS dts = push_bit 32 (ucast (dts_addr1 dts)) OR ucast (le32_to_cpu (dts_addr2 dts))"

text \<open>Slots taken by a directory entry of a given name length.\<close>

definition NDTINTERNAL :: "int \<Rightarrow> int" where
  "NDTINTERNAL klen = ((4 + klen) + (15 - 1)) div 15"

definition NDTLEAF_LEGACY :: "int \<Rightarrow> int" where
  "NDTLEAF_LEGACY klen = ((2 + klen) + (15 - 1)) div 15"

definition NDTLEAF :: "int \<Rightarrow> int" where
  "NDTLEAF klen = NDTINTERNAL klen"

section \<open>The 40-bit fields\<close>

lemma or40_plus: "push_bit 32 (ucast (h :: u8)) OR ucast (l :: u32)
    = (push_bit 32 (ucast h) + ucast l :: u64)"
  by (rule disjunctive_add [symmetric]) (auto simp: bit_simps dest: bit_imp_le_length)

lemma unat_split40:
  "unat (push_bit 32 (ucast (h :: u8)) OR ucast (l :: u32) :: u64) = unat h * 2 ^ 32 + unat l"
proof -
  have "unat h < 2 ^ 8" "unat l < 2 ^ 32"
    using unat_bound [of h] unat_bound [of l] by simp_all
  then show ?thesis
    unfolding or40_plus by (simp add: push_bit_eq_mult unat_word_ariths unat_ucast_up mult.commute)
qed

lemma split40_join:
  "push_bit 32 (ucast (ucast (drop_bit 32 (a :: u64)) :: u8)) OR ucast (ucast a :: u32) = take_bit 40 a"
  by (rule bit_word_eqI) (auto simp: bit_simps)

lemma split40_signed: "(ucast (signed_drop_bit 32 (a :: u64)) :: u8) = ucast (drop_bit 32 a)"
  by (rule bit_word_eqI) (auto simp: bit_simps)

lemma split40_low: "(ucast (a AND 0xffffffff :: u64) :: u32) = ucast a"
proof -
  have "(0xffffffff :: u64) = mask 32" by (simp add: mask_eq_exp_minus_1)
  then have "a AND 0xffffffff = take_bit 32 a" by (simp add: take_bit_eq_mask)
  then show ?thesis by (auto intro!: bit_word_eqI simp: bit_simps)
qed

lemma take_bit_40_small: "unat (a :: u64) < 2 ^ 40 \<Longrightarrow> take_bit 40 a = a"
  by (rule take_bit_word_small)

text \<open>
  A structure with a 40-bit field: \<open>hi\<close> and \<open>lo\<close> read its two parts, \<open>fetch\<close> is the
  macro that puts them together.
\<close>

locale split40 =
  fixes hi :: "'s \<Rightarrow> u8" and lo :: "'s \<Rightarrow> u32" and fetch :: "'s \<Rightarrow> u64"
  assumes fetch_eq: "fetch s = push_bit 32 (ucast (hi s)) OR ucast (lo s)"
begin

lemma unat_fetch: "unat (fetch s) = unat (hi s) * 2 ^ 32 + unat (lo s)"
  by (simp add: fetch_eq unat_split40)

lemma fetch_bound: "unat (fetch s) < 2 ^ 40"
proof -
  have "unat (hi s) \<le> 2 ^ 8 - 1" "unat (lo s) < 2 ^ 32"
    using unat_bound [of "hi s"] unat_bound [of "lo s"] by simp_all
  then show ?thesis by (simp add: unat_fetch)
qed

lemma fetch_stored:
  "hi s = ucast (drop_bit 32 a) \<Longrightarrow> lo s = ucast a \<Longrightarrow> fetch s = take_bit 40 a"
  by (simp add: fetch_eq split40_join)

lemma fetch_stored_small:
  "hi s = ucast (drop_bit 32 a) \<Longrightarrow> lo s = ucast a \<Longrightarrow> unat a < 2 ^ 40 \<Longrightarrow> fetch s = a"
  by (simp add: fetch_stored take_bit_40_small)

lemma fetch_inj: "fetch s = fetch t \<Longrightarrow> hi s = hi t \<and> lo s = lo t"
proof -
  assume "fetch s = fetch t"
  then have e: "unat (hi s) * 2 ^ 32 + unat (lo s) = unat (hi t) * 2 ^ 32 + unat (lo t)"
    using unat_fetch by metis
  have b: "unat (lo s) < 2 ^ 32" "unat (lo t) < 2 ^ 32"
    using unat_bound [of "lo s"] unat_bound [of "lo t"] by simp_all
  from e b have "unat (lo s) = unat (lo t)"
    by (metis mod_less mod_mult_self3)
  with e show ?thesis by (auto simp: word_unat_eq_iff)
qed

end

interpretation lxd: split40 lxd_off1 lxd_off2 offsetLXD
  by unfold_locales (simp add: offsetLXD_def)

interpretation pxd: split40 pxd_addr1 "le32_to_cpu \<circ> pxd_addr2" addressPXD
  by unfold_locales (simp add: addressPXD_def)

interpretation dxd: split40 dxd_addr1 "le32_to_cpu \<circ> dxd_addr2" addressDXD
  by unfold_locales (simp add: addressDXD_def)

interpretation dasd_limit: split40 dasd_limit_hi "le32_to_cpu \<circ> dasd_limit_lo" DASDLIMIT
  by unfold_locales (simp add: DASDLIMIT_def or40_plus)

interpretation dasd_used: split40 dasd_used_hi "le32_to_cpu \<circ> dasd_used_lo" DASDUSED
  by unfold_locales (simp add: DASDUSED_def or40_plus)

interpretation xoff: split40 xad_off1 "le32_to_cpu \<circ> xad_off2" offsetXAD
  by unfold_locales (simp add: offsetXAD_def)

interpretation xaddr: split40 xad_addr1 "le32_to_cpu \<circ> xad_addr2" addressXAD
  by unfold_locales (simp add: addressXAD_def)

interpretation dts: split40 dts_addr1 "le32_to_cpu \<circ> dts_addr2" addressDTS
  by unfold_locales (simp add: addressDTS_def)

lemma lengthXAD_bound: "unat (lengthXAD x) < 2 ^ 24"
  using unat_bound [of "xad_len x"] by (simp add: lengthXAD_def le24_to_cpu_def unat_ucast_up)

section \<open>Properties\<close>

text \<open>
  C23: the 40-bit fields keep their values. With \<^verbatim>\<open>__cpu_to_le32\<close> the inverse of \<^verbatim>\<open>__le32_to_cpu\<close>, what each of the
  macros stores in a descriptor its reader gives back, reduced to 40 bits: addresses and offsets below \<open>2 ^ 40\<close> survive, and
  the address and the offset of an extent do not disturb each other.
\<close>

theorem split40_roundtrip:
  assumes "\<And>x. le32_to_cpu (cpu_to_le32 x) = x"
  shows "offsetLXD (LXDoffset l a) = take_bit 40 a
    \<and> addressPXD (PXDaddress cpu_to_le32 p a) = take_bit 40 a
    \<and> addressDXD (DXDaddress cpu_to_le32 q a) = take_bit 40 a
    \<and> DASDLIMIT (setDASDLIMIT cpu_to_le32 s a) = take_bit 40 a
    \<and> DASDUSED (setDASDUSED cpu_to_le32 s a) = take_bit 40 a
    \<and> addressDTS (DTSaddress cpu_to_le32 t a) = take_bit 40 a
    \<and> addressXAD (XADoffset cpu_to_le32 (XADaddress cpu_to_le32 x a) b) = take_bit 40 a
    \<and> offsetXAD (XADaddress cpu_to_le32 (XADoffset cpu_to_le32 x b) a) = take_bit 40 b"
  using assms
  by (auto intro!: lxd.fetch_stored pxd.fetch_stored dxd.fetch_stored dasd_limit.fetch_stored dasd_used.fetch_stored
        dts.fetch_stored xaddr.fetch_stored xoff.fetch_stored
      simp: LXDoffset_def PXDaddress_def DXDaddress_def setDASDLIMIT_def setDASDUSED_def DTSaddress_def
        XADaddress_def XADoffset_def split40_signed split40_low)

end
