(* ===== verification/Jfs_Layout.thy ===== *)
theory Jfs_Layout
  imports Jfs_Types
begin

text \<open>
  The on-disk structures, as records, and how each lies in a byte buffer: the superblock
  (\<^verbatim>\<open>jfs_superblock.h\<close>), the inode (\<^verbatim>\<open>jfs_dinode.h\<close>), the inode allocation group
  (\<^verbatim>\<open>jfs_imap.h\<close>), extent-tree pages (\<^verbatim>\<open>jfs_xtree.h\<close>) and directory pages
  (\<^verbatim>\<open>jfs_dtree.h\<close>, \<^verbatim>\<open>jfs_dirread.h\<close>). A union is the bytes it occupies, read through the decoder of the member the
  code uses; an array of the C code that is indexed with a value found on disk is read through a checked
  accessor, whose failure is the wild access the C code would make.
\<close>

section \<open>Constants\<close>

definition BT_ROOT :: u8 where "BT_ROOT = 0x01"
definition BT_LEAF :: u8 where "BT_LEAF = 0x02"
definition BT_INTERNAL :: u8 where "BT_INTERNAL = 0x04"

definition IFMT :: u32 where "IFMT = 0xF000"
definition IFDIR :: u32 where "IFDIR = 0x4000"

definition PSIZE :: u32 where "PSIZE = 4096"
definition PAGESIZE :: u32 where "PAGESIZE = 4096"
definition L2PSIZE :: u32 where "L2PSIZE = 12"
definition SUPER1_OFF :: u32 where "SUPER1_OFF = 0x8000"
definition AIMAP_OFF :: u32 where "AIMAP_OFF = SUPER1_OFF + PSIZE"
definition AITBL_OFF :: u32 where "AITBL_OFF = AIMAP_OFF + push_bit 1 4096"

definition FILESYSTEM_I :: u32 where "FILESYSTEM_I = 16"
definition AGGREGATE_I :: u32 where "AGGREGATE_I = 1"
definition AGGREGATE_2ND_I :: u32 where "AGGREGATE_2ND_I = -1"

definition XTENTRYSTART :: int where "XTENTRYSTART = 2"
definition DTLHDRDATALEN :: int where "DTLHDRDATALEN = 11"
definition DTSLOTDATALEN :: int where "DTSLOTDATALEN = 15"

definition sizeof_dinode :: u32 where "sizeof_dinode = 512"
definition sizeof_dtpage :: u32 where "sizeof_dtpage = 4096"
definition sizeof_iag :: u32 where "sizeof_iag = 4096"
definition sizeof_superblock :: nat where "sizeof_superblock = 184"

section \<open>Descriptors in a buffer\<close>

definition pxd_of :: "bytes \<Rightarrow> nat \<Rightarrow> pxd_t" where
  "pxd_of b p = \<lparr>pxd_len = ucast (le32 b p), pxd_addr1 = b ! (p + 3), pxd_addr2 = le32 b (p + 4)\<rparr>"

definition dxd_of :: "bytes \<Rightarrow> nat \<Rightarrow> dxd_t" where
  "dxd_of b p = \<lparr>dxd_flag = b ! p, dxd_rsrvd = ucast (drop_bit 8 (le32 b p)), dxd_size = le32 b (p + 4),
     dxd_len = ucast (le32 b (p + 8)), dxd_addr1 = b ! (p + 11), dxd_addr2 = le32 b (p + 12)\<rparr>"

definition xad_of :: "bytes \<Rightarrow> nat \<Rightarrow> xad_t" where
  "xad_of b p = \<lparr>xad_flag = b ! p, xad_rsvrd = le16 b (p + 1), xad_off1 = b ! (p + 3),
     xad_off2 = le32 b (p + 4), xad_len = ucast (le32 b (p + 8)),
     xad_addr1 = b ! (p + 11), xad_addr2 = le32 b (p + 12)\<rparr>"

definition dasd_of :: "bytes \<Rightarrow> nat \<Rightarrow> dasd_t" where
  "dasd_of b p = \<lparr>dasd_thresh = b ! p, dasd_delta = b ! (p + 1), dasd_rsrvd1 = b ! (p + 2),
     dasd_limit_hi = b ! (p + 3), dasd_limit_lo = le32 b (p + 4), dasd_rsrvd2 = bytes_at b (p + 8) 3,
     dasd_used_hi = b ! (p + 11), dasd_used_lo = le32 b (p + 12)\<rparr>"

record timestruc_t =
  tv_sec :: u32
  tv_nsec :: u32

definition timestruc_of :: "bytes \<Rightarrow> nat \<Rightarrow> timestruc_t" where
  "timestruc_of b p = \<lparr>tv_sec = le32 b p, tv_nsec = le32 b (p + 4)\<rparr>"

section \<open>The superblock\<close>

record jfs_superblock =
  s_magic :: bytes
  s_version :: u32
  s_size :: u64
  s_bsize :: u32
  s_l2bsize :: u16
  s_l2bfactor :: u16
  s_pbsize :: u32
  s_l2pbsize :: u16
  s_pad :: u16
  s_agsize :: u32
  s_flag :: u32
  s_state :: u32
  s_compress :: u32
  s_ait2 :: pxd_t
  s_aim2 :: pxd_t
  s_logdev :: u32
  s_logserial :: u32
  s_logpxd :: pxd_t
  s_fsckpxd :: pxd_t
  s_time :: timestruc_t
  s_fsckloglen :: u32
  s_fscklog :: u8
  s_fpack :: bytes
  s_xsize :: u64
  s_xfsckpxd :: pxd_t
  s_xlogpxd :: pxd_t
  s_uuid :: bytes
  s_label :: bytes
  s_loguuid :: bytes

definition superblock_of :: "bytes \<Rightarrow> jfs_superblock" where
  "superblock_of b = \<lparr>s_magic = bytes_at b 0 4, s_version = le32 b 4, s_size = le64 b 8,
     s_bsize = le32 b 16, s_l2bsize = le16 b 20, s_l2bfactor = le16 b 22, s_pbsize = le32 b 24,
     s_l2pbsize = le16 b 28, s_pad = le16 b 30, s_agsize = le32 b 32, s_flag = le32 b 36,
     s_state = le32 b 40, s_compress = le32 b 44, s_ait2 = pxd_of b 48, s_aim2 = pxd_of b 56,
     s_logdev = le32 b 64, s_logserial = le32 b 68, s_logpxd = pxd_of b 72, s_fsckpxd = pxd_of b 80,
     s_time = timestruc_of b 88, s_fsckloglen = le32 b 96, s_fscklog = b ! 100,
     s_fpack = bytes_at b 101 11, s_xsize = le64 b 112, s_xfsckpxd = pxd_of b 120,
     s_xlogpxd = pxd_of b 128, s_uuid = bytes_at b 136 16, s_label = bytes_at b 152 16,
     s_loguuid = bytes_at b 168 16\<rparr>"

section \<open>The on-disk inode\<close>

text \<open>\<open>di_u\<close> is the union at the end of the structure, 384 bytes.\<close>

record dinode_t =
  di_inostamp :: u32
  di_fileset :: u32
  di_number :: u32
  di_gen :: u32
  di_ixpxd :: pxd_t
  di_size :: u64
  di_nblocks :: u64
  di_nlink :: u32
  di_uid :: u32
  di_gid :: u32
  di_mode :: u32
  di_atime :: timestruc_t
  di_ctime :: timestruc_t
  di_mtime :: timestruc_t
  di_otime :: timestruc_t
  di_acl :: dxd_t
  di_ea :: dxd_t
  di_next_index :: u32
  di_acltype :: u32
  di_u :: bytes

definition dinode_of :: "bytes \<Rightarrow> dinode_t" where
  "dinode_of b = \<lparr>di_inostamp = le32 b 0, di_fileset = le32 b 4, di_number = le32 b 8,
     di_gen = le32 b 12, di_ixpxd = pxd_of b 16, di_size = le64 b 24, di_nblocks = le64 b 32,
     di_nlink = le32 b 40, di_uid = le32 b 44, di_gid = le32 b 48, di_mode = le32 b 52,
     di_atime = timestruc_of b 56, di_ctime = timestruc_of b 64, di_mtime = timestruc_of b 72,
     di_otime = timestruc_of b 80, di_acl = dxd_of b 88, di_ea = dxd_of b 104,
     di_next_index = le32 b 120, di_acltype = le32 b 124, di_u = bytes_at b 128 384\<rparr>"

text \<open>The members of the union the code reads: \<^verbatim>\<open>di_btroot\<close> is \<^verbatim>\<open>di_xtroot\<close>, which shares its bytes
  with \<^verbatim>\<open>di_dtroot\<close>.\<close>

definition di_btroot :: "dinode_t \<Rightarrow> bytes" where
  "di_btroot d = bytes_at (di_u d) 96 288"

section \<open>Inode allocation groups\<close>

record iag_t =
  agstart :: u64
  iag_iagnum :: u32
  inofreefwd :: u32
  inofreeback :: u32
  extfreefwd :: u32
  extfreeback :: u32
  iagfree :: u32
  inosmap :: "u32 list"
  extsmap :: "u32 list"
  nfreeinos :: u32
  nfreeexts :: u32
  wmap :: "u32 list"
  pmap :: "u32 list"
  inoext :: "pxd_t list"

definition iag_of :: "bytes \<Rightarrow> iag_t" where
  "iag_of b = \<lparr>agstart = le64 b 0, iag_iagnum = le32 b 8, inofreefwd = le32 b 12, inofreeback = le32 b 16,
     extfreefwd = le32 b 20, extfreeback = le32 b 24, iagfree = le32 b 28,
     inosmap = map (\<lambda>i. le32 b (32 + 4 * i)) [0..<4], extsmap = map (\<lambda>i. le32 b (48 + 4 * i)) [0..<4],
     nfreeinos = le32 b 64, nfreeexts = le32 b 68,
     wmap = map (\<lambda>i. le32 b (2048 + 4 * i)) [0..<128], pmap = map (\<lambda>i. le32 b (2560 + 4 * i)) [0..<128],
     inoext = map (\<lambda>i. pxd_of b (3072 + 8 * i)) [0..<128]\<rparr>"

lemma length_inoext [simp]: "length (inoext (iag_of b)) = 128"
  by (simp add: iag_of_def)

lemma nth_inoext: "i < 128 \<Longrightarrow> inoext (iag_of b) ! i = pxd_of b (3072 + 8 * i)"
  by (simp add: iag_of_def)

section \<open>Extent-tree pages\<close>

record xtheader =
  xth_next :: u64
  xth_prev :: u64
  xth_flag :: u8
  xth_rsrvd1 :: u8
  xth_nextindex :: u16
  xth_maxentry :: u16
  xth_rsrvd2 :: u16
  xth_self :: pxd_t

definition xtheader_of :: "bytes \<Rightarrow> xtheader" where
  "xtheader_of b = \<lparr>xth_next = le64 b 0, xth_prev = le64 b 8, xth_flag = b ! 16, xth_rsrvd1 = b ! 17,
     xth_nextindex = le16 b 18, xth_maxentry = le16 b 20, xth_rsrvd2 = le16 b 22, xth_self = pxd_of b 24\<rparr>"

text \<open>\<^verbatim>\<open>p->xad[index]\<close>, the page being the bytes it was given.\<close>

definition xad_at :: "bytes \<Rightarrow> int \<Rightarrow> fault + xad_t" where
  "xad_at b index = (if 0 \<le> index \<and> 16 * (nat index + 1) \<le> length b
     then Inr (xad_of b (16 * nat index)) else Inl Out_Of_Bounds)"

section \<open>Directory pages\<close>

record dtslot_t =
  slot_next :: u8
  slot_cnt :: u8
  slot_name :: "u16 list"

definition dtslot_of :: "bytes \<Rightarrow> nat \<Rightarrow> dtslot_t" where
  "dtslot_of b p = \<lparr>slot_next = b ! p, slot_cnt = b ! (p + 1),
     slot_name = map (\<lambda>i. le16 b (p + 2 + 2 * i)) [0..<15]\<rparr>"

record ldtentry_t =
  ld_inumber :: u32
  ld_next :: u8
  ld_namlen :: u8
  ld_name :: "u16 list"
  ld_index :: u32

definition ldtentry_of :: "bytes \<Rightarrow> nat \<Rightarrow> ldtentry_t" where
  "ldtentry_of b p = \<lparr>ld_inumber = le32 b p, ld_next = b ! (p + 4), ld_namlen = b ! (p + 5),
     ld_name = map (\<lambda>i. le16 b (p + 6 + 2 * i)) [0..<11], ld_index = le32 b (p + 28)\<rparr>"

text \<open>Of an internal entry the code reads the child descriptor only.\<close>

record idtentry_t =
  id_xd :: pxd_t
  id_next :: u8
  id_namlen :: u8

definition idtentry_of :: "bytes \<Rightarrow> nat \<Rightarrow> idtentry_t" where
  "idtentry_of b p = \<lparr>id_xd = pxd_of b p, id_next = b ! (p + 8), id_namlen = b ! (p + 9)\<rparr>"

record dtroot_header =
  dr_DASD :: dasd_t
  dr_flag :: u8
  dr_nextindex :: u8
  dr_freecnt :: u8
  dr_freelist :: u8
  dr_idotdot :: u32
  dr_stbl :: "u8 list"

definition dtroot_header_of :: "bytes \<Rightarrow> dtroot_header" where
  "dtroot_header_of b = \<lparr>dr_DASD = dasd_of b 0, dr_flag = b ! 16, dr_nextindex = b ! 17,
     dr_freecnt = b ! 18, dr_freelist = b ! 19, dr_idotdot = le32 b 20, dr_stbl = bytes_at b 24 8\<rparr>"

record dtpage_header =
  dp_next :: u64
  dp_prev :: u64
  dp_flag :: u8
  dp_nextindex :: u8
  dp_freecnt :: u8
  dp_freelist :: u8
  dp_maxslot :: u8
  dp_stblindex :: u8
  dp_rsrvd :: "u8 list"
  dp_self :: pxd_t

definition dtpage_header_of :: "bytes \<Rightarrow> dtpage_header" where
  "dtpage_header_of b = \<lparr>dp_next = le64 b 0, dp_prev = le64 b 8, dp_flag = b ! 16, dp_nextindex = b ! 17,
     dp_freecnt = b ! 18, dp_freelist = b ! 19, dp_maxslot = b ! 20, dp_stblindex = b ! 21,
     dp_rsrvd = bytes_at b 22 2, dp_self = pxd_of b 24\<rparr>"

text \<open>\<^verbatim>\<open>&slot[k]\<close>, as the byte position of the 32-byte slot, when it lies in the page.\<close>

definition slot_at :: "bytes \<Rightarrow> nat \<Rightarrow> fault + nat" where
  "slot_at b k = (if 32 * (k + 1) \<le> length b then Inr (32 * k) else Inl Out_Of_Bounds)"

definition byte_at :: "bytes \<Rightarrow> nat \<Rightarrow> fault + u8" where
  "byte_at b p = (if p < length b then Inr (b ! p) else Inl Out_Of_Bounds)"

end
