(* ===== verification/Jfs_Disk.thy ===== *)
theory Jfs_Disk
  imports Jfs_Layout
begin

text \<open>
  The mapped disk and the two routines every other part reads it with:
  \<^verbatim>\<open>ujfs_read_diskblocks\<close> and \<^verbatim>\<open>xRead\<close> of \<^verbatim>\<open>jfs_inode.c\<close>, and the superblock check
  \<^verbatim>\<open>get_hypermetadata\<close> of \<^verbatim>\<open>hyper.c\<close>.

  \<open>fs\<close> is what the process has after start-up: the mapped bytes of the store (\<^verbatim>\<open>disk_image\<close>, valid for
  \<open>dk_size\<close> bytes) and the structure \<^verbatim>\<open>jfs_sb\<close> points to. The image is never written, so the structure
  behind that pointer is read once. An access outside the mapping is the fault \<open>Segv\<close>.
\<close>

record disk =
  dk_size :: nat
  dk_byte :: "nat \<Rightarrow> u8"

record fs = disk +
  jfs_sb :: jfs_superblock

definition disk_slice :: "'a disk_scheme \<Rightarrow> nat \<Rightarrow> nat \<Rightarrow> bytes" where
  "disk_slice d p n = map (\<lambda>i. dk_byte d (p + i)) [0..<n]"

lemma length_disk_slice [simp]: "length (disk_slice d p n) = n"
  by (simp add: disk_slice_def)

lemma nth_disk_slice [simp]: "i < n \<Longrightarrow> disk_slice d p n ! i = dk_byte d (p + i)"
  by (simp add: disk_slice_def)

lemma bytes_at_disk_slice:
  "k + m \<le> n \<Longrightarrow> bytes_at (disk_slice d p n) k m = disk_slice d (p + k) m"
  by (rule nth_equalityI) (simp_all add: add.assoc)

section \<open>Reading\<close>

text \<open>An address outside the mapping stops the process; pointer arithmetic that wraps is undefined in C.\<close>

text \<open>\<^verbatim>\<open>memcpy\<close> returns its first argument, the caller's buffer, which no caller passes as a null
  pointer: the result code is 0.\<close>

definition ujfs_read_diskblocks :: "'a disk_scheme \<Rightarrow> u64 \<Rightarrow> u32 \<Rightarrow> (u32 \<times> bytes) run" where
  "ujfs_read_diskblocks d disk_offset disk_count =
     run_check (unat disk_offset + unat disk_count \<le> dk_size d) Segv
       (run_return (0, disk_slice d (unat disk_offset) (unat disk_count)))"

text \<open>The result is \<open>Some\<close> of the bytes put in the caller's buffer when the function returns 0, and
  \<open>None\<close> when it returns 1.\<close>

definition xRead :: "fs \<Rightarrow> u64 \<Rightarrow> u32 \<Rightarrow> heap \<Rightarrow> (bytes option \<times> heap) run" where
  "xRead d address count h =
     (let bsize = s_bsize (jfs_sb d);
          offset = ucast (address AND scast (bsize - 1)) :: u32;
          len = ucast ((offset + count + bsize - 1) AND NOT (bsize - 1)) :: u64
      in if offset = 0 \<and> len = ucast count
         then run_bind (ujfs_read_diskblocks d address count) (\<lambda>(rc, b).
                run_return (if rc = 0 then Some b else None, h))
         else
           let block_address = address - ucast offset; (ok, h1) = malloc h
           in if \<not> ok then run_return (None, h1)
              else run_bind (ujfs_read_diskblocks d block_address (ucast len)) (\<lambda>(rc, block_buffer).
                if rc \<noteq> 0 then run_return (None, free_block h1)
                else run_check (unat offset + unat count \<le> length block_buffer) Out_Of_Bounds
                       (run_return (Some (bytes_at block_buffer (unat offset) (unat count)),
                                    free_block h1))))"

section \<open>Sane geometry\<close>

text \<open>The block size is the power of two the superblock names, between 512 and 4096 bytes, and the
  mapping is a whole number of blocks.\<close>

definition sb_ok :: "jfs_superblock \<Rightarrow> bool" where
  "sb_ok sb \<longleftrightarrow> 9 \<le> unat (s_l2bsize sb) \<and> unat (s_l2bsize sb) \<le> 12
     \<and> s_bsize sb = push_bit (unat (s_l2bsize sb)) 1"

definition fs_ok :: "fs \<Rightarrow> bool" where
  "fs_ok d \<longleftrightarrow> sb_ok (jfs_sb d) \<and> dk_size d mod 2 ^ unat (s_l2bsize (jfs_sb d)) = 0"

abbreviation l2b :: "fs \<Rightarrow> nat" where
  "l2b d \<equiv> unat (s_l2bsize (jfs_sb d))"

section \<open>Block arithmetic\<close>

lemma mask_minus1: "push_bit k (1 :: 'a::len word) - 1 = mask k"
  by (simp add: push_bit_eq_mult mask_eq_exp_minus_1)

lemma scast_mask: "k < 32 \<Longrightarrow> (scast (mask k :: u32) :: u64) = mask k"
  by (rule bit_word_eqI) (auto simp: bit_simps)

lemma unat_block_offset:
  fixes a :: u64
  assumes "k < 32"
  shows "unat (ucast (a AND mask k) :: u32) = unat a mod 2 ^ k"
proof -
  have "(ucast (a AND mask k) :: u32) = ucast (take_bit k a)"
    by (simp add: take_bit_eq_mask)
  also have "unat \<dots> = take_bit (min 32 k) (unat a)"
    by (simp add: unsigned_ucast_eq unsigned_take_bit_eq min.commute)
  also have "\<dots> = unat a mod 2 ^ k"
    using assms by (simp add: min_def take_bit_eq_mod)
  finally show ?thesis .
qed

lemma unat_and_not_mask: "unat (x AND NOT (mask k) :: u32) = unat x - unat x mod 2 ^ k"
proof -
  have "x = (x AND NOT (mask k)) + (x AND mask k)"
    by (subst disjunctive_add) (auto simp: bit_simps intro: bit_word_eqI)
  then have "x AND NOT (mask k) = x - take_bit k x"
    by (simp add: take_bit_eq_mask eq_diff_eq)
  moreover have "take_bit k x \<le> x"
    by (simp add: word_le_nat_alt unsigned_take_bit_eq)
  ultimately show ?thesis
    by (simp only: unat_sub unsigned_take_bit_eq) (simp add: take_bit_eq_mod)
qed

lemma minus_mod_le:
  fixes x B :: nat
  assumes "0 < B"
  shows "x \<le> (x + B - 1) - (x + B - 1) mod B"
proof -
  have "(x + B - 1) mod B \<le> B - 1" using assms by (simp add: less_Suc_eq_le [symmetric])
  with assms show ?thesis by arith
qed

text \<open>A range inside a whole number of blocks stays inside when it is rounded out to blocks.\<close>

lemma round_block_inside:
  fixes a c B s :: nat
  assumes B: "0 < B" and inside: "a + c \<le> s" and whole: "s mod B = 0"
  shows "(a - a mod B) + ((a mod B + c + B - 1) - (a mod B + c + B - 1) mod B) \<le> s"
proof -
  define o' where "o' = a mod B"
  obtain q where q: "s = B * q" using whole by auto
  have a: "a = B * (a div B) + o'" by (simp add: o'_def)
  have "a div B \<le> q"
    by (metis B add_leD1 div_le_mono inside nonzero_mult_div_cancel_left not_gr_zero q)
  have "B * (a div B) + (o' + c) \<le> B * q" using a inside q by linarith
  then have "o' + c \<le> B * (q - a div B)" by (simp add: diff_mult_distrib2)
  then have "o' + c + B - 1 < (q - a div B + 1) * B" using B by (simp add: algebra_simps)
  then have "(o' + c + B - 1) div B < q - a div B + 1"
    using B by (simp add: div_less_iff_less_mult)
  then have "B * ((o' + c + B - 1) div B) \<le> B * (q - a div B)" by simp
  moreover have "(o' + c + B - 1) - (o' + c + B - 1) mod B = B * ((o' + c + B - 1) div B)"
    by (simp add: minus_mod_eq_mult_div)
  moreover have "a - a mod B = B * (a div B)" by (simp add: minus_mod_eq_mult_div)
  ultimately have "(a - a mod B) + ((o' + c + B - 1) - (o' + c + B - 1) mod B)
      \<le> B * (a div B) + B * (q - a div B)" by linarith
  also have "\<dots> = s" using \<open>a div B \<le> q\<close> q by (simp add: diff_mult_distrib2)
  finally show ?thesis by (simp add: o'_def)
qed

section \<open>\<^verbatim>\<open>xRead\<close> reads what it is asked for\<close>

lemma xRead_geometry:
  assumes "sb_ok sb"
  shows "s_bsize sb - 1 = mask (unat (s_l2bsize sb))" "unat (s_bsize sb) = 2 ^ unat (s_l2bsize sb)"
proof -
  from assms show "s_bsize sb - 1 = mask (unat (s_l2bsize sb))"
    by (simp add: sb_ok_def mask_eq_exp_minus_1)
  have "unat (s_l2bsize sb) < 32" using assms by (simp add: sb_ok_def)
  then have "unat (push_bit (unat (s_l2bsize sb)) 1 :: u32) = 2 ^ unat (s_l2bsize sb)"
    by (simp add: push_bit_eq_mult unat_two_power)
  then show "unat (s_bsize sb) = 2 ^ unat (s_l2bsize sb)"
    using assms by (simp add: sb_ok_def)
qed

lemma xRead_balanced: "xRead d address count h = run_return (r, h') \<Longrightarrow> balanced h h'"
  by (cases "malloc h")
    (auto simp: xRead_def Let_def run_iff split: if_splits dest: balanced_malloc_free)

text \<open>The numbers the routine computes for a request inside the mapping.\<close>

lemma xRead_arith:
  fixes address :: u64 and count :: u32
  assumes ok: "fs_ok d" and inside: "unat address + unat count \<le> dk_size d"
    and small: "unat count < 2 ^ 31"
  defines "bsize \<equiv> s_bsize (jfs_sb d)"
  defines "off \<equiv> ucast (address AND scast (bsize - 1)) :: u32"
  defines "len \<equiv> (off + count + bsize - 1) AND NOT (bsize - 1)"
  shows "unat off = unat address mod 2 ^ l2b d"
    and "unat off + unat count \<le> unat len"
    and "unat (address - ucast off) = unat address - unat off"
    and "unat (address - ucast off) + unat len \<le> dk_size d"
proof -
  have sb: "sb_ok (jfs_sb d)" and whole: "dk_size d mod 2 ^ l2b d = 0" and k: "l2b d \<le> 12"
    using ok by (simp_all add: fs_ok_def sb_ok_def)
  have B: "(2 ^ l2b d :: nat) \<le> 2 ^ 12" by (rule power_increasing) (use k in simp_all)
  have mask: "bsize - 1 = mask (l2b d)" using xRead_geometry(1) [OF sb] by (simp add: bsize_def)
  have off: "unat off = unat address mod 2 ^ l2b d"
    unfolding off_def mask using k by (simp add: scast_mask unat_block_offset)
  have off_lt: "unat off < 2 ^ l2b d" unfolding off by simp
  have bs: "unat bsize = 2 ^ l2b d" using xRead_geometry(2) [OF sb] by (simp add: bsize_def)
  have e: "off + count + bsize - 1 = off + count + mask (l2b d)" using mask by (simp add: algebra_simps)
  have "unat (mask (l2b d) :: u32) = 2 ^ l2b d - 1" using k by (simp add: unat_mask_word)
  then have "unat (off + count + mask (l2b d)) = unat off + unat count + (2 ^ l2b d - 1)"
    using off_lt small B by (simp add: unat_word_ariths)
  then have sum: "unat (off + count + bsize - 1) = unat off + unat count + 2 ^ l2b d - 1"
    unfolding e by simp
  have len: "unat len = (unat off + unat count + 2 ^ l2b d - 1)
      - (unat off + unat count + 2 ^ l2b d - 1) mod 2 ^ l2b d"
    unfolding len_def mask by (simp only: unat_and_not_mask) (simp only: sum [unfolded mask])
  show "unat off = unat address mod 2 ^ l2b d" by (rule off)
  show "unat off + unat count \<le> unat len"
    unfolding len by (rule minus_mod_le) simp
  have "ucast off \<le> address"
    by (simp add: word_le_nat_alt unat_ucast_up off)
  then show sub: "unat (address - ucast off) = unat address - unat off"
    by (simp add: unat_sub unat_ucast_up)
  show "unat (address - ucast off) + unat len \<le> dk_size d"
    unfolding sub len off by (rule round_block_inside) (use inside whole in simp_all)
qed

text \<open>No request inside the mapping faults, and the only failure is a failed allocation.\<close>

lemma xRead_returns:
  assumes ok: "fs_ok d" and inside: "unat address + unat count \<le> dk_size d"
    and small: "unat count < 2 ^ 31"
  shows "\<exists>r h'. xRead d address count h = run_return (r, h')
    \<and> (r = Some (disk_slice d (unat address) (unat count)) \<or> r = None \<and> \<not> mem_ok h)"
proof -
  define off :: u32 where "off = ucast (address AND scast (s_bsize (jfs_sb d) - 1))"
  define len where "len = (off + count + s_bsize (jfs_sb d) - 1) AND NOT (s_bsize (jfs_sb d) - 1)"
  note a = xRead_arith [OF ok inside small, folded off_def, folded len_def]
  obtain m h1 where m: "malloc h = (m, h1)" by (cases "malloc h")
  have nm: "\<not> m \<Longrightarrow> \<not> mem_ok h" using m mem_ok_malloc_fst [of h] by auto
  have "unat address - unat off + unat off = unat address" unfolding a(1) by simp
  then have slice: "bytes_at (disk_slice d (unat (address - ucast off)) (unat len)) (unat off) (unat count)
      = disk_slice d (unat address) (unat count)"
    using a(2,3) by (simp add: bytes_at_disk_slice)
  have "ucast (ucast len :: u64) = len" by (rule bit_word_eqI) (auto simp: bit_simps)
  then show ?thesis
    using a(2,4) inside slice nm
    by (auto simp: xRead_def Let_def m ujfs_read_diskblocks_def off_def [symmetric] len_def [symmetric])
qed

section \<open>The superblock check\<close>

text \<open>\<^verbatim>\<open>strncmp\<close>, on byte strings whose end reads as the terminating zero.\<close>

fun strncmp :: "bytes \<Rightarrow> bytes \<Rightarrow> nat \<Rightarrow> int" where
  "strncmp s t 0 = 0"
| "strncmp s t (Suc n) =
     (let x = (case s of [] \<Rightarrow> 0 | c # _ \<Rightarrow> c); y = (case t of [] \<Rightarrow> 0 | c # _ \<Rightarrow> c)
      in if x \<noteq> y then uint x - uint y else if x = 0 then 0 else strncmp (tl s) (tl t) n)"

definition JFS_MAGIC :: bytes where
  "JFS_MAGIC = [0x4a, 0x46, 0x53, 0x31]"   \<comment> \<open>\<^verbatim>\<open>JFS1\<close>\<close>

text \<open>The result of \<^verbatim>\<open>diskfs_catch_exception\<close> is not looked at. A store that does not hold the whole superblock
  faults here, although only two of its members are read at once and the others later.\<close>

definition get_hypermetadata :: "disk \<Rightarrow> fs run" where
  "get_hypermetadata d =
     run_check (unat SUPER1_OFF + sizeof_superblock \<le> dk_size d) Segv
       (let sb = superblock_of (disk_slice d (unat SUPER1_OFF) sizeof_superblock)
        in if strncmp JFS_MAGIC (s_magic sb) 4 \<noteq> 0 then run_fault (Exit_Called 0)
           else run_return \<lparr>dk_size = dk_size d, dk_byte = dk_byte d, jfs_sb = sb\<rparr>)"

lemma strncmp_zero_iff:
  "0 \<notin> set s \<Longrightarrow> length s = n \<Longrightarrow> length t = n \<Longrightarrow> strncmp s t n = 0 \<longleftrightarrow> s = t"
proof (induction n arbitrary: s t)
  case (Suc n)
  then obtain x s' y t' where "s = x # s'" "t = y # t'"
    by (metis length_Suc_conv)
  with Suc show ?case by (auto simp: word_uint_eq_iff)
qed simp

lemma get_hypermetadata_returns:
  "get_hypermetadata d = run_return m \<longleftrightarrow>
     unat SUPER1_OFF + sizeof_superblock \<le> dk_size d
     \<and> disk_slice d (unat SUPER1_OFF) 4 = JFS_MAGIC
     \<and> m = \<lparr>dk_size = dk_size d, dk_byte = dk_byte d,
            jfs_sb = superblock_of (disk_slice d (unat SUPER1_OFF) sizeof_superblock)\<rparr>"
proof -
  define b where "b = disk_slice d (unat SUPER1_OFF) sizeof_superblock"
  have magic: "s_magic (superblock_of b) = disk_slice d (unat SUPER1_OFF) 4"
    by (simp add: superblock_of_def b_def bytes_at_disk_slice sizeof_superblock_def)
  have "strncmp JFS_MAGIC (s_magic (superblock_of b)) 4 = 0
      \<longleftrightarrow> disk_slice d (unat SUPER1_OFF) 4 = JFS_MAGIC"
    unfolding magic by (subst strncmp_zero_iff) (auto simp: JFS_MAGIC_def)
  then show ?thesis
    by (auto simp: get_hypermetadata_def Let_def run_iff b_def [symmetric])
qed

section \<open>Properties\<close>

text \<open>
  C16: reading the disk. On a file system of sound geometry, \<^verbatim>\<open>xRead\<close> of a range inside the mapping always returns,
  frees what it allocated, and delivers exactly the bytes of that range, whether or not the range is aligned to
  blocks; the one failure is an allocation that failed.
\<close>

theorem xRead_reads:
  assumes "fs_ok d" and "unat address + unat count \<le> dk_size d" and "unat count < 2 ^ 31"
  shows "\<exists>r h'. xRead d address count h = run_return (r, h') \<and> balanced h h'
    \<and> (r = Some (disk_slice d (unat address) (unat count)) \<or> r = None \<and> \<not> mem_ok h)"
  using xRead_returns [OF assms, of h] xRead_balanced by blast

text \<open>
  C32: the superblock. \<^verbatim>\<open>get_hypermetadata\<close> returns exactly when the store reaches beyond the first superblock and
  the four bytes there are the magic string; then the superblock is the structure at that offset and the image is
  unchanged.
\<close>

theorem get_hypermetadata_accepts:
  "get_hypermetadata d = run_return m \<longleftrightarrow>
     unat SUPER1_OFF + sizeof_superblock \<le> dk_size d
     \<and> disk_slice d (unat SUPER1_OFF) 4 = JFS_MAGIC
     \<and> m = \<lparr>dk_size = dk_size d, dk_byte = dk_byte d,
            jfs_sb = superblock_of (disk_slice d (unat SUPER1_OFF) sizeof_superblock)\<rparr>"
  by (rule get_hypermetadata_returns)

end
