(* ===== verification/Jfs_Xtree.thy ===== *)
theory Jfs_Xtree
  imports Jfs_Disk
begin

text \<open>
  The search in one page of an extent tree. \<^verbatim>\<open>find_iag\<close> (\<^verbatim>\<open>jfs_inode.c\<close>) and \<^verbatim>\<open>xt_Lookup\<close>
  (\<^verbatim>\<open>jfs_fileread.c\<close>) contain the same binary search loop; \<open>xt_search\<close> is that loop, over the comparison the
  macros \<^verbatim>\<open>XT_CMP\<close> and \<^verbatim>\<open>XT_CMP_4\<close> make. With a negative entry count its control variable never
  becomes zero, so the loop is a partial function.

  The abstract side is the tree of extents a set of pages represents, its well-formedness, and the
  extent that covers a block number. The locale \<open>ordered_cmp\<close> states what the search needs of the page
  and gives what it finds.
\<close>

section \<open>The loop\<close>

definition XT_CMP :: "u64 \<Rightarrow> xad_t \<Rightarrow> int" where
  "XT_CMP K x = (let offset64 = offsetXAD x
     in if sint K \<ge> sint (offset64 + ucast (lengthXAD x)) then 1
        else if sint K < sint offset64 then -1 else 0)"

datatype search = Hit int | Miss int int  \<comment> \<open>the index found; or \<^verbatim>\<open>base\<close> and the last \<^verbatim>\<open>cmp\<close>\<close>

partial_function (option) xt_search :: "(int \<Rightarrow> fault + int) \<Rightarrow> int \<Rightarrow> int \<Rightarrow> int \<Rightarrow> search run" where
  "xt_search cmpf base lim cmp =
     (if lim = 0 then run_return (Miss base cmp)
      else let index = base + drop_bit 1 lim
           in case cmpf index of
                Inl f \<Rightarrow> run_fault f
              | Inr c \<Rightarrow>
                  if c = 0 then run_return (Hit index)
                  else if c > 0 then xt_search cmpf (index + 1) (drop_bit 1 (lim - 1)) c
                  else xt_search cmpf base (drop_bit 1 lim) c)"

text \<open>The comparison of the loop body: the entry is read, then compared.\<close>

definition page_cmp :: "bytes \<Rightarrow> u64 \<Rightarrow> int \<Rightarrow> fault + int" where
  "page_cmp p K index = (case xad_at p index of Inl f \<Rightarrow> Inl f | Inr x \<Rightarrow> Inr (XT_CMP K x))"

section \<open>What the loop finds\<close>

lemma drop_bit_1_int: "drop_bit (Suc 0) (x :: int) = x div 2"
  by (simp add: drop_bit_eq_div)

text \<open>
  Indices \<open>lo..lo+n-1\<close> compare without a fault, and in order: once the key is not beyond an entry it is
  before all later ones.
\<close>

locale ordered_cmp =
  fixes cmpf :: "int \<Rightarrow> fault + int" and c :: "int \<Rightarrow> int" and lo n :: int
  assumes readable: "lo \<le> i \<Longrightarrow> i < lo + n \<Longrightarrow> cmpf i = Inr (c i)"
    and ordered: "lo \<le> i \<Longrightarrow> i < j \<Longrightarrow> j < lo + n \<Longrightarrow> c i \<le> 0 \<Longrightarrow> c j < 0"
begin

text \<open>The answer: the hit, or the first entry beyond the key with a comparison that was not equal.\<close>

definition found :: "int \<Rightarrow> search \<Rightarrow> bool" where
  "found cmp0 r \<longleftrightarrow> (case r of
      Hit i \<Rightarrow> lo \<le> i \<and> i < lo + n \<and> c i = 0
    | Miss b m \<Rightarrow> lo \<le> b \<and> b \<le> lo + n \<and> (\<forall>i. lo \<le> i \<and> i < b \<longrightarrow> c i > 0)
        \<and> (\<forall>i. b \<le> i \<and> i < lo + n \<longrightarrow> c i < 0) \<and> (n = 0 \<and> m = cmp0 \<or> n > 0 \<and> m \<noteq> 0))"

lemma search_range:
  assumes "0 \<le> lim" and "lo \<le> base" and "base + lim \<le> lo + n"
    and "\<And>i. lo \<le> i \<Longrightarrow> i < base \<Longrightarrow> c i > 0"
    and "\<And>i. base + lim \<le> i \<Longrightarrow> i < lo + n \<Longrightarrow> c i < 0"
    and "n = lim \<and> cmp = cmp0 \<or> cmp \<noteq> 0 \<and> 0 < n"
  shows "\<exists>r. xt_search cmpf base lim cmp = run_return r \<and> found cmp0 r"
  using assms
proof (induction "nat lim" arbitrary: base lim cmp rule: less_induct)
  case less
  show ?case
  proof (cases "lim = 0")
    case True
    with less.prems show ?thesis
      by (subst xt_search.simps) (auto simp: found_def)
  next
    case False
    with less.prems(1) have pos: "0 < lim" by simp
    define index where "index = base + lim div 2"
    have in_range: "lo \<le> index" "index < lo + n" "base \<le> index" "index < base + lim"
      using less.prems(1-3) pos by (auto simp: index_def)
    have unfold: "xt_search cmpf base lim cmp =
        (if c index = 0 then run_return (Hit index)
         else if c index > 0 then xt_search cmpf (index + 1) ((lim - 1) div 2) (c index)
         else xt_search cmpf base (lim div 2) (c index))"
      using False in_range(1,2)
      by (subst xt_search.simps) (simp add: drop_bit_1_int index_def readable Let_def)
    consider "c index = 0" | "c index > 0" | "c index < 0" by linarith
    then show ?thesis
    proof cases
      case 1
      with unfold in_range show ?thesis by (auto simp: found_def)
    next
      case 2
      have "\<exists>r. xt_search cmpf (index + 1) ((lim - 1) div 2) (c index) = run_return r \<and> found cmp0 r"
      proof (rule less.hyps)
        show "nat ((lim - 1) div 2) < nat lim" using pos by simp
        show "index + 1 + (lim - 1) div 2 \<le> lo + n" using less.prems(3) by (simp add: index_def)
        show "c i > 0" if "lo \<le> i" "i < index + 1" for i
          using that 2 in_range(2) ordered [of i index] by (cases "i = index") fastforce+
        show "c i < 0" if "index + 1 + (lim - 1) div 2 \<le> i" "i < lo + n" for i
          using that less.prems(5) [of i] by (simp add: index_def)
      qed (use pos 2 in_range less.prems(2) in auto)
      with 2 unfold show ?thesis by simp
    next
      case 3
      have "\<exists>r. xt_search cmpf base (lim div 2) (c index) = run_return r \<and> found cmp0 r"
      proof (rule less.hyps)
        show "nat (lim div 2) < nat lim" using pos by simp
        show "c i < 0" if "base + lim div 2 \<le> i" "i < lo + n" for i
          using that 3 in_range(1) ordered [of index i] by (cases "i = index") (auto simp: index_def)
      qed (use pos 3 in_range less.prems in \<open>auto simp: index_def\<close>)
      with 3 unfold show ?thesis by simp
    qed
  qed
qed

lemma search_found:
  "0 \<le> n \<Longrightarrow> \<exists>r. xt_search cmpf lo n cmp0 = run_return r \<and> found cmp0 r"
  by (rule search_range) auto

end

section \<open>Extents and pages\<close>

abbreviation xo :: "xad_t \<Rightarrow> nat" where "xo x \<equiv> unat (offsetXAD x)"
abbreviation xl :: "xad_t \<Rightarrow> nat" where "xl x \<equiv> unat (lengthXAD x)"
abbreviation xa :: "xad_t \<Rightarrow> nat" where "xa x \<equiv> unat (addressXAD x)"

definition covers :: "xad_t \<Rightarrow> nat \<Rightarrow> bool" where
  "covers x k \<longleftrightarrow> xo x \<le> k \<and> k < xo x + xl x"

definition ascending :: "xad_t list \<Rightarrow> bool" where
  "ascending xs \<longleftrightarrow> sorted_wrt (\<lambda>a b. xo a + xl a \<le> xo b) xs"

definition xt_nentries :: "bytes \<Rightarrow> int" where
  "xt_nentries p = sint (xth_nextindex (xtheader_of p)) - XTENTRYSTART"

definition page_xads :: "bytes \<Rightarrow> xad_t list" where
  "page_xads p = map (\<lambda>i. xad_of p (16 * (i + 2))) [0..<nat (xt_nentries p)]"

text \<open>A page whose entry count is not negative, whose entries lie in the page, in ascending order.\<close>

definition page_ok :: "bytes \<Rightarrow> bool" where
  "page_ok p \<longleftrightarrow> 0 \<le> xt_nentries p \<and> 16 * (nat (xt_nentries p) + 2) \<le> length p
     \<and> ascending (page_xads p)"

definition page_n :: "bytes \<Rightarrow> int" where
  "page_n p = (if page_ok p then xt_nentries p else 0)"

definition page_c :: "bytes \<Rightarrow> u64 \<Rightarrow> int \<Rightarrow> int" where
  "page_c p K index = XT_CMP K (xad_of p (16 * nat index))"

lemma sint_small: "unat (w :: u64) < 2 ^ 63 \<Longrightarrow> sint w = int (unat w)"
proof -
  assume "unat w < 2 ^ 63"
  then have "int (unat w) < 2 ^ 63" by (simp add: of_nat_less_numeral_iff del: of_nat_unat)
  then have "uint w < 2 ^ 63" by (simp only: of_nat_unat)
  then have "signed_take_bit 63 (uint w) = uint w"
    using order_trans [of "- (2 ^ 63) :: int" 0 "uint w"] by (intro signed_take_bit_int_eq_self) simp_all
  then show ?thesis by (simp add: sint_uint of_nat_unat)
qed

lemma unat_extent_end: "unat (offsetXAD x + ucast (lengthXAD x)) = xo x + xl x"
  using xoff.fetch_bound [of x] lengthXAD_bound [of x]
  by (simp add: unat_word_ariths unat_ucast_up)

lemma XT_CMP_sint:
  "XT_CMP K x = (if int (xo x + xl x) \<le> sint K then 1 else if sint K < int (xo x) then -1 else 0)"
proof -
  have "sint (offsetXAD x + ucast (lengthXAD x)) = int (xo x + xl x)"
    using xoff.fetch_bound [of x] lengthXAD_bound [of x]
    by (subst sint_small) (simp_all add: unat_extent_end)
  moreover have "sint (offsetXAD x) = int (xo x)"
    using xoff.fetch_bound [of x] by (intro sint_small) simp
  ultimately show ?thesis by (simp add: XT_CMP_def Let_def)
qed

lemma XT_CMP_covers: "unat K < 2 ^ 63 \<Longrightarrow> XT_CMP K x = 0 \<longleftrightarrow> covers x (unat K)"
  by (auto simp: XT_CMP_sint sint_small covers_def)

lemma length_page_xads [simp]: "length (page_xads p) = nat (xt_nentries p)"
  by (simp add: page_xads_def)

lemma nth_page_xads: "i < nat (xt_nentries p) \<Longrightarrow> page_xads p ! i = xad_of p (16 * (i + 2))"
  by (simp add: page_xads_def)

lemma ascendingD: "ascending xs \<Longrightarrow> i < j \<Longrightarrow> j < length xs \<Longrightarrow> xo (xs ! i) + xl (xs ! i) \<le> xo (xs ! j)"
  by (auto simp: ascending_def sorted_wrt_iff_nth_less)

lemma xad_at_nth:
  "page_ok p \<Longrightarrow> i < length (page_xads p) \<Longrightarrow> xad_at p (int i + 2) = Inr (page_xads p ! i)"
  by (auto simp: xad_at_def page_ok_def nth_page_xads nat_add_distrib algebra_simps)

lemma page_c_nth:
  "2 \<le> i \<Longrightarrow> i < 2 + page_n p \<Longrightarrow> page_c p K i = XT_CMP K (page_xads p ! nat (i - 2))"
  by (auto simp: page_c_def page_n_def nth_page_xads nat_diff_distrib diff_mult_distrib2
      add_diff_inverse_nat split: if_splits)

interpretation pg: ordered_cmp "page_cmp p K" "page_c p K" 2 "page_n p" for p K
proof
  fix i assume "2 \<le> i" "i < 2 + page_n p"
  then show "page_cmp p K i = Inr (page_c p K i)"
    by (auto simp: page_n_def page_ok_def page_cmp_def page_c_def xad_at_def split: if_splits)
next
  fix i j assume ij: "2 \<le> i" "i < j" "j < 2 + page_n p" and c: "page_c p K i \<le> 0"
  from ij have ok: "page_ok p" "j < 2 + xt_nentries p" by (auto simp: page_n_def split: if_splits)
  with ij have "xo (page_xads p ! nat (i - 2)) + xl (page_xads p ! nat (i - 2))
      \<le> xo (page_xads p ! nat (j - 2))"
    by (intro ascendingD) (auto simp: page_ok_def)
  with c ij show "page_c p K j < 0"
    by (auto simp: page_c_nth XT_CMP_sint split: if_splits)
qed

section \<open>Trees of extents\<close>

datatype xtree = XLeaf "xad_t list" | XNode "(xad_t \<times> xtree) list"

fun xt_leaves :: "xtree \<Rightarrow> xad_t list" where
  "xt_leaves (XLeaf xs) = xs"
| "xt_leaves (XNode kids) = concat (map (\<lambda>(x, t). xt_leaves t) kids)"

definition xt_find :: "xtree \<Rightarrow> nat \<Rightarrow> xad_t option" where
  "xt_find t k = List.find (\<lambda>x. covers x k) (xt_leaves t)"

definition in_bounds :: "nat \<Rightarrow> nat \<Rightarrow> xad_t list \<Rightarrow> bool" where
  "in_bounds lo hi xs \<longleftrightarrow> list_all (\<lambda>x. lo \<le> xo x \<and> xo x + xl x \<le> hi) xs"

text \<open>Keys of a node ascend from at most the lower bound of the node, and each child keeps to the range
  between its key and the next.\<close>

fun xt_wf :: "nat \<Rightarrow> nat \<Rightarrow> xtree \<Rightarrow> bool" and kids_wf :: "nat \<Rightarrow> (xad_t \<times> xtree) list \<Rightarrow> bool" where
  "xt_wf lo hi (XLeaf xs) \<longleftrightarrow> ascending xs \<and> in_bounds lo hi xs"
| "xt_wf lo hi (XNode kids) \<longleftrightarrow> kids \<noteq> [] \<and> ascending (map fst kids) \<and> xo (fst (hd kids)) \<le> lo
     \<and> in_bounds lo hi (xt_leaves (XNode kids)) \<and> kids_wf hi kids"
| "kids_wf hi [] \<longleftrightarrow> True"
| "kids_wf hi ((x, t) # rest) \<longleftrightarrow>
     xt_wf (xo x) (case rest of [] \<Rightarrow> hi | (y, _) # _ \<Rightarrow> xo y) t \<and> kids_wf hi rest"

text \<open>The page \<open>p\<close> and those its entries lead to hold the tree.\<close>

fun xt_repr :: "fs \<Rightarrow> bytes \<Rightarrow> xtree \<Rightarrow> bool" where
  "xt_repr d p (XLeaf xs) \<longleftrightarrow> page_ok p \<and> page_xads p = xs
     \<and> xth_flag (xtheader_of p) AND BT_LEAF \<noteq> 0 \<and> xth_flag (xtheader_of p) AND BT_INTERNAL = 0"
| "xt_repr d p (XNode kids) \<longleftrightarrow> page_ok p \<and> page_xads p = map fst kids
     \<and> xth_flag (xtheader_of p) AND BT_LEAF = 0 \<and> xth_flag (xtheader_of p) AND BT_INTERNAL \<noteq> 0
     \<and> list_all (\<lambda>(x, t). xa x * 2 ^ l2b d + 4096 \<le> dk_size d
          \<and> xt_repr d (disk_slice d (xa x * 2 ^ l2b d) 4096) t) kids"

section \<open>The search in a page of a tree\<close>

lemma page_search [consumes 2, case_names hit miss]:
  assumes ok: "page_ok p" and K: "unat K < 2 ^ 63"
  obtains i where "xt_search (page_cmp p K) XTENTRYSTART (xt_nentries p) c0 = run_return (Hit (int i + 2))"
      "i < length (page_xads p)" "covers (page_xads p ! i) (unat K)"
    | b m where "xt_search (page_cmp p K) XTENTRYSTART (xt_nentries p) c0 = run_return (Miss (int b + 2) m)"
      "b \<le> length (page_xads p)"
      "\<And>i. i < b \<Longrightarrow> xo (page_xads p ! i) + xl (page_xads p ! i) \<le> unat K"
      "\<And>i. b \<le> i \<Longrightarrow> i < length (page_xads p) \<Longrightarrow> unat K < xo (page_xads p ! i)"
      "page_xads p = [] \<and> m = c0 \<or> page_xads p \<noteq> [] \<and> m \<noteq> 0"
proof -
  have n: "page_n p = xt_nentries p" "0 \<le> xt_nentries p" using ok by (simp_all add: page_n_def page_ok_def)
  obtain r where r: "xt_search (page_cmp p K) 2 (page_n p) c0 = run_return r" "pg.found p K c0 r"
    using pg.search_found [of p K c0] n by auto
  note r = r(1) [unfolded n(1)] r(2) [unfolded pg.found_def, unfolded n(1)]
  have c: "page_c p K (int i + 2) = XT_CMP K (page_xads p ! i)" if "i < nat (xt_nentries p)" for i
    using that n by (subst page_c_nth) auto
  show thesis
  proof (cases r)
    case (Hit j)
    with r(2) n have j: "2 \<le> j" "j < 2 + xt_nentries p" "page_c p K j = 0" by simp_all
    define i where "i = nat (j - 2)"
    have "covers (page_xads p ! i) (unat K)"
      using c [of i] j K by (simp add: i_def XT_CMP_covers)
    with r(1) j n show thesis
      by (intro that(1) [of i]) (simp_all add: Hit i_def XTENTRYSTART_def)
  next
    case (Miss bb m)
    define b where "b = nat (bb - 2)"
    have f: "2 \<le> bb" "bb \<le> 2 + xt_nentries p" "\<And>i. 2 \<le> i \<Longrightarrow> i < bb \<Longrightarrow> page_c p K i > 0"
      "\<And>i. bb \<le> i \<Longrightarrow> i < 2 + xt_nentries p \<Longrightarrow> page_c p K i < 0"
      "xt_nentries p = 0 \<and> m = c0 \<or> xt_nentries p > 0 \<and> m \<noteq> 0"
      using r(2) n Miss by auto
    show thesis
    proof (rule that(2) [of b m])
      fix i assume "i < b"
      then have "i < nat (xt_nentries p)" "int i + 2 < bb" using f(1,2) by (auto simp: b_def)
      then show "xo (page_xads p ! i) + xl (page_xads p ! i) \<le> unat K"
        using c [of i] f(3) [of "int i + 2"] K by (simp add: XT_CMP_sint sint_small split: if_splits)
    next
      fix i assume "b \<le> i" "i < length (page_xads p)"
      then have "i < nat (xt_nentries p)" "int i < xt_nentries p" "bb \<le> int i + 2"
        using f(1) by (auto simp: b_def)
      then show "unat K < xo (page_xads p ! i)"
        using c [of i] f(4) [of "int i + 2"] K by (simp add: XT_CMP_sint sint_small split: if_splits)
    qed (use r(1) f(1,2,5) Miss in \<open>auto simp: b_def XTENTRYSTART_def page_xads_def\<close>)
  qed
qed

lemma find_covers:
  "ascending xs \<Longrightarrow> i < length xs \<Longrightarrow> covers (xs ! i) k \<Longrightarrow> List.find (\<lambda>x. covers x k) xs = Some (xs ! i)"
  by (fastforce simp: find_Some_iff covers_def dest: ascendingD)

lemma find_covers_None:
  "(\<And>x. x \<in> set xs \<Longrightarrow> \<not> covers x k) \<Longrightarrow> List.find (\<lambda>x. covers x k) xs = None"
  by (simp add: find_None_iff)

lemma leaf_miss:
  assumes "\<And>i. i < b \<Longrightarrow> xo (xs ! i) + xl (xs ! i) \<le> k" "\<And>i. b \<le> i \<Longrightarrow> i < length xs \<Longrightarrow> k < xo (xs ! i)"
  shows "xt_find (XLeaf xs) k = None"
  unfolding xt_find_def
proof (rule find_covers_None)
  fix x assume "x \<in> set (xt_leaves (XLeaf xs))"
  then obtain i where "i < length xs" "x = xs ! i" by (auto simp: in_set_conv_nth)
  then show "\<not> covers x k"
    using assms(1) [of i] assms(2) [of i] by (cases "i < b") (auto simp: covers_def)
qed

lemma leaf_hit:
  "ascending xs \<Longrightarrow> i < length xs \<Longrightarrow> covers (xs ! i) k \<Longrightarrow> xt_find (XLeaf xs) k = Some (xs ! i)"
  by (simp add: xt_find_def find_covers)

text \<open>The child the descent takes: the entry hit, or the one before the first entry beyond the key.\<close>

definition child_index :: "search \<Rightarrow> int" where
  "child_index r = (case r of Hit index \<Rightarrow> index | Miss base _ \<Rightarrow> if base \<noteq> 0 then base - 1 else base)"

lemma node_search:
  assumes ok: "page_ok p" and K: "unat K < 2 ^ 63" and ne: "page_xads p \<noteq> []"
    and first: "xo (hd (page_xads p)) \<le> unat K"
  obtains r i where "xt_search (page_cmp p K) XTENTRYSTART (xt_nentries p) c0 = run_return r"
    "child_index r = int i + 2" "i < length (page_xads p)" "xo (page_xads p ! i) \<le> unat K"
    "Suc i < length (page_xads p) \<Longrightarrow> unat K < xo (page_xads p ! Suc i)"
  using ok K
proof (cases rule: page_search [where ?c0.0 = c0])
  case (hit i)
  have "unat K < xo (page_xads p ! Suc i)" if "Suc i < length (page_xads p)"
    using that hit(3) ok ascendingD [of "page_xads p" i "Suc i"] by (simp add: covers_def page_ok_def)
  with hit show thesis by (intro that [OF hit(1)]) (auto simp: child_index_def covers_def)
next
  case (miss b m)
  have "b \<noteq> 0"
    using miss(4) [of 0] ne first by (cases "page_xads p") auto
  with miss(2) miss(3) [of "b - 1"] show thesis
    by (intro that [OF miss(1), of "b - 1"]) (auto simp: child_index_def intro: miss(4))
qed

lemma kids_wf_bounds:
  "kids_wf hi kids \<Longrightarrow> i < length kids \<Longrightarrow>
     xt_wf (xo (fst (kids ! i))) (if Suc i < length kids then xo (fst (kids ! Suc i)) else hi) (snd (kids ! i))"
proof (induction kids arbitrary: i)
  case (Cons kt rest)
  obtain x t where kt: "kt = (x, t)" by (cases kt)
  show ?case
  proof (cases i)
    case 0
    with Cons.prems kt show ?thesis by (cases rest) auto
  next
    case (Suc j)
    with Cons.prems kt show ?thesis using Cons.IH [of j] by (simp split: if_splits)
  qed
qed simp

lemma xt_wf_in_bounds: "xt_wf lo hi t \<Longrightarrow> in_bounds lo hi (xt_leaves t)"
  by (cases t) simp_all

lemma find_append: "List.find P (xs @ ys) = (case List.find P xs of None \<Rightarrow> List.find P ys | Some x \<Rightarrow> Some x)"
  by (induction xs) auto

text \<open>The child chosen by the keys has the extent that covers the key, if any child has.\<close>

lemma find_child:
  assumes wf: "kids_wf hi kids" and asc: "ascending (map fst kids)" and i: "i < length kids"
    and low: "xo (fst (kids ! i)) \<le> k" and high: "Suc i < length kids \<Longrightarrow> k < xo (fst (kids ! Suc i))"
  shows "xt_find (XNode kids) k = xt_find (snd (kids ! i)) k"
proof -
  have mono: "xo (fst (kids ! a)) \<le> xo (fst (kids ! b))" if "a \<le> b" "b < length kids" for a b
    using that ascendingD [OF asc, of a b] by (cases "a = b") auto
  have other: "\<not> covers x k" if "j < length kids" "j \<noteq> i" "x \<in> set (xt_leaves (snd (kids ! j)))" for j x
  proof (cases "j < i")
    case True
    have "xo x + xl x \<le> xo (fst (kids ! Suc j))"
      using xt_wf_in_bounds [OF kids_wf_bounds [OF wf that(1)]] that(3) True i
      by (auto simp: in_bounds_def list_all_iff)
    also have "\<dots> \<le> k" using mono [of "Suc j" i] True i low by simp
    finally show ?thesis by (simp add: covers_def)
  next
    case False
    then have "k < xo (fst (kids ! j))"
      using that(1,2) high mono [of "Suc i" j] by (cases "Suc i < length kids") auto
    also have "\<dots> \<le> xo x"
      using xt_wf_in_bounds [OF kids_wf_bounds [OF wf that(1)]] that(3) by (auto simp: in_bounds_def list_all_iff)
    finally show ?thesis by (simp add: covers_def)
  qed
  define ls where "ls = map (\<lambda>(x, t). xt_leaves t) kids"
  have ls: "j < length kids \<Longrightarrow> ls ! j = xt_leaves (snd (kids ! j))" for j
    by (simp add: ls_def split_beta)
  have split: "concat ls = concat (take i ls) @ ls ! i @ concat (drop (Suc i) ls)"
    using i by (metis concat.simps(2) concat_append id_take_nth_drop length_map ls_def)
  have len: "length ls = length kids" by (simp add: ls_def)
  have "List.find (\<lambda>x. covers x k) (concat (take i ls)) = None"
  proof (rule find_covers_None)
    fix x assume "x \<in> set (concat (take i ls))"
    then obtain l where "l \<in> set (take i ls)" "x \<in> set l" by auto
    then obtain j where "j < i" "x \<in> set (ls ! j)" using i len by (auto simp: in_set_conv_nth [of l])
    with other [of j x] i show "\<not> covers x k" by (simp add: ls)
  qed
  moreover have "List.find (\<lambda>x. covers x k) (concat (drop (Suc i) ls)) = None"
  proof (rule find_covers_None)
    fix x assume "x \<in> set (concat (drop (Suc i) ls))"
    then obtain l where "l \<in> set (drop (Suc i) ls)" "x \<in> set l" by auto
    then obtain m where m: "m < length ls - Suc i" "x \<in> set (ls ! (Suc i + m))"
      using i len by (auto simp: in_set_conv_nth [of l])
    then obtain j where "i < j" "j < length kids" "x \<in> set (ls ! j)"
      using len by (auto intro!: that [of "Suc i + m"])
    with other [of j x] show "\<not> covers x k" by (simp add: ls)
  qed
  ultimately show ?thesis
    using i by (simp add: xt_find_def ls_def [symmetric] split find_append ls split: option.split)
qed

section \<open>Entry counts below the first entry\<close>

text \<open>
  With \<^verbatim>\<open>nextindex\<close> 0 or 1 the control variable starts negative; an arithmetic shift never takes it to
  zero, and the loop compares slot 1, which is a part of the page header, for ever.
\<close>

lemma xt_search_negative:
  assumes c1: "cmpf 1 = Inr c" and c: "c \<noteq> 0" and lim: "lim = - 1 \<or> lim = - 2"
  shows "xt_search cmpf 2 lim cmp = None"
proof (rule ccontr)
  assume "xt_search cmpf 2 lim cmp \<noteq> None"
  then obtain r where ret: "xt_search cmpf 2 lim cmp = Some r" by blast
  have "\<not> (cmpf' = cmpf \<and> base = 2 \<and> (lim' = - 1 \<or> lim' = - 2))"
    if "xt_search cmpf' base lim' cmp' = Some r'" for cmpf' base lim' cmp' r'
    using that
  proof (rule xt_search.raw_induct [rotated])
    fix f g base lim cmp r
    assume IH: "\<And>g base lim cmp r. f g base lim cmp = Some r
        \<Longrightarrow> \<not> (g = cmpf \<and> base = 2 \<and> (lim = - 1 \<or> lim = - 2))"
      and eq: "(if lim = 0 then run_return (Miss base cmp)
        else let index = base + drop_bit 1 lim
             in case g index of Inl e \<Rightarrow> run_fault e
                | Inr c \<Rightarrow> if c = 0 then run_return (Hit index)
                    else if 0 < c then f g (index + 1) (drop_bit 1 (lim - 1)) c
                    else f g base (drop_bit 1 lim) c) = Some r"
    show "\<not> (g = cmpf \<and> base = 2 \<and> (lim = - 1 \<or> lim = - 2))"
    proof
      assume *: "g = cmpf \<and> base = 2 \<and> (lim = - 1 \<or> lim = - 2)"
      then have "2 + drop_bit 1 lim = (1 :: int)" "drop_bit 1 lim = - 1" "drop_bit 1 (lim - 1) = (- 1 :: int) \<or> drop_bit 1 (lim - 1) = (- 2 :: int)"
        by (auto simp: drop_bit_eq_div)
      with * eq c1 c show False
        by (auto simp: Let_def split: if_splits dest: IH)
    qed
  qed
  with ret lim show False by blast
qed

end
