(* ===== verification/Jfs_Imap.thy ===== *)
theory Jfs_Imap
  imports Jfs_Xtree
begin

text \<open>
  Finding an inode on disk, \<^verbatim>\<open>jfs_inode.c\<close>: \<^verbatim>\<open>find_iag\<close> walks the extent tree of the inode map to the
  page of the inode allocation group, \<^verbatim>\<open>find_inode\<close> takes the inode's extent from that page. The abstract
  side reads the extent list the tree denotes.
\<close>

section \<open>Definitions\<close>

text \<open>\<^verbatim>\<open>unsigned int l2bsize = jfs_sb->s_l2bsize\<close>, as a shift count.\<close>

definition l2bsize :: "fs \<Rightarrow> u32" where
  "l2bsize d = scast (s_l2bsize (jfs_sb d))"

definition shl_l2bsize :: "fs \<Rightarrow> u64 \<Rightarrow> u64" where
  "shl_l2bsize d a = push_bit (unat (l2bsize d)) a"

definition INOTOIAG :: "u32 \<Rightarrow> u32" where
  "INOTOIAG ino = drop_bit 12 ino"

definition IAGTOLBLK :: "u32 \<Rightarrow> u32 \<Rightarrow> u32" where
  "IAGTOLBLK iagno l2nbperpg = push_bit (unat l2nbperpg) (iagno + 1)"

text \<open>Reading the child page of an entry: the state of the next round, or the return value 1 (a result
  \<open>None\<close>) when the page cannot be read.\<close>

definition find_iag_child :: "fs \<Rightarrow> bytes \<Rightarrow> int \<Rightarrow> heap \<Rightarrow> (bytes \<times> heap + u64 option \<times> heap) run" where
  "find_iag_child d page index h =
     run_bind (run_lift (xad_at page index)) (\<lambda>x.
       run_bind (xRead d (shl_l2bsize d (addressXAD x)) PSIZE h) (\<lambda>(b, h).
         run_return (case b of None \<Rightarrow> Inr (None, h) | Some buffer \<Rightarrow> Inl (buffer, h))))"

text \<open>One round of the descent: the binary search in the page and what follows it.\<close>

definition find_iag_page :: "fs \<Rightarrow> u64 \<Rightarrow> bytes \<times> heap \<Rightarrow> (bytes \<times> heap + u64 option \<times> heap) run" where
  "find_iag_page d iagblock = (\<lambda>(page, h).
     run_bind (xt_search (page_cmp page iagblock) XTENTRYSTART
         (uint (le16_to_cpu (xth_nextindex (xtheader_of page))) - XTENTRYSTART) 0) (\<lambda>r.
       case r of
         Hit index \<Rightarrow>
           if xth_flag (xtheader_of page) AND BT_LEAF \<noteq> 0
           then run_bind (run_lift (xad_at page index)) (\<lambda>x.
             run_return (Inr (Some (shl_l2bsize d (addressXAD x + (iagblock - offsetXAD x))), h)))
           else find_iag_child d page index h
       | Miss base cmp \<Rightarrow>
           if xth_flag (xtheader_of page) AND BT_INTERNAL \<noteq> 0
           then find_iag_child d page (if base \<noteq> 0 then base - 1 else base) h
           else run_return (Inr (None, h))))"

definition find_iag_descend :: "fs \<Rightarrow> u64 \<Rightarrow> bytes \<Rightarrow> heap \<Rightarrow> (u64 option \<times> heap) run" where
  "find_iag_descend d iagblock page h = run_loop (find_iag_page d iagblock) (page, h)"

definition find_iag :: "fs \<Rightarrow> u32 \<Rightarrow> u32 \<Rightarrow> heap \<Rightarrow> (u64 option \<times> heap) run" where
  "find_iag d iagnum which_table h =
     (if which_table \<noteq> FILESYSTEM_I \<and> which_table \<noteq> AGGREGATE_I \<and> which_table \<noteq> AGGREGATE_2ND_I
      then run_return (None, h)
      else
        let iagblock = ucast (IAGTOLBLK iagnum (L2PSIZE - l2bsize d));
            fileset_inode_address = ucast (AITBL_OFF + which_table * 512)
        in run_bind (xRead d fileset_inode_address sizeof_dinode h) (\<lambda>(b, h).
             case b of None \<Rightarrow> run_return (None, h)
             | Some fileset_inode \<Rightarrow>
                 find_iag_descend d iagblock (di_btroot (dinode_of fileset_inode)) h))"

text \<open>The first of the two assignments to \<^verbatim>\<open>*address\<close> uses \<^verbatim>\<open>sizeof(dinode_t)\<close>, the second, which
  replaces it, 512.\<close>

definition find_inode :: "fs \<Rightarrow> u32 \<Rightarrow> u32 \<Rightarrow> heap \<Rightarrow> (u64 option \<times> heap) run" where
  "find_inode d inum which_table h =
     (let iagnum = INOTOIAG inum;
          extnum = drop_bit 5 (inum AND (4096 - 1))
      in run_bind (find_iag d iagnum which_table h) (\<lambda>(a, h).
           case a of None \<Rightarrow> run_return (None, h)
           | Some map_address \<Rightarrow>
               run_bind (ujfs_read_diskblocks d map_address sizeof_iag) (\<lambda>(rc, b).
                 if rc \<noteq> 0 then run_return (None, h)
                 else let ext = inoext (iag_of b) ! unat extnum
                      in if pxd_len ext = 0 then run_return (None, h)
                         else let address = shl_l2bsize d (addressPXD ext)
                                  + ucast ((inum AND (32 - 1)) * sizeof_dinode);
                                  address = shl_l2bsize d (addressPXD ext)
                                  + ucast ((inum AND (32 - 1)) * 512)
                              in run_return (Some address, h))))"

text \<open>\<^verbatim>\<open>get_inode\<close> keeps nothing of what it reads.\<close>

definition get_inode :: "fs \<Rightarrow> u32 \<Rightarrow> heap \<Rightarrow> (unit \<times> heap) run" where
  "get_inode d inum h =
     run_bind (find_inode d inum FILESYSTEM_I h) (\<lambda>(a, h).
       case a of None \<Rightarrow> run_return ((), h)
       | Some address \<Rightarrow> run_bind (xRead d address sizeof_dinode h) (\<lambda>(b, h). run_return ((), h)))"

section \<open>Arithmetic of a sane geometry\<close>

lemma l2bsize_ok: "fs_ok d \<Longrightarrow> unat (l2bsize d) = l2b d"
proof -
  assume "fs_ok d"
  then have "unat (s_l2bsize (jfs_sb d)) < 2 ^ 15" by (simp add: fs_ok_def sb_ok_def)
  then have "take_bit 15 (s_l2bsize (jfs_sb d)) = s_l2bsize (jfs_sb d)" by (rule take_bit_word_small)
  then have low: "n < 15" if "bit (s_l2bsize (jfs_sb d)) n" for n
    using that by (metis bit_take_bit_iff)
  then have "(scast (s_l2bsize (jfs_sb d)) :: u32) = ucast (s_l2bsize (jfs_sb d))"
    by (intro bit_word_eqI) (auto simp: bit_simps min_def dest: low)
  then show ?thesis by (simp add: l2bsize_def unat_ucast_up)
qed

lemma unat_shl_l2bsize:
  assumes "fs_ok d" and "unat a < 2 ^ 48"
  shows "unat (shl_l2bsize d a) = unat a * 2 ^ l2b d"
proof -
  have "l2b d \<le> 12" using assms(1) by (simp add: fs_ok_def sb_ok_def)
  then have "(2 :: nat) ^ l2b d \<le> 2 ^ 12" by (intro power_increasing) simp_all
  then have "unat a * 2 ^ l2b d \<le> 2 ^ 48 * 2 ^ 12"
    using assms(2) by (intro mult_le_mono) simp_all
  then have "unat a * 2 ^ l2b d < 2 ^ 64" by simp
  with \<open>l2b d \<le> 12\<close> show ?thesis
    by (simp add: shl_l2bsize_def l2bsize_ok [OF assms(1)] push_bit_eq_mult unat_word_ariths unat_two_power)
qed

lemma AITBL_OFF_value: "AITBL_OFF = 45056"
  by (simp add: AITBL_OFF_def AIMAP_OFF_def SUPER1_OFF_def PSIZE_def push_bit_eq_mult)

section \<open>No leaks\<close>

lemma find_iag_child_balanced:
  "find_iag_child d p i h = run_return r \<Longrightarrow> (\<forall>s. r = Inl s \<longrightarrow> balanced h (snd s)) \<and> (\<forall>a. r = Inr a \<longrightarrow> balanced h (snd a))"
  by (auto simp: find_iag_child_def run_iff split: option.splits dest: xRead_balanced)

lemma find_iag_page_balanced:
  "find_iag_page d K (p, h) = run_return r \<Longrightarrow> (\<forall>s. r = Inl s \<longrightarrow> balanced h (snd s)) \<and> (\<forall>a. r = Inr a \<longrightarrow> balanced h (snd a))"
proof -
  assume "find_iag_page d K (p, h) = run_return r"
  then obtain sr where "(case sr of
      Hit i \<Rightarrow> if xth_flag (xtheader_of p) AND BT_LEAF \<noteq> 0
        then run_bind (run_lift (xad_at p i)) (\<lambda>x.
          run_return (Inr (Some (shl_l2bsize d (addressXAD x + (K - offsetXAD x))), h)))
        else find_iag_child d p i h
    | Miss b m \<Rightarrow> if xth_flag (xtheader_of p) AND BT_INTERNAL \<noteq> 0
        then find_iag_child d p (if b \<noteq> 0 then b - 1 else b) h else run_return (Inr (None, h))) = run_return r"
    unfolding find_iag_page_def by (auto simp: run_bind_return_iff)
  then show ?thesis
    by (cases sr) (auto simp: run_iff split: if_splits dest: find_iag_child_balanced)
qed

lemma find_iag_descend_balanced:
  assumes "find_iag_descend d K p h = run_return (a, h')"
  shows "balanced h h'"
proof -
  have "balanced h (snd (a, h'))"
    by (rule run_loop_invariant [where I = "\<lambda>s. balanced h (snd s)", OF assms [unfolded find_iag_descend_def]])
      (auto dest!: find_iag_page_balanced dest: balanced_trans)
  then show ?thesis by simp
qed

lemma find_iag_balanced: "find_iag d n t h = run_return (a, h') \<Longrightarrow> balanced h h'"
  by (auto simp: find_iag_def Let_def run_iff split: if_splits option.splits
      dest!: xRead_balanced find_iag_descend_balanced dest: balanced_trans)

lemma find_inode_balanced: "find_inode d n t h = run_return (a, h') \<Longrightarrow> balanced h h'"
  by (auto simp: find_inode_def Let_def run_iff split: if_splits option.splits dest!: find_iag_balanced)

section \<open>The descent finds the extent\<close>

lemma nextindex_unsigned:
  assumes "page_ok p"
  shows "uint (le16_to_cpu (xth_nextindex (xtheader_of p))) - XTENTRYSTART = xt_nentries p"
proof -
  define w where "w = xth_nextindex (xtheader_of p)"
  have "0 \<le> sint w" using assms by (simp add: page_ok_def xt_nentries_def w_def XTENTRYSTART_def)
  then have "sint w = uint w"
    using sint_lt [of w] by (simp add: uint_sint take_bit_int_eq_self)
  then show ?thesis by (simp add: le16_to_cpu_def xt_nentries_def w_def)
qed

text \<open>The disk address of the block with number \<open>K\<close> of the inode map, from the extents of its tree.\<close>

definition iag_address :: "fs \<Rightarrow> xtree \<Rightarrow> u64 \<Rightarrow> u64 option" where
  "iag_address d t K = map_option (\<lambda>x. shl_l2bsize d (addressXAD x + (K - offsetXAD x))) (xt_find t (unat K))"

lemma unat_extent_address:
  assumes "fs_ok d" and cov: "covers x (unat K)"
  shows "unat (shl_l2bsize d (addressXAD x + (K - offsetXAD x))) = (xa x + (unat K - xo x)) * 2 ^ l2b d"
proof -
  have "unat (K - offsetXAD x) = unat K - xo x"
    using cov by (simp add: covers_def unat_sub word_le_nat_alt)
  moreover have "unat K - xo x < 2 ^ 24" using cov lengthXAD_bound [of x] by (auto simp: covers_def)
  ultimately have "unat (addressXAD x + (K - offsetXAD x)) = xa x + (unat K - xo x)"
    using xaddr.fetch_bound [of x] by (simp add: unat_word_ariths)
  then show ?thesis
    using xaddr.fetch_bound [of x] \<open>unat K - xo x < 2 ^ 24\<close> by (simp add: unat_shl_l2bsize [OF assms(1)])
qed

lemma find_iag_page_leaf:
  assumes K: "unat K < 2 ^ 63" and repr: "xt_repr d p (XLeaf xs)" and asc: "ascending xs"
  shows "find_iag_page d K (p, h) = run_return (Inr (iag_address d (XLeaf xs) K, h))"
proof -
  have ok: "page_ok p" "page_xads p = xs" using repr by simp_all
  from ok(1) K show ?thesis
  proof (cases rule: page_search [where ?c0.0 = 0])
    case (hit i)
    then have "xt_find (XLeaf xs) (unat K) = Some (xs ! i)"
      using ok asc by (simp add: xt_find_def find_covers)
    with hit ok repr show ?thesis
      by (simp add: find_iag_page_def nextindex_unsigned xad_at_nth iag_address_def)
  next
    case (miss b m)
    have "xt_find (XLeaf xs) (unat K) = None"
      using miss(3,4) ok(2) by (intro leaf_miss [of b]) auto
    with miss ok repr show ?thesis
      by (simp add: find_iag_page_def nextindex_unsigned iag_address_def)
  qed
qed

text \<open>At an internal page the round ends at a child that has the answer, or with the return value 1 when
  the page could not be read for want of memory.\<close>

lemma find_iag_page_node:
  assumes fs: "fs_ok d" and K: "unat K < 2 ^ 63" and repr: "xt_repr d p (XNode kids)"
    and wf: "xt_wf lo hi (XNode kids)" and lo: "lo \<le> unat K"
  shows "\<exists>i h'. i < length kids \<and> iag_address d (XNode kids) K = iag_address d (snd (kids ! i)) K
    \<and> xo (fst (kids ! i)) \<le> unat K
    \<and> (find_iag_page d K (p, h) =
         run_return (Inl (disk_slice d (xa (fst (kids ! i)) * 2 ^ l2b d) 4096, h'))
       \<or> find_iag_page d K (p, h) = run_return (Inr (None, h')) \<and> \<not> mem_ok h)
    \<and> balanced h h'"
proof -
  have ok: "page_ok p" "page_xads p = map fst kids" "kids \<noteq> []" using repr wf by simp_all
  have "page_xads p \<noteq> []" "xo (hd (page_xads p)) \<le> unat K" using wf lo ok by (simp_all add: hd_map)
  then obtain r i where r': "xt_search (page_cmp p K) XTENTRYSTART (xt_nentries p) 0 = run_return r"
    "child_index r = int i + 2" "i < length (page_xads p)" "xo (page_xads p ! i) \<le> unat K"
    "Suc i < length (page_xads p) \<Longrightarrow> unat K < xo (page_xads p ! Suc i)"
    by (rule node_search [OF ok(1) K]) blast
  then have r: "xt_search (page_cmp p K) XTENTRYSTART (xt_nentries p) 0 = run_return r"
    "child_index r = int i + 2" "i < length kids" "xo (fst (kids ! i)) \<le> unat K"
    "Suc i < length kids \<Longrightarrow> unat K < xo (fst (kids ! Suc i))"
    by (simp_all add: ok(2))
  have find: "xt_find (XNode kids) (unat K) = xt_find (snd (kids ! i)) (unat K)"
    using wf r(3-5) by (intro find_child) auto
  define x where "x = fst (kids ! i)"
  have x: "xad_at p (child_index r) = Inr x" using ok r(2,3) by (simp add: xad_at_nth x_def)
  have "xa x * 2 ^ l2b d + 4096 \<le> dk_size d"
    using repr r(3) by (auto simp: list_all_length x_def split_beta)
  moreover have addr: "unat (shl_l2bsize d (addressXAD x)) = xa x * 2 ^ l2b d"
    using xaddr.fetch_bound [of x] by (simp add: unat_shl_l2bsize [OF fs])
  ultimately obtain b h' where b: "xRead d (shl_l2bsize d (addressXAD x)) PSIZE h = run_return (b, h')"
    "b = Some (disk_slice d (xa x * 2 ^ l2b d) 4096) \<or> b = None \<and> \<not> mem_ok h"
    using xRead_returns [OF fs, of "shl_l2bsize d (addressXAD x)" PSIZE h] by (auto simp: PSIZE_def)
  have "find_iag_page d K (p, h) = find_iag_child d p (child_index r) h"
    using r(1) repr ok by (cases r) (auto simp: find_iag_page_def nextindex_unsigned child_index_def)
  then have "find_iag_page d K (p, h) =
      run_return (case b of None \<Rightarrow> Inr (None, h') | Some buffer \<Rightarrow> Inl (buffer, h'))"
    using x b(1) by (simp add: find_iag_child_def)
  with b(2) r(3,4) find xRead_balanced [OF b(1)] show ?thesis
    by (intro exI [of _ i] exI [of _ h']) (auto simp: iag_address_def x_def)
qed

lemma find_iag_descend_correct:
  assumes fs: "fs_ok d" and K: "unat K < 2 ^ 63"
  shows "xt_repr d p t \<Longrightarrow> xt_wf lo hi t \<Longrightarrow> lo \<le> unat K \<Longrightarrow>
    \<exists>a h'. find_iag_descend d K p h = run_return (a, h')
      \<and> (a = iag_address d t K \<or> a = None \<and> \<not> mem_ok h)"
proof (induction t arbitrary: p lo hi h)
  case (XLeaf xs)
  then have "find_iag_page d K (p, h) = run_return (Inr (iag_address d (XLeaf xs) K, h))"
    by (intro find_iag_page_leaf [OF K]) simp_all
  then show ?case by (simp add: find_iag_descend_def run_loop_done)
next
  case (XNode kids)
  obtain i h' where i: "i < length kids" "iag_address d (XNode kids) K = iag_address d (snd (kids ! i)) K"
      "xo (fst (kids ! i)) \<le> unat K" "balanced h h'"
    and step: "find_iag_page d K (p, h) =
         run_return (Inl (disk_slice d (xa (fst (kids ! i)) * 2 ^ l2b d) 4096, h'))
       \<or> find_iag_page d K (p, h) = run_return (Inr (None, h')) \<and> \<not> mem_ok h"
    using find_iag_page_node [OF fs K XNode.prems, of h] by blast
  from step show ?case
  proof
    assume s: "find_iag_page d K (p, h) = run_return (Inl (disk_slice d (xa (fst (kids ! i)) * 2 ^ l2b d) 4096, h'))"
    have "\<exists>a h''. find_iag_descend d K (disk_slice d (xa (fst (kids ! i)) * 2 ^ l2b d) 4096) h' = run_return (a, h'')
        \<and> (a = iag_address d (snd (kids ! i)) K \<or> a = None \<and> \<not> mem_ok h')"
    proof (rule XNode.IH [OF nth_mem [OF i(1)]])
      show "snd (kids ! i) \<in> Basic_BNFs.snds (kids ! i)" by (simp add: snds.intros)
      show "xt_repr d (disk_slice d (xa (fst (kids ! i)) * 2 ^ l2b d) 4096) (snd (kids ! i))"
        using XNode.prems(1) i(1) by (auto simp: list_all_length split_beta)
      show "xt_wf (xo (fst (kids ! i))) (if Suc i < length kids then xo (fst (kids ! Suc i)) else hi) (snd (kids ! i))"
        using XNode.prems(2) i(1) by (intro kids_wf_bounds) auto
    qed (rule i(3))
    with s i(2) balanced_mem_ok [OF i(4)] show ?thesis
      by (auto simp: find_iag_descend_def run_loop_next [of "find_iag_page d K", OF s])
  next
    assume "find_iag_page d K (p, h) = run_return (Inr (None, h')) \<and> \<not> mem_ok h"
    then show ?thesis by (auto simp: find_iag_descend_def run_loop_done)
  qed
qed

section \<open>Inode lookup\<close>

lemma di_btroot_slice:
  "di_btroot (dinode_of (disk_slice d p 512)) = disk_slice d (p + 224) 288"
  by (simp add: di_btroot_def dinode_of_def bytes_at_disk_slice add.assoc)

text \<open>The inode of an inode table holds a well-formed tree of the pages of its map, and these pages are on
  the disk.\<close>

definition imap_ok :: "fs \<Rightarrow> u32 \<Rightarrow> xtree \<Rightarrow> bool" where
  "imap_ok d which_table t \<longleftrightarrow>
     (which_table = FILESYSTEM_I \<or> which_table = AGGREGATE_I)
     \<and> 45056 + unat which_table * 512 + 512 \<le> dk_size d
     \<and> xt_repr d (disk_slice d (45056 + unat which_table * 512 + 224) 288) t
     \<and> xt_wf 0 (2 ^ 41) t
     \<and> list_all (\<lambda>x. (xa x + xl x - 1) * 2 ^ l2b d + 4096 \<le> dk_size d) (xt_leaves t)"

definition iag_block :: "fs \<Rightarrow> u32 \<Rightarrow> u64" where
  "iag_block d n = ucast (IAGTOLBLK n (L2PSIZE - l2bsize d))"

lemma iag_block_small: "unat (iag_block d n) < 2 ^ 63"
  using unat_bound [of "IAGTOLBLK n (L2PSIZE - l2bsize d)"] by (simp add: iag_block_def unat_ucast_up)

lemma unat_iag_block:
  assumes fs: "fs_ok d" and n: "unat n < 2 ^ 20"
  shows "unat (iag_block d n) = (unat n + 1) * 2 ^ (12 - l2b d)"
proof -
  have l: "9 \<le> l2b d" "l2b d \<le> 12" using fs by (simp_all add: fs_ok_def sb_ok_def)
  then have "unat (L2PSIZE - l2bsize d) = 12 - l2b d"
    by (simp add: unat_sub word_le_nat_alt L2PSIZE_def l2bsize_ok [OF fs])
  moreover have "(2 :: nat) ^ (12 - l2b d) \<le> 2 ^ 3" using l by (intro power_increasing) simp_all
  moreover from this have "(unat n + 1) * 2 ^ (12 - l2b d) \<le> 2 ^ 20 * 2 ^ 3" using n by (intro mult_le_mono) simp_all
  ultimately show ?thesis using n l
    by (simp add: iag_block_def IAGTOLBLK_def push_bit_eq_mult unat_ucast_up unat_word_ariths unat_two_power)
qed

lemma find_iag_correct:
  assumes fs: "fs_ok d" and im: "imap_ok d which_table t"
  shows "\<exists>a h'. find_iag d n which_table h = run_return (a, h')
    \<and> (a = iag_address d t (iag_block d n) \<or> a = None \<and> \<not> mem_ok h)"
proof -
  have tbl: "which_table = FILESYSTEM_I \<or> which_table = AGGREGATE_I" using im by (simp add: imap_ok_def)
  then have addr: "unat (ucast (AITBL_OFF + which_table * 512) :: u64) = 45056 + unat which_table * 512"
    by (auto simp: AITBL_OFF_value FILESYSTEM_I_def AGGREGATE_I_def unat_ucast_up)
  define p where "p = disk_slice d (45056 + unat which_table * 512) 512"
  obtain b h1 where b: "xRead d (ucast (AITBL_OFF + which_table * 512)) sizeof_dinode h = run_return (b, h1)"
    "b = Some p \<or> b = None \<and> \<not> mem_ok h"
    using xRead_returns [OF fs, of "ucast (AITBL_OFF + which_table * 512)" sizeof_dinode h] im addr
    by (auto simp: imap_ok_def sizeof_dinode_def p_def)
  have "\<exists>a h'. find_iag_descend d (iag_block d n) (di_btroot (dinode_of p)) h1 = run_return (a, h')
      \<and> (a = iag_address d t (iag_block d n) \<or> a = None \<and> \<not> mem_ok h1)"
    using im unfolding imap_ok_def p_def di_btroot_slice
    by (intro find_iag_descend_correct [OF fs iag_block_small]) (auto simp: add.assoc)
  then show ?thesis
    using b tbl balanced_mem_ok [OF xRead_balanced [OF b(1)]]
    by (auto simp: find_iag_def Let_def iag_block_def)
qed

text \<open>
  What \<^verbatim>\<open>find_inode\<close> is to compute, over numbers: inode \<open>inum\<close> belongs to group \<open>inum div 4096\<close>, whose
  page is block \<open>(inum div 4096 + 1)\<close> of the map in units of 4096 bytes; the page names the extent of the 32
  inodes around it; the inode is the 512-byte record at its place in the extent.
\<close>

definition inode_address :: "fs \<Rightarrow> xtree \<Rightarrow> nat \<Rightarrow> nat option" where
  "inode_address d t inum =
     (let k = (inum div 4096 + 1) * 2 ^ (12 - l2b d)
      in case xt_find t k of
           None \<Rightarrow> None
         | Some x \<Rightarrow>
             let iag = disk_slice d ((xa x + (k - xo x)) * 2 ^ l2b d) 4096;
                 ext = pxd_of iag (3072 + 8 * (inum mod 4096 div 32))
             in if pxd_len ext = 0 then None
                else Some (unat (addressPXD ext) * 2 ^ l2b d + inum mod 32 * 512))"

lemma unat_INOTOIAG: "unat (INOTOIAG inum) = unat inum div 4096"
  unfolding INOTOIAG_def using take_bit_nat_eq_self [OF unat_bound [of inum]]
  by (simp only: unsigned_drop_bit_eq) (simp add: drop_bit_eq_div)

lemma unat_extnum: "unat (drop_bit 5 (inum AND (4096 - 1)) :: u32) = unat inum mod 4096 div 32"
proof -
  have "inum AND (4096 - 1) = take_bit 12 inum" by (simp add: take_bit_eq_mask mask_eq_exp_minus_1)
  then show ?thesis
    by (simp only: unsigned_drop_bit_eq unsigned_take_bit_eq) (simp add: drop_bit_eq_div take_bit_eq_mod)
qed

lemma unat_inode_slot: "unat ((inum AND (32 - 1)) * 512 :: u32) = unat inum mod 32 * 512"
proof -
  have "inum AND (32 - 1) = take_bit 5 inum" by (simp add: take_bit_eq_mask mask_eq_exp_minus_1)
  then have "unat (inum AND (32 - 1)) = unat inum mod 32"
    by (simp only: unsigned_take_bit_eq) (simp add: take_bit_eq_mod)
  moreover have "unat inum mod 32 < 32" by simp
  ultimately show ?thesis by (simp add: unat_word_ariths)
qed

lemma find_xt_find: "xt_find t k = Some x \<Longrightarrow> x \<in> set (xt_leaves t) \<and> covers x k"
  by (auto simp: xt_find_def find_Some_iff)

lemma iag_page_mapped:
  assumes im: "imap_ok d which_table t" and x: "xt_find t k = Some x"
  shows "(xa x + (k - xo x)) * 2 ^ l2b d + 4096 \<le> dk_size d"
proof -
  have x': "x \<in> set (xt_leaves t)" "covers x k" using find_xt_find [OF x] by simp_all
  then have "xa x + (k - xo x) \<le> xa x + xl x - 1" by (auto simp: covers_def)
  then have "(xa x + (k - xo x)) * 2 ^ l2b d \<le> (xa x + xl x - 1) * 2 ^ l2b d" by (rule mult_le_mono1)
  moreover have "(xa x + xl x - 1) * 2 ^ l2b d + 4096 \<le> dk_size d"
    using im x'(1) by (auto simp: imap_ok_def list_all_iff)
  ultimately show ?thesis by linarith
qed

lemma find_inode_found:
  assumes fs: "fs_ok d" and im: "imap_ok d which_table t"
    and x: "xt_find t (unat (iag_block d (INOTOIAG inum))) = Some x"
    and a: "a = shl_l2bsize d (addressXAD x + (iag_block d (INOTOIAG inum) - offsetXAD x))"
    and iag: "find_iag d (INOTOIAG inum) which_table h = run_return (Some a, h')"
  shows "\<exists>r. find_inode d inum which_table h = run_return (r, h')
    \<and> map_option unat r = inode_address d t (unat inum)"
proof -
  define k where "k = unat (iag_block d (INOTOIAG inum))"
  define iagb where "iagb = disk_slice d ((xa x + (k - xo x)) * 2 ^ l2b d) 4096"
  define ext where "ext = pxd_of iagb (3072 + 8 * (unat inum mod 4096 div 32))"
  have small: "unat (INOTOIAG inum) < 2 ^ 20"
    using unat_bound [of inum] by (simp add: unat_INOTOIAG less_mult_imp_div_less)
  have k: "k = (unat inum div 4096 + 1) * 2 ^ (12 - l2b d)"
    unfolding k_def by (simp add: unat_iag_block [OF fs small] unat_INOTOIAG)
  have ua: "unat a = (xa x + (k - xo x)) * 2 ^ l2b d"
    unfolding a k_def using find_xt_find [OF x] by (intro unat_extent_address [OF fs]) simp
  have mapped: "unat a + 4096 \<le> dk_size d"
    using iag_page_mapped [OF im x] by (simp add: ua k_def)
  have nth: "inoext (iag_of iagb) ! unat (drop_bit 5 (inum AND (4096 - 1))) = ext"
    unfolding unat_extnum ext_def by (rule nth_inoext) (simp add: less_mult_imp_div_less)
  have slot: "unat inum mod 32 * 512 < 2 ^ 14"
    using mult_less_mono1 [of "unat inum mod 32" 32 512] by simp
  have "l2b d \<le> 12" using fs by (simp add: fs_ok_def sb_ok_def)
  then have "(2 :: nat) ^ l2b d \<le> 2 ^ 12" by (intro power_increasing) simp_all
  then have big: "unat (addressPXD ext) * 2 ^ l2b d \<le> 2 ^ 40 * 2 ^ 12"
    using pxd.fetch_bound [of ext] by (intro mult_le_mono) simp_all
  have "unat (shl_l2bsize d (addressPXD ext)) = unat (addressPXD ext) * 2 ^ l2b d"
    using pxd.fetch_bound [of ext] by (intro unat_shl_l2bsize [OF fs]) simp
  moreover define s where "s = (inum AND (32 - 1)) * 512"
  moreover have "unat s = unat inum mod 32 * 512" unfolding s_def by (rule unat_inode_slot)
  ultimately have addr: "unat (shl_l2bsize d (addressPXD ext) + ucast s)
      = unat (addressPXD ext) * 2 ^ l2b d + unat inum mod 32 * 512"
    using slot big by (simp add: unat_word_ariths unat_ucast_up)
  have spec: "inode_address d t (unat inum) =
      (if pxd_len ext = 0 then None else Some (unat (addressPXD ext) * 2 ^ l2b d + unat inum mod 32 * 512))"
    using x unfolding inode_address_def Let_def k [symmetric] k_def [symmetric] by (simp add: iagb_def ext_def)
  have "find_inode d inum which_table h = (if pxd_len ext = 0 then run_return (None, h')
      else run_return (Some (shl_l2bsize d (addressPXD ext) + ucast s), h'))"
    unfolding find_inode_def Let_def iag s_def
    using mapped nth by (simp add: ujfs_read_diskblocks_def sizeof_iag_def ua iagb_def)
  with addr spec show ?thesis by auto
qed

lemma find_inode_correct:
  assumes fs: "fs_ok d" and im: "imap_ok d which_table t"
  shows "\<exists>a h'. find_inode d inum which_table h = run_return (a, h') \<and> balanced h h'
    \<and> (map_option unat a = inode_address d t (unat inum) \<or> a = None \<and> \<not> mem_ok h)"
proof -
  obtain m h1 where m: "find_iag d (INOTOIAG inum) which_table h = run_return (m, h1)"
    "m = iag_address d t (iag_block d (INOTOIAG inum)) \<or> m = None \<and> \<not> mem_ok h"
    using find_iag_correct [OF fs im] by blast
  have small: "unat (INOTOIAG inum) < 2 ^ 20"
    using unat_bound [of inum] by (simp add: unat_INOTOIAG less_mult_imp_div_less)
  have "\<exists>a h'. find_inode d inum which_table h = run_return (a, h')
      \<and> (map_option unat a = inode_address d t (unat inum) \<or> a = None \<and> \<not> mem_ok h)"
  proof (cases m)
    case None
    then have n: "find_inode d inum which_table h = run_return (None, h1)"
      using m(1) by (simp add: find_inode_def Let_def)
    show ?thesis
    proof (cases "mem_ok h")
      case True
      with m(2) None have "xt_find t (unat (iag_block d (INOTOIAG inum))) = None"
        by (simp add: iag_address_def)
      then have "inode_address d t (unat inum) = None"
        by (simp add: inode_address_def unat_iag_block [OF fs small] unat_INOTOIAG)
      with n show ?thesis by auto
    qed (use n in auto)
  next
    case (Some a)
    with m(2) have "iag_address d t (iag_block d (INOTOIAG inum)) = Some a" by simp
    then obtain x where "xt_find t (unat (iag_block d (INOTOIAG inum))) = Some x"
      "a = shl_l2bsize d (addressXAD x + (iag_block d (INOTOIAG inum) - offsetXAD x))"
      by (auto simp: iag_address_def)
    from find_inode_found [OF fs im this m(1) [unfolded Some]] show ?thesis by blast
  qed
  then show ?thesis using find_inode_balanced by blast
qed

text \<open>
  C8: finding an inode. With a sound inode map, \<^verbatim>\<open>find_inode\<close> returns for every inode number, frees what it allocated,
  and gives the address of the inode's record, or reports that there is none exactly when the map has no page for its
  group or the page no extent for it; an allocation that failed is reported as no inode too.
\<close>

theorem find_inode_finds:
  assumes "fs_ok d" and "imap_ok d which_table t"
  shows "\<exists>a h'. find_inode d inum which_table h = run_return (a, h') \<and> balanced h h'
    \<and> (map_option unat a = inode_address d t (unat inum) \<or> a = None \<and> \<not> mem_ok h)"
  using find_inode_correct [OF assms] .

end
