(* ===== verification/Jfs_Fileread.thy ===== *)
theory Jfs_Fileread
  imports Jfs_Imap
begin

text \<open>
  \<^verbatim>\<open>jfs_fileread.c\<close>: the pool of page buffers (\<^verbatim>\<open>bAllocate\<close>, \<^verbatim>\<open>bRead\<close>, \<^verbatim>\<open>bRelease\<close>) and the lookup of a
  file block in the extent tree of an inode (\<^verbatim>\<open>xt_Lookup\<close>), which borrows buffers from the pool. A buffer is a
  number; \<^verbatim>\<open>b_next\<close> and \<^verbatim>\<open>b_data\<close> are maps from buffers. The locale \<open>buffer_pool\<close> is the contract between
  the two.
\<close>

section \<open>The buffer pool\<close>

record bcache =
  bCachelist :: "nat option"
  b_next :: "nat \<Rightarrow> nat option"
  b_data :: "nat \<Rightarrow> bytes"
  nBuffer :: int
  bc_fresh :: nat     \<comment> \<open>buffers \<open>0..<bc_fresh\<close> have been allocated\<close>

definition NBUFFER :: nat where
  "NBUFFER = 8"

definition bRelease :: "nat \<Rightarrow> bcache \<Rightarrow> bcache" where
  "bRelease bp c = c\<lparr>b_next := (b_next c)(bp := bCachelist c), bCachelist := Some bp\<rparr>"

text \<open>The loop of \<^verbatim>\<open>bAllocate\<close> over the \<^verbatim>\<open>i\<close> buffers still to be linked in. Each gets a page of its own; the map
  \<open>b_data\<close> is what the pages hold, for a new page whatever was in that memory.\<close>

fun bAllocate_link :: "nat \<Rightarrow> nat \<Rightarrow> bcache \<Rightarrow> bcache" where
  "bAllocate_link 0 bp c = c"
| "bAllocate_link (Suc i) bp c =
     bAllocate_link i (bp + 1) (c\<lparr>b_next := (b_next c)(bp := bCachelist c), bCachelist := Some bp\<rparr>)"

definition bAllocate :: "bcache \<Rightarrow> heap \<Rightarrow> (bcache \<times> heap) run" where
  "bAllocate c h =
     (let (ok, h) = malloc h
      in if \<not> ok then run_fault (Exit_Called 0)
         else let (ok, h) = malloc h
              in if \<not> ok then run_fault (Exit_Called 0)
                 else let c1 = bAllocate_link NBUFFER (bc_fresh c) c
                      in run_return (c1\<lparr>nBuffer := nBuffer c1 + int NBUFFER,
                                        bc_fresh := bc_fresh c + NBUFFER\<rparr>, h))"

text \<open>The first lines of \<^verbatim>\<open>bRead\<close>: take a buffer off the list, allocating some if there is none.\<close>

definition bTake :: "bcache \<Rightarrow> heap \<Rightarrow> (nat \<times> bcache \<times> heap) run" where
  "bTake c h =
     run_bind (if bCachelist c = None then bAllocate c h else run_return (c, h)) (\<lambda>(c, h).
       case bCachelist c of None \<Rightarrow> run_fault Null_Deref
       | Some bp \<Rightarrow> run_return (bp, c\<lparr>bCachelist := b_next c bp\<rparr>, h))"

definition s_l2b :: "fs \<Rightarrow> nat" where
  "s_l2b d = unat (scast (s_l2bsize (jfs_sb d)) :: u32)"

text \<open>\<^verbatim>\<open>*bpp\<close> changes only when the read succeeds. A length beyond the page would overrun the buffer.\<close>

definition bRead :: "fs \<Rightarrow> u64 \<Rightarrow> u32 \<Rightarrow> nat option \<Rightarrow> bcache \<Rightarrow> heap
    \<Rightarrow> (u32 \<times> nat option \<times> bcache \<times> heap) run" where
  "bRead d xaddr xlen bpp c h =
     run_bind (bTake c h) (\<lambda>(bp, c, h).
       let off = push_bit (s_l2b d) xaddr; len = push_bit (s_l2b d) xlen
       in run_check (unat len \<le> unat PAGESIZE) Out_Of_Bounds
            (run_bind (ujfs_read_diskblocks d off len) (\<lambda>(rc, b).
               let c1 = c\<lparr>b_data := (b_data c)(bp := b @ drop (unat len) (b_data c bp))\<rparr>
               in if rc = 0 then run_return (rc, Some bp, c1, h)
                  else run_return (rc, bpp, bRelease bp c1, h))))"

section \<open>Looking a block up\<close>

text \<open>\<open>MIN\<close> compares the \<^verbatim>\<open>int32_t\<close> left side as unsigned, its right side being \<^verbatim>\<open>uint32_t\<close>.\<close>

definition min_u32 :: "u32 \<Rightarrow> u32 \<Rightarrow> u32" where
  "min_u32 a b = (if a < b then a else b)"

record xt_result =
  xr_rc :: int
  xr_xaddr :: "u64 option"   \<comment> \<open>\<open>None\<close>: the caller's variable was not set\<close>
  xr_xlen :: u32

type_synonym xt_loop = "bytes \<times> nat option \<times> int \<times> bcache \<times> heap"

text \<open>The label \<^verbatim>\<open>out\<close>.\<close>

definition xt_out :: "int \<Rightarrow> u64 option \<Rightarrow> u32 \<Rightarrow> nat option \<Rightarrow> bcache \<Rightarrow> heap \<Rightarrow> xt_result \<times> bcache \<times> heap" where
  "xt_out rc xaddr xlen bp c h =
     (\<lparr>xr_rc = rc, xr_xaddr = xaddr, xr_xlen = xlen\<rparr>,
      (case bp of None \<Rightarrow> c | Some b \<Rightarrow> bRelease b c), h)"

text \<open>The label \<^verbatim>\<open>descend\<close>: the result code of \<^verbatim>\<open>bRead\<close> is not looked at.\<close>

definition xt_descend :: "fs \<Rightarrow> int \<Rightarrow> int \<Rightarrow> bytes \<Rightarrow> nat option \<Rightarrow> bcache \<Rightarrow> heap
    \<Rightarrow> (xt_loop + xt_result \<times> bcache \<times> heap) run" where
  "xt_descend d index cmp p bp c h =
     run_bind (run_lift (xad_at p index)) (\<lambda>x.
       let t64 = addressXAD x;
           c = (case bp of None \<Rightarrow> c | Some b \<Rightarrow> bRelease b c)
       in run_bind (bRead d t64 (drop_bit (s_l2b d) PAGESIZE) bp c h) (\<lambda>(rc, bp, c, h).
            case bp of None \<Rightarrow> run_fault Null_Deref
            | Some b \<Rightarrow> run_return (Inl (b_data c b, bp, cmp, c, h))))"

text \<open>One round from the label \<^verbatim>\<open>xtSearchPage\<close>.\<close>

definition xt_Lookup_page :: "fs \<Rightarrow> u64 \<Rightarrow> u64 option \<Rightarrow> u32 \<Rightarrow> xt_loop
    \<Rightarrow> (xt_loop + xt_result \<times> bcache \<times> heap) run" where
  "xt_Lookup_page d xoff xaddr xlen = (\<lambda>(p, bp, cmp, c, h).
     run_bind (xt_search (page_cmp p xoff) XTENTRYSTART (xt_nentries p) cmp) (\<lambda>r.
       case r of
         Hit index \<Rightarrow>
           if xth_flag (xtheader_of p) AND BT_LEAF \<noteq> 0
           then run_bind (run_lift (xad_at p index)) (\<lambda>x.
             let t32 = ucast (xoff - offsetXAD x) :: u32
             in run_return (Inr (xt_out 0 (Some (addressXAD x + scast t32))
                                   (min_u32 xlen (lengthXAD x - t32)) bp c h)))
           else xt_descend d index 0 p bp c h
       | Miss base m \<Rightarrow>
           if xth_flag (xtheader_of p) AND BT_LEAF \<noteq> 0
           then run_return (Inr (xt_out m xaddr xlen bp c h))
           else xt_descend d (if base \<noteq> 0 then base - 1 else base) m p bp c h))"

definition xt_Lookup :: "fs \<Rightarrow> dinode_t \<Rightarrow> u64 \<Rightarrow> u64 option \<Rightarrow> u32 \<Rightarrow> bcache \<Rightarrow> heap
    \<Rightarrow> (xt_result \<times> bcache \<times> heap) run" where
  "xt_Lookup d dip xoff xaddr xlen c h =
     run_loop (xt_Lookup_page d xoff xaddr xlen) (di_btroot dip, None, 1, c, h)"

text \<open>\<^verbatim>\<open>get_file\<close>: eleven bytes are read into a block of ten.\<close>

definition get_file :: "fs \<Rightarrow> u32 \<Rightarrow> bcache \<Rightarrow> heap \<Rightarrow> (bcache \<times> heap) run" where
  "get_file d inum c h =
     (let (ok, h) = malloc h
      in run_bind (find_inode d inum FILESYSTEM_I h) (\<lambda>(a, h).
           case a of None \<Rightarrow> run_return (c, h)
           | Some address \<Rightarrow>
               run_bind (xRead d address sizeof_dinode h) (\<lambda>(b, h).
                 case b of None \<Rightarrow> run_return (c, h)
                 | Some inode \<Rightarrow>
                     run_bind (xt_Lookup d (dinode_of inode) 0 None 5 c h) (\<lambda>(r, c, h).
                       case xr_xaddr r of None \<Rightarrow> run_fault Uninit_Read
                       | Some xaddr \<Rightarrow>
                           run_check ok Null_Deref
                             (run_bind (ujfs_read_diskblocks d (xaddr * 4096) 11) (\<lambda>(rc, b).
                                run_check (length b \<le> 10) Out_Of_Bounds (run_return (c, free_block h))))))))"

section \<open>The pool never loses a buffer\<close>

definition pool :: "bcache \<Rightarrow> nat list \<Rightarrow> bool" where
  "pool c xs \<longleftrightarrow> chain (b_next c) (bCachelist c) xs \<and> distinct xs
     \<and> nBuffer c = int (bc_fresh c) \<and> (\<forall>b. length (b_data c b) = 4096)"

text \<open>Every buffer is on the list; every buffer but one is.\<close>

definition idle :: "bcache \<Rightarrow> bool" where
  "idle c \<longleftrightarrow> (\<exists>xs. pool c xs \<and> set xs = {0..<bc_fresh c})"

definition lent :: "bcache \<Rightarrow> nat \<Rightarrow> bool" where
  "lent c b \<longleftrightarrow> (\<exists>xs. pool c xs \<and> b \<notin> set xs \<and> insert b (set xs) = {0..<bc_fresh c})"

locale buffer_pool =
  fixes is_idle :: "'c \<Rightarrow> bool" and is_lent :: "'c \<Rightarrow> nat \<Rightarrow> bool"
    and take_buf :: "'c \<Rightarrow> heap \<Rightarrow> (nat \<times> 'c \<times> heap) run" and put_buf :: "nat \<Rightarrow> 'c \<Rightarrow> 'c"
  assumes take_lends: "is_idle c \<Longrightarrow> take_buf c h = run_return (b, c', h') \<Longrightarrow> is_lent c' b"
    and take_returns: "is_idle c \<Longrightarrow> mem_ok h \<Longrightarrow> \<exists>b c' h'. take_buf c h = run_return (b, c', h') \<and> mem_ok h'"
    and put_idles: "is_lent c b \<Longrightarrow> is_idle (put_buf b c)"
begin

text \<open>Giving a buffer back and taking one again, as a descent does.\<close>

lemma swap:
  "is_lent c b \<Longrightarrow> take_buf (put_buf b c) h = run_return (b', c', h') \<Longrightarrow> is_lent c' b'"
  by (blast intro: take_lends put_idles)

lemma put_opt_idles:
  "(case bp of None \<Rightarrow> is_idle c | Some b \<Rightarrow> is_lent c b) \<Longrightarrow>
     is_idle (case bp of None \<Rightarrow> c | Some b \<Rightarrow> put_buf b c)"
  by (cases bp) (auto intro: put_idles)

end

lemma bAllocate_link_chain:
  "chain (b_next c) (bCachelist c) xs \<Longrightarrow> (\<forall>a \<in> set xs. a < k) \<Longrightarrow>
     chain (b_next (bAllocate_link n k c)) (bCachelist (bAllocate_link n k c)) (rev [k..<k + n] @ xs)"
proof (induction n arbitrary: k c xs)
  case (Suc n)
  have "chain (b_next (bAllocate_link n (k + 1) (bRelease k c))) (bCachelist (bAllocate_link n (k + 1) (bRelease k c)))
      (rev [k + 1..<k + 1 + n] @ k # xs)"
  proof (rule Suc.IH)
    have "k \<notin> set xs" using Suc.prems(2) by auto
    with Suc.prems(1) show "chain (b_next (bRelease k c)) (bCachelist (bRelease k c)) (k # xs)"
      by (simp add: bRelease_def)
  qed (use Suc.prems(2) in auto)
  moreover have "rev [k..<k + Suc n] @ xs = rev [k + 1..<k + 1 + n] @ k # xs"
    by (simp add: upt_conv_Cons del: upt_Suc)
  ultimately show ?case by (simp add: bRelease_def)
qed simp

lemma bAllocate_link_frame [simp]:
  "nBuffer (bAllocate_link n k c) = nBuffer c" "bc_fresh (bAllocate_link n k c) = bc_fresh c"
  "b_data (bAllocate_link n k c) = b_data c"
  by (induction n arbitrary: k c) auto

lemma bAllocate_idle:
  assumes idle: "idle c" and empty: "bCachelist c = None" and ret: "bAllocate c h = run_return (c', h')"
  shows "idle c' \<and> bCachelist c' \<noteq> None"
proof -
  from idle empty have p: "pool c []" "bc_fresh c = 0" by (auto simp: idle_def pool_def)
  define c1 where "c1 = bAllocate_link NBUFFER 0 c"
  have "chain (b_next c1) (bCachelist c1) (rev [0..<0 + NBUFFER] @ [])"
    unfolding c1_def using p by (intro bAllocate_link_chain) (auto simp: pool_def)
  then have ch: "chain (b_next c1) (bCachelist c1) (rev [0..<NBUFFER])" by simp
  have c': "c' = c1\<lparr>nBuffer := nBuffer c1 + int NBUFFER, bc_fresh := NBUFFER\<rparr>"
    using ret p(2) by (auto simp: bAllocate_def Let_def c1_def split: prod.splits if_splits)
  have "pool c' (rev [0..<NBUFFER])"
    using ch p by (simp add: c' pool_def c1_def)
  moreover have "bCachelist c' \<noteq> None" using ch by (cases "bCachelist c1") (simp_all add: c' NBUFFER_def)
  ultimately show ?thesis by (auto simp: idle_def c')
qed

lemma bTake_lends:
  assumes "idle c" and "bTake c h = run_return (b, c', h')"
  shows "lent c' b"
proof -
  obtain c1 where c1: "idle c1" "bCachelist c1 = Some b" "c' = c1\<lparr>bCachelist := b_next c1 b\<rparr>"
    using assms bAllocate_idle [of c h]
    by (auto simp: bTake_def run_iff split: if_splits option.splits)
  then obtain xs where "pool c1 xs" "set xs = {0..<bc_fresh c1}" by (auto simp: idle_def)
  with c1(2) obtain ys where "xs = b # ys" "chain (b_next c1) (b_next c1 b) ys" "distinct (b # ys)"
    by (auto simp: pool_def chain_Some)
  with \<open>pool c1 xs\<close> \<open>set xs = _\<close> show ?thesis
    by (auto simp: c1(3) lent_def pool_def intro!: exI [of _ ys])
qed

lemma bAllocate_mem_ok: "mem_ok h \<Longrightarrow> \<exists>c' h'. bAllocate c h = run_return (c', h') \<and> mem_ok h'"
  by (auto simp: bAllocate_def Let_def split_beta)

lemma bTake_returns:
  assumes "idle c" and "mem_ok h"
  shows "\<exists>b c' h'. bTake c h = run_return (b, c', h') \<and> mem_ok h'"
proof (cases "bCachelist c")
  case None
  obtain c1 h1 where c1: "bAllocate c h = run_return (c1, h1)" "mem_ok h1"
    using bAllocate_mem_ok [OF assms(2)] by blast
  with bAllocate_idle [OF assms(1) None c1(1)] None show ?thesis by (auto simp: bTake_def)
qed (use assms(2) in \<open>auto simp: bTake_def\<close>)

lemma bRelease_idles: "lent c b \<Longrightarrow> idle (bRelease b c)"
proof -
  assume "lent c b"
  then obtain xs where xs: "pool c xs" "b \<notin> set xs" "insert b (set xs) = {0..<bc_fresh c}"
    by (auto simp: lent_def)
  then have "pool (bRelease b c) (b # xs)" by (simp add: pool_def bRelease_def)
  with xs(3) show ?thesis by (auto simp: idle_def bRelease_def)
qed

interpretation bpool: buffer_pool idle lent bTake bRelease
  by unfold_locales (auto intro: bTake_lends bTake_returns bRelease_idles)

lemma lent_data: "lent c b \<Longrightarrow> length v = 4096 \<Longrightarrow> lent (c\<lparr>b_data := (b_data c)(a := v)\<rparr>) b"
  by (auto simp: lent_def pool_def)

lemma lent_pages: "lent c b \<Longrightarrow> length (b_data c a) = 4096"
  by (auto simp: lent_def pool_def)

text \<open>Reading a page of the tree: the buffer handed out holds it.\<close>

lemma s_l2b_ok: "fs_ok d \<Longrightarrow> s_l2b d = l2b d"
  using l2bsize_ok [of d] by (simp add: s_l2b_def l2bsize_def)

lemma page_blocks:
  assumes "fs_ok d"
  shows "push_bit (s_l2b d) (drop_bit (s_l2b d) PAGESIZE) = 4096"
proof -
  have "9 \<le> s_l2b d" "s_l2b d \<le> 12" using assms by (simp_all add: s_l2b_ok fs_ok_def sb_ok_def)
  then consider "s_l2b d = 9" | "s_l2b d = 10" | "s_l2b d = 11" | "s_l2b d = 12" by linarith
  then show ?thesis by cases (simp_all add: PAGESIZE_def push_bit_eq_mult drop_bit_eq_div)
qed

lemma bRead_page:
  assumes fs: "fs_ok d" and c: "idle c" and h: "mem_ok h"
    and x: "xa x * 2 ^ l2b d + 4096 \<le> dk_size d"
  shows "\<exists>b c' h'. bRead d (addressXAD x) (drop_bit (s_l2b d) PAGESIZE) bpp c h = run_return (0, Some b, c', h')
    \<and> lent c' b \<and> b_data c' b = disk_slice d (xa x * 2 ^ l2b d) 4096 \<and> mem_ok h'"
proof -
  obtain b c1 h' where t: "bTake c h = run_return (b, c1, h')" "mem_ok h'"
    using bpool.take_returns [OF c h] by blast
  have l: "lent c1 b" using bpool.take_lends [OF c t(1)] .
  define page where "page = disk_slice d (xa x * 2 ^ l2b d) 4096"
  have off: "unat (push_bit (s_l2b d) (addressXAD x)) = xa x * 2 ^ l2b d"
    using unat_shl_l2bsize [OF fs, of "addressXAD x"] xaddr.fetch_bound [of x]
    by (simp add: shl_l2bsize_def l2bsize_def s_l2b_def)
  have ps: "unat PAGESIZE = 4096" by (simp add: PAGESIZE_def)
  have "bRead d (addressXAD x) (drop_bit (s_l2b d) PAGESIZE) bpp c h =
      run_return (0, Some b, c1\<lparr>b_data := (b_data c1)(b := page)\<rparr>, h')"
    using x lent_pages [OF l, of b] ps
    by (simp add: bRead_def t(1) Let_def page_blocks [OF fs] ujfs_read_diskblocks_def off page_def)
  with l t(2) show ?thesis by (auto simp: lent_data page_def)
qed

section \<open>The lookup finds the extent\<close>

definition xt_answer :: "xtree \<Rightarrow> u64 \<Rightarrow> u64 option \<Rightarrow> u32 \<Rightarrow> xt_result \<Rightarrow> bool" where
  "xt_answer t xoff xaddr xlen r \<longleftrightarrow>
     (case xt_find t (unat xoff) of
        Some x \<Rightarrow> xr_rc r = 0
          \<and> map_option unat (xr_xaddr r) = Some (xa x + (unat xoff - xo x))
          \<and> unat (xr_xlen r) = min (unat xlen) (xl x - (unat xoff - xo x))
      | None \<Rightarrow> xr_rc r \<noteq> 0 \<and> xr_xaddr r = xaddr \<and> xr_xlen r = xlen)"

text \<open>No leaf of the tree is empty.\<close>

fun xt_nonempty :: "xtree \<Rightarrow> bool" where
  "xt_nonempty (XLeaf xs) \<longleftrightarrow> xs \<noteq> []"
| "xt_nonempty (XNode kids) \<longleftrightarrow> list_all (\<lambda>(x, t). xt_nonempty t) kids"

lemma hit_words:
  assumes cov: "covers x (unat xoff)"
  shows "unat (addressXAD x + scast (ucast (xoff - offsetXAD x) :: u32)) = xa x + (unat xoff - xo x)"
    and "unat (min_u32 xlen (lengthXAD x - ucast (xoff - offsetXAD x))) = min (unat xlen) (xl x - (unat xoff - xo x))"
proof -
  have u: "unat (xoff - offsetXAD x) = unat xoff - xo x"
    using cov by (simp add: covers_def unat_sub word_le_nat_alt)
  have small: "unat xoff - xo x < xl x" "xl x < 2 ^ 24" using cov lengthXAD_bound [of x] by (auto simp: covers_def)
  define t32 where "t32 = (ucast (xoff - offsetXAD x) :: u32)"
  have t32: "unat t32 = unat xoff - xo x"
    using u small by (simp add: t32_def unsigned_ucast_eq take_bit_nat_eq_self)
  then have "take_bit 24 t32 = t32" using small by (intro take_bit_word_small) simp
  then have low: "n < 24" if "bit t32 n" for n using that by (metis bit_take_bit_iff)
  have "(scast t32 :: u64) = ucast t32"
    by (rule bit_word_eqI) (auto simp: bit_simps min_def dest: low)
  then have "unat (scast t32 :: u64) = unat xoff - xo x" by (simp add: unat_ucast_up t32)
  then show "unat (addressXAD x + scast (ucast (xoff - offsetXAD x) :: u32)) = xa x + (unat xoff - xo x)"
    using small xaddr.fetch_bound [of x] by (simp add: unat_word_ariths t32_def [symmetric])
  have "unat (lengthXAD x - t32) = xl x - (unat xoff - xo x)"
    using small by (simp add: unat_sub word_le_nat_alt t32)
  then show "unat (min_u32 xlen (lengthXAD x - ucast (xoff - offsetXAD x))) = min (unat xlen) (xl x - (unat xoff - xo x))"
    by (auto simp: min_u32_def t32_def [symmetric] word_less_nat_alt)
qed

abbreviation holds :: "nat option \<Rightarrow> bcache \<Rightarrow> bool" where
  "holds bp c \<equiv> (case bp of None \<Rightarrow> idle c | Some b \<Rightarrow> lent c b)"

lemma xt_Lookup_leaf:
  assumes K: "unat xoff < 2 ^ 63" and repr: "xt_repr d p (XLeaf xs)" and asc: "ascending xs"
    and ne: "xs \<noteq> [] \<or> cmp \<noteq> 0" and hold: "holds bp c"
  shows "\<exists>r c'. xt_Lookup_page d xoff xaddr xlen (p, bp, cmp, c, h) = run_return (Inr (r, c', h))
    \<and> xt_answer (XLeaf xs) xoff xaddr xlen r \<and> idle c'"
proof -
  have ok: "page_ok p" "page_xads p = xs" using repr by simp_all
  note out = bpool.put_opt_idles [OF hold]
  from ok(1) K show ?thesis
  proof (cases rule: page_search [where ?c0.0 = cmp])
    case (hit i)
    then have "xt_find (XLeaf xs) (unat xoff) = Some (xs ! i)"
      using ok asc by (simp add: xt_find_def find_covers)
    with hit ok repr out show ?thesis
      by (auto simp: xt_Lookup_page_def xad_at_nth xt_answer_def xt_out_def Let_def hit_words)
  next
    case (miss b m)
    have "xt_find (XLeaf xs) (unat xoff) = None"
      using miss(3,4) ok(2) by (intro leaf_miss [of b]) auto
    with miss ok repr out ne show ?thesis
      by (auto simp: xt_Lookup_page_def xt_answer_def xt_out_def)
  qed
qed

lemma xt_Lookup_node:
  assumes fs: "fs_ok d" and K: "unat xoff < 2 ^ 63" and repr: "xt_repr d p (XNode kids)"
    and wf: "xt_wf lo hi (XNode kids)" and lo: "lo \<le> unat xoff" and hold: "holds bp c" and h: "mem_ok h"
  shows "\<exists>i b m c' h'. i < length kids \<and> xt_find (XNode kids) (unat xoff) = xt_find (snd (kids ! i)) (unat xoff)
    \<and> xo (fst (kids ! i)) \<le> unat xoff
    \<and> xt_Lookup_page d xoff xaddr xlen (p, bp, cmp, c, h) =
        run_return (Inl (disk_slice d (xa (fst (kids ! i)) * 2 ^ l2b d) 4096, Some b, m, c', h'))
    \<and> lent c' b \<and> mem_ok h'"
proof -
  have ok: "page_ok p" "page_xads p = map fst kids" "kids \<noteq> []" using repr wf by simp_all
  have "page_xads p \<noteq> []" "xo (hd (page_xads p)) \<le> unat xoff" using wf lo ok by (simp_all add: hd_map)
  then obtain r i where r': "xt_search (page_cmp p xoff) XTENTRYSTART (xt_nentries p) cmp = run_return r"
    "child_index r = int i + 2" "i < length (page_xads p)" "xo (page_xads p ! i) \<le> unat xoff"
    "Suc i < length (page_xads p) \<Longrightarrow> unat xoff < xo (page_xads p ! Suc i)"
    by (rule node_search [OF ok(1) K]) blast
  then have r: "i < length kids" "xo (fst (kids ! i)) \<le> unat xoff"
    "Suc i < length kids \<Longrightarrow> unat xoff < xo (fst (kids ! Suc i))"
    by (simp_all add: ok(2))
  have find: "xt_find (XNode kids) (unat xoff) = xt_find (snd (kids ! i)) (unat xoff)"
    using wf r by (intro find_child) auto
  define x where "x = fst (kids ! i)"
  have x: "xad_at p (child_index r) = Inr x" using ok r(1) r'(2) by (simp add: xad_at_nth x_def)
  have mapped: "xa x * 2 ^ l2b d + 4096 \<le> dk_size d"
    using repr r(1) by (auto simp: list_all_length x_def split_beta)
  define c1 where "c1 = (case bp of None \<Rightarrow> c | Some b \<Rightarrow> bRelease b c)"
  have "idle c1" unfolding c1_def by (rule bpool.put_opt_idles [OF hold])
  from bRead_page [OF fs this h mapped, of bp] obtain b c' h' where
    b: "bRead d (addressXAD x) (drop_bit (s_l2b d) PAGESIZE) bp c1 h = run_return (0, Some b, c', h')"
    "lent c' b" "b_data c' b = disk_slice d (xa x * 2 ^ l2b d) 4096" "mem_ok h'" by blast
  have "xt_descend d (child_index r) m p bp c h =
      run_return (Inl (disk_slice d (xa x * 2 ^ l2b d) 4096, Some b, m, c', h'))" for m
    using x b by (simp add: xt_descend_def Let_def c1_def [symmetric])
  moreover have "\<exists>m. xt_Lookup_page d xoff xaddr xlen (p, bp, cmp, c, h) = xt_descend d (child_index r) m p bp c h"
    using r'(1) repr by (cases r) (auto simp: xt_Lookup_page_def child_index_def)
  ultimately obtain m where "xt_Lookup_page d xoff xaddr xlen (p, bp, cmp, c, h) =
      run_return (Inl (disk_slice d (xa x * 2 ^ l2b d) 4096, Some b, m, c', h'))" by auto
  with r(1,2) find b(2,4) show ?thesis unfolding x_def by blast
qed

lemma xt_Lookup_descend_correct:
  assumes fs: "fs_ok d" and K: "unat xoff < 2 ^ 63"
  shows "xt_repr d p t \<Longrightarrow> xt_wf lo hi t \<Longrightarrow> lo \<le> unat xoff \<Longrightarrow>
    xt_nonempty t \<or> (\<exists>xs. t = XLeaf xs) \<and> cmp \<noteq> 0 \<Longrightarrow> holds bp c \<Longrightarrow> mem_ok h \<Longrightarrow>
    \<exists>r c' h'. run_loop (xt_Lookup_page d xoff xaddr xlen) (p, bp, cmp, c, h) = run_return (r, c', h')
      \<and> xt_answer t xoff xaddr xlen r \<and> idle c' \<and> mem_ok h'"
proof (induction t arbitrary: p lo hi bp cmp c h)
  case (XLeaf xs)
  then have "ascending xs" "xs \<noteq> [] \<or> cmp \<noteq> 0" by auto
  from xt_Lookup_leaf [OF K XLeaf.prems(1) this XLeaf.prems(5)]
  obtain r c' where "xt_Lookup_page d xoff xaddr xlen (p, bp, cmp, c, h) = run_return (Inr (r, c', h))"
    "xt_answer (XLeaf xs) xoff xaddr xlen r" "idle c'" by blast
  with XLeaf.prems(6) show ?case by (auto simp: run_loop_done)
next
  case (XNode kids)
  obtain i b m c' h' where i: "i < length kids"
      "xt_find (XNode kids) (unat xoff) = xt_find (snd (kids ! i)) (unat xoff)" "xo (fst (kids ! i)) \<le> unat xoff"
    and step: "xt_Lookup_page d xoff xaddr xlen (p, bp, cmp, c, h) =
        run_return (Inl (disk_slice d (xa (fst (kids ! i)) * 2 ^ l2b d) 4096, Some b, m, c', h'))"
    and l: "lent c' b" "mem_ok h'"
    using xt_Lookup_node [OF fs K XNode.prems(1,2,3,5,6)] by blast
  let ?t = "snd (kids ! i)"
  have "\<exists>r c'' h''. run_loop (xt_Lookup_page d xoff xaddr xlen)
      (disk_slice d (xa (fst (kids ! i)) * 2 ^ l2b d) 4096, Some b, m, c', h') = run_return (r, c'', h'')
      \<and> xt_answer ?t xoff xaddr xlen r \<and> idle c'' \<and> mem_ok h''"
  proof (rule XNode.IH [OF nth_mem [OF i(1)]])
    show "?t \<in> Basic_BNFs.snds (kids ! i)" by (simp add: snds.intros)
    show "xt_repr d (disk_slice d (xa (fst (kids ! i)) * 2 ^ l2b d) 4096) ?t"
      using XNode.prems(1) i(1) by (auto simp: list_all_length split_beta)
    show "xt_wf (xo (fst (kids ! i))) (if Suc i < length kids then xo (fst (kids ! Suc i)) else hi) ?t"
      using XNode.prems(2) i(1) by (intro kids_wf_bounds) auto
    show "xt_nonempty ?t \<or> (\<exists>xs. ?t = XLeaf xs) \<and> m \<noteq> 0"
      using XNode.prems(4) i(1) by (auto simp: list_all_length split_beta)
  qed (use i(3) l in simp_all)
  then show ?case
    using i(2) by (simp add: run_loop_next [of "xt_Lookup_page d xoff xaddr xlen", OF step] xt_answer_def)
qed

lemma xt_Lookup_finds:
  assumes "fs_ok d" and "unat xoff < 2 ^ 63"
    and "xt_repr d (di_btroot dip) t" and "xt_wf 0 hi t" and "xt_nonempty t \<or> (\<exists>xs. t = XLeaf xs)"
    and "idle c" and "mem_ok h"
  shows "\<exists>r c' h'. xt_Lookup d dip xoff xaddr xlen c h = run_return (r, c', h')
    \<and> xt_answer t xoff xaddr xlen r \<and> idle c' \<and> mem_ok h'"
  unfolding xt_Lookup_def
  using xt_Lookup_descend_correct [where cmp = 1 and bp = None, OF assms(1-4)] assms(5-7) by auto

text \<open>
  C9: block lookup. On an inode whose tree is well formed, \<^verbatim>\<open>xt_Lookup\<close> returns; it returns 0 exactly when an
  extent covers the block, then with the disk block of \<open>xoff\<close> and the length left in the extent, cut to the
  length asked for; otherwise it returns a nonzero code and leaves the caller's variables alone. In every
  case all page buffers are back on the free list.
\<close>

theorem xt_Lookup_correct:
  assumes "fs_ok d" and "unat xoff < 2 ^ 63"
    and "xt_repr d (di_btroot dip) t" and "xt_wf 0 hi t" and "xt_nonempty t \<or> (\<exists>xs. t = XLeaf xs)"
    and "idle c" and "mem_ok h"
  shows "\<exists>r c' h'. xt_Lookup d dip xoff xaddr xlen c h = run_return (r, c', h')
    \<and> xt_answer t xoff xaddr xlen r \<and> idle c' \<and> mem_ok h'"
  using xt_Lookup_finds [OF assms] .

text \<open>
  The result code of a leaf with no entries is the comparison left over from the page before. When the
  parent page was left by a hit this is 0, so the lookup reports success and the caller's address is never
  set.
\<close>

lemma xt_Lookup_empty_leaf:
  assumes "page_ok p" and "page_xads p = []" and "xth_flag (xtheader_of p) AND BT_LEAF \<noteq> 0"
  shows "xt_Lookup_page d xoff None xlen (p, bp, 0, c, h) =
    run_return (Inr (\<lparr>xr_rc = 0, xr_xaddr = None, xr_xlen = xlen\<rparr>,
      (case bp of None \<Rightarrow> c | Some b \<Rightarrow> bRelease b c), h))"
proof -
  have "nat (xt_nentries p) = 0" using assms(2) by (metis length_0_conv length_page_xads)
  then have "xt_nentries p = 0" using assms(1) by (simp add: page_ok_def)
  then have "xt_search (page_cmp p xoff) XTENTRYSTART (xt_nentries p) 0 = run_return (Miss XTENTRYSTART 0)"
    by (subst xt_search.simps) simp
  with assms(3) show ?thesis by (simp add: xt_Lookup_page_def xt_out_def)
qed

text \<open>
  C39: \<^verbatim>\<open>get_file\<close> returns only when the inode cannot be read, and then the block it allocated at the start is
  leaked; otherwise the read of eleven bytes overruns that block of ten.
\<close>

lemma get_file_returns:
  assumes "get_file d inum c h = run_return (c', h')"
  shows "c' = c \<and> mh_live h' = mh_live h + (if mh_answers h 0 then 1 else 0)"
proof -
  obtain ok h0 where m: "malloc h = (ok, h0)" by (cases "malloc h")
  then have live: "mh_live h0 = mh_live h + (if mh_answers h 0 then 1 else 0)"
    by (auto simp: malloc_def)
  obtain a h1 where a: "find_inode d inum FILESYSTEM_I h0 = run_return (a, h1)"
    using assms by (auto simp: get_file_def m run_bind_return_iff)
  note b1 = find_inode_balanced [OF a]
  have "c' = c \<and> balanced h0 h'"
  proof (cases a)
    case None
    with assms a b1 show ?thesis by (simp add: get_file_def m)
  next
    case (Some address)
    with assms a obtain b h2 where b: "xRead d address sizeof_dinode h1 = run_return (b, h2)"
      by (auto simp: get_file_def m run_bind_return_iff)
    note b2 = balanced_trans [OF b1 xRead_balanced [OF b]]
    have "b = None"
      using assms a b Some
      by (auto simp: get_file_def m run_iff ujfs_read_diskblocks_def split: option.splits)
    with assms a b Some b2 show ?thesis by (simp add: get_file_def m)
  qed
  with live show ?thesis by (simp add: balanced_def)
qed

text \<open>
  C24: the pool of page buffers. From a pool with every buffer on the free list and memory at hand, taking a buffer
  returns; the buffer is then off the list and every other buffer still on it, and giving it back makes the list
  complete again.
\<close>

theorem buffer_take_release:
  assumes "idle c" and "mem_ok h"
  shows "\<exists>b c' h'. bTake c h = run_return (b, c', h') \<and> mem_ok h' \<and> lent c' b \<and> idle (bRelease b c')"
  using bpool.take_returns [OF assms] bpool.take_lends [OF assms(1)] bpool.put_idles by blast

text \<open>
  C35: an entry count below the first entry. When \<^verbatim>\<open>nextindex\<close> of the root page is 0 or 1, the control variable of the
  binary search starts negative, and unless the bytes of the header happen to cover the block the search never
  ends.
\<close>

theorem xt_Lookup_negative:
  assumes "xt_nentries (di_btroot dip) = -1 \<or> xt_nentries (di_btroot dip) = -2"
    and "xad_at (di_btroot dip) 1 = Inr x" and "XT_CMP xoff x \<noteq> 0"
  shows "xt_Lookup d dip xoff xaddr xlen c h = None"
proof -
  have "xt_search (page_cmp (di_btroot dip) xoff) 2 (xt_nentries (di_btroot dip)) 1 = None"
    using assms by (intro xt_search_negative [where c = "XT_CMP xoff x"]) (simp_all add: page_cmp_def)
  then have "xt_Lookup_page d xoff xaddr xlen (di_btroot dip, None, 1, c, h) = None"
    by (simp add: xt_Lookup_page_def XTENTRYSTART_def)
  then show ?thesis by (simp add: xt_Lookup_def run_loop.simps [of "xt_Lookup_page d xoff xaddr xlen"])
qed

end
