(* ===== verification/Jfs_Nodes.thy ===== *)
theory Jfs_Nodes
  imports Jfs_Imap
begin

text \<open>
  The cache of nodes in \<^verbatim>\<open>dir.c\<close>: the table \<^verbatim>\<open>nodehash\<close>, whose buckets are doubly linked lists with a pointer
  back to the pointer that leads to a node (\<^verbatim>\<open>inode_init\<close>, \<^verbatim>\<open>diskfs_cached_lookup\<close>, \<^verbatim>\<open>diskfs_node_norefs\<close>), and the
  filling of a node from its inode (\<^verbatim>\<open>read_node\<close>). Nodes live in a store of addressed objects; the locks are
  flags, and waiting for a lock that is already held does not end.

  What the code takes from the system is a parameter: the result of \<^verbatim>\<open>diskfs_catch_exception\<close>, \<^verbatim>\<open>getpid\<close>, the page
  size, and \<^verbatim>\<open>diskfs_make_node\<close>, which allocates a node or fails.
\<close>

section \<open>Nodes\<close>

definition INOHSZ :: nat where "INOHSZ = 512"

definition INOHASH :: "u64 \<Rightarrow> nat" where
  "INOHASH ino = unat (ino AND (512 - 1))"

text \<open>\<^verbatim>\<open>hprevp\<close> holds the address of a table entry or of the field \<^verbatim>\<open>hnext\<close> of another node.\<close>

datatype nextref = Bucket nat | Hnext nat

record disknode =
  fileinfo :: "nat option"
  hnext :: "nat option"
  hprevp :: nextref

record stat =
  st_fstype :: u32
  st_fsid :: u32
  st_ino :: u64
  st_gen :: u32
  st_rdev :: u32
  st_mode :: u32
  st_nlink :: u32
  st_uid :: u32
  st_gid :: u32
  st_author :: u32
  st_size :: u64
  st_atim :: timestruc_t
  st_mtim :: timestruc_t
  st_ctim :: timestruc_t
  st_blksize :: u32
  st_blocks :: int
  st_flags :: u32

record node =
  cache_id :: u64
  references :: int
  node_lock :: bool
  dn_stat :: stat
  author_tracks_uid :: bool
  dn :: disknode

text \<open>The globals: the table, the nodes, the spin lock \<^verbatim>\<open>diskfs_node_refcnt_lock\<close>, and the allocator. An address
  is not given out twice.\<close>

record nodes =
  nodehash :: "nat \<Rightarrow> nat option"
  node_at :: "nat \<Rightarrow> node option"
  node_fresh :: nat
  refcnt_lock :: bool
  mem :: heap

record sys =
  catch_exception :: int
  getpid :: u32
  vm_page_size :: u32
  log2_blocks_per_page :: int
  make_node :: "heap \<Rightarrow> node option \<times> heap"

definition hurd_errno :: "int \<Rightarrow> int" where "hurd_errno n = 0x40000000 + n"
definition ENOENT :: int where "ENOENT = hurd_errno 2"
definition EIO :: int where "EIO = hurd_errno 5"
definition ENOMEM :: int where "ENOMEM = hurd_errno 12"
definition EROFS :: int where "EROFS = hurd_errno 30"
definition EAGAIN :: int where "EAGAIN = hurd_errno 35"
definition EOPNOTSUPP :: int where "EOPNOTSUPP = hurd_errno 45"

section \<open>Access to nodes and locks\<close>

definition with_node :: "nat \<Rightarrow> (node \<Rightarrow> 'a run) \<Rightarrow> nodes \<Rightarrow> 'a run" where
  "with_node a k w = (case node_at w a of None \<Rightarrow> run_fault Use_After_Free | Some n \<Rightarrow> k n)"

definition upd_node :: "nat \<Rightarrow> (node \<Rightarrow> node) \<Rightarrow> nodes \<Rightarrow> nodes" where
  "upd_node a f w = w\<lparr>node_at := (node_at w)(a := map_option f (node_at w a))\<rparr>"

definition spin_lock :: "nodes \<Rightarrow> nodes run" where
  "spin_lock w = (if refcnt_lock w then None else run_return (w\<lparr>refcnt_lock := True\<rparr>))"

definition spin_unlock :: "nodes \<Rightarrow> nodes" where
  "spin_unlock w = w\<lparr>refcnt_lock := False\<rparr>"

definition mutex_lock :: "nat \<Rightarrow> nodes \<Rightarrow> nodes run" where
  "mutex_lock a w = with_node a (\<lambda>n. if node_lock n then None
     else run_return (upd_node a (node_lock_update (\<lambda>_. True)) w)) w"

definition mutex_unlock :: "nat \<Rightarrow> nodes \<Rightarrow> nodes run" where
  "mutex_unlock a w = with_node a (\<lambda>n. run_return (upd_node a (node_lock_update (\<lambda>_. False)) w)) w"

section \<open>The table\<close>

fun inode_init :: "nat \<Rightarrow> nodes \<Rightarrow> nodes" where
  "inode_init 0 w = w"
| "inode_init (Suc n) w = (inode_init n w)\<lparr>nodehash := (nodehash (inode_init n w))(n := None)\<rparr>"

text \<open>The search along a bucket.\<close>

definition hash_step :: "nodes \<Rightarrow> u64 \<Rightarrow> nat option \<Rightarrow> (nat option + nat option) run" where
  "hash_step w inum p = (case p of None \<Rightarrow> run_return (Inr None)
     | Some np \<Rightarrow> with_node np (\<lambda>n. run_return (if cache_id n = inum then Inr (Some np) else Inl (hnext (dn n)))) w)"

definition hash_search :: "nodes \<Rightarrow> u64 \<Rightarrow> nat option run" where
  "hash_search w inum = run_loop (hash_step w inum) (nodehash w (INOHASH inum))"

text \<open>Putting the node \<open>np\<close> at the front of its bucket.\<close>

definition hash_insert :: "nat \<Rightarrow> u64 \<Rightarrow> nodes \<Rightarrow> nodes run" where
  "hash_insert np inum w =
     (let next = nodehash w (INOHASH inum);
          w = upd_node np (dn_update (hnext_update (\<lambda>_. next))) w
      in run_bind (case next of None \<Rightarrow> run_return w
           | Some y \<Rightarrow> with_node y (\<lambda>_. run_return (upd_node y (dn_update (hprevp_update (\<lambda>_. Hnext np))) w)) w)
         (\<lambda>w. let w = upd_node np (dn_update (hprevp_update (\<lambda>_. Bucket (INOHASH inum)))) w
              in run_return (w\<lparr>nodehash := (nodehash w)(INOHASH inum := Some np)\<rparr>)))"

text \<open>\<^verbatim>\<open>*hprevp = v\<close>\<close>

definition store_ref :: "nextref \<Rightarrow> nat option \<Rightarrow> nodes \<Rightarrow> nodes run" where
  "store_ref r v w = (case r of Bucket b \<Rightarrow> run_return (w\<lparr>nodehash := (nodehash w)(b := v)\<rparr>)
     | Hnext a \<Rightarrow> with_node a (\<lambda>_. run_return (upd_node a (dn_update (hnext_update (\<lambda>_. v))) w)) w)"

definition hash_remove :: "nat \<Rightarrow> nodes \<Rightarrow> nodes run" where
  "hash_remove np w =
     with_node np (\<lambda>n. run_bind (store_ref (hprevp (dn n)) (hnext (dn n)) w) (\<lambda>w.
       with_node np (\<lambda>n. case hnext (dn n) of None \<Rightarrow> run_return w
         | Some y \<Rightarrow> with_node y (\<lambda>_. run_return (upd_node y (dn_update (hprevp_update (\<lambda>_. hprevp (dn n)))) w)) w) w)) w"

definition diskfs_node_norefs :: "nat \<Rightarrow> nodes \<Rightarrow> nodes run" where
  "diskfs_node_norefs np w =
     run_bind (hash_remove np w) (\<lambda>w. with_node np (\<lambda>n.
       run_check (fileinfo (dn n) = None) Assert_Failed
         (run_return (w\<lparr>node_at := (node_at w)(np := None), mem := free_block (free_block (mem w))\<rparr>))) w)"

section \<open>Filling a node\<close>

definition S_IFMT :: u32 where "S_IFMT = 0xF000"
definition S_ISLNK :: "u32 \<Rightarrow> bool" where "S_ISLNK m \<longleftrightarrow> m AND S_IFMT = 0xA000"
definition S_ISDIR :: "u32 \<Rightarrow> bool" where "S_ISDIR m \<longleftrightarrow> m AND S_IFMT = 0x4000"
definition S_ISREG :: "u32 \<Rightarrow> bool" where "S_ISREG m \<longleftrightarrow> m AND S_IFMT = 0x8000"
definition S_IFDIR :: u32 where "S_IFDIR = 0x4000"
definition S_IFREG :: u32 where "S_IFREG = 0x8000"
definition JFS_SUPER_MAGIC :: u32 where "JFS_SUPER_MAGIC = 0x3153464a"

text \<open>Division of signed integers in C rounds toward zero.\<close>

definition c_div :: "int \<Rightarrow> int \<Rightarrow> int" where
  "c_div a b = (if 0 \<le> a then a div b else - ((- a) div b))"

text \<open>The assignments to \<^verbatim>\<open>np->dn_stat\<close>, in order.\<close>

definition fill_stat :: "sys \<Rightarrow> u64 \<Rightarrow> dinode_t \<Rightarrow> stat \<Rightarrow> stat" where
  "fill_stat s ino di st =
     (let st = st\<lparr>st_fstype := JFS_SUPER_MAGIC, st_fsid := getpid s, st_ino := ino, st_gen := 0, st_rdev := 0,
            st_mode := di_mode di, st_nlink := di_nlink di, st_uid := di_uid di, st_gid := di_gid di,
            st_author := di_uid di, st_size := di_size di\<rparr>;
          st = st\<lparr>st_gen := di_gen di\<rparr>;
          st = (if S_ISLNK (st_mode st) then st\<lparr>st_size := 0\<rparr> else st);
          st = st\<lparr>st_atim := di_atime di, st_mtim := di_mtime di, st_ctim := di_ctime di,
            st_blksize := vm_page_size s * 2, st_blocks := c_div (sint (di_size di)) 512 + 1, st_flags := 0\<rparr>
      in if S_ISDIR (st_mode st) then st\<lparr>st_mode := S_IFDIR OR 0x1FF\<rparr> else st\<lparr>st_mode := S_IFREG OR 0x1B6\<rparr>)"

definition read_node :: "fs \<Rightarrow> sys \<Rightarrow> nat \<Rightarrow> nodes \<Rightarrow> (int \<times> nodes) run" where
  "read_node d s np w = with_node np (\<lambda>n.
     run_bind (find_inode d (ucast (cache_id n)) 16 (mem w)) (\<lambda>(a, h).
       case a of None \<Rightarrow> run_return (1, w\<lparr>mem := h\<rparr>)
       | Some address \<Rightarrow>
           run_bind (xRead d address sizeof_dinode h) (\<lambda>(b, h).
             case b of None \<Rightarrow> run_return (1, w\<lparr>mem := h\<rparr>)
             | Some bs \<Rightarrow>
                 run_bind (spin_lock (w\<lparr>mem := h\<rparr>)) (\<lambda>w.
                   if catch_exception s \<noteq> 0 then run_return (catch_exception s, w)
                   else run_return (0, spin_unlock (upd_node np (\<lambda>n. n\<lparr>
                     dn_stat := fill_stat s (cache_id n) (dinode_of bs) (dn_stat n),
                     author_tracks_uid := True\<rparr>) w)))))) w"

section \<open>Looking a node up\<close>

text \<open>The object \<^verbatim>\<open>diskfs_make_node\<close> returned, at its address, with \<^verbatim>\<open>dn->fileinfo\<close> and \<^verbatim>\<open>np->cache_id\<close> set.\<close>

definition place_node :: "node \<Rightarrow> u64 \<Rightarrow> nodes \<Rightarrow> nodes" where
  "place_node n inum w = w\<lparr>node_at := (node_at w)(node_fresh w \<mapsto>
     n\<lparr>cache_id := inum, dn := (dn n)\<lparr>fileinfo := None\<rparr>\<rparr>), node_fresh := node_fresh w + 1\<rparr>"

text \<open>The result code and \<^verbatim>\<open>*npp\<close>.\<close>

definition diskfs_cached_lookup :: "fs \<Rightarrow> sys \<Rightarrow> u64 \<Rightarrow> nodes \<Rightarrow> (int \<times> nat option \<times> nodes) run" where
  "diskfs_cached_lookup d s inum w =
     run_bind (spin_lock w) (\<lambda>w.
       run_bind (hash_search w inum) (\<lambda>found.
         case found of
           Some np \<Rightarrow>
             (let w = spin_unlock (upd_node np (\<lambda>n. n\<lparr>references := references n + 1\<rparr>) w)
              in run_bind (mutex_lock np w) (\<lambda>w. run_return (0, Some np, w)))
         | None \<Rightarrow>
             (let (ok, h) = malloc (mem w); w = w\<lparr>mem := h\<rparr>
              in if \<not> ok then run_return (ENOMEM, None, spin_unlock w)
                 else let (n, h) = make_node s (mem w); w = w\<lparr>mem := h\<rparr>
                      in case n of
                           None \<Rightarrow> run_return (ENOMEM, None, spin_unlock (w\<lparr>mem := free_block (mem w)\<rparr>))
                         | Some n \<Rightarrow>
                             let np = node_fresh w
                             in run_bind (hash_insert np inum (place_node n inum w)) (\<lambda>w.
                                  run_bind (read_node d s np (spin_unlock w)) (\<lambda>(err, w).
                                    run_return (err, Some np, upd_node np (\<lambda>n. n\<lparr>references := references n + 1\<rparr>) w))))))"

section \<open>Buckets as lists\<close>

text \<open>What the table knows of a node: its number, the next node and the pointer that leads to it.\<close>

type_synonym links = "nat \<Rightarrow> (u64 \<times> nat option \<times> nextref) option"

definition links_of :: "nodes \<Rightarrow> links" where
  "links_of w a = map_option (\<lambda>n. (cache_id n, hnext (dn n), hprevp (dn n))) (node_at w a)"

definition ino_of :: "links \<Rightarrow> nat \<Rightarrow> u64" where
  "ino_of L a = (case L a of Some (i, _) \<Rightarrow> i | None \<Rightarrow> 0)"

text \<open>A doubly linked list from the pointer \<open>p\<close>, stored at \<open>r\<close>.\<close>

fun seg :: "links \<Rightarrow> nextref \<Rightarrow> nat option \<Rightarrow> nat list \<Rightarrow> bool" where
  "seg L r p [] \<longleftrightarrow> p = None"
| "seg L r p (a # xs) \<longleftrightarrow> p = Some a \<and> (\<exists>i q. L a = Some (i, q, r) \<and> seg L (Hnext a) q xs)"

definition bucket_ok :: "links \<Rightarrow> (nat \<Rightarrow> nat option) \<Rightarrow> nat \<Rightarrow> nat list \<Rightarrow> bool" where
  "bucket_ok L T b xs \<longleftrightarrow> seg L (Bucket b) (T b) xs \<and> distinct (map (ino_of L) xs)
     \<and> (\<forall>a \<in> set xs. INOHASH (ino_of L a) = b)"

definition table_ok :: "links \<Rightarrow> (nat \<Rightarrow> nat option) \<Rightarrow> (nat \<Rightarrow> nat list) \<Rightarrow> bool" where
  "table_ok L T B \<longleftrightarrow> (\<forall>b < INOHSZ. bucket_ok L T b (B b)) \<and> (\<forall>a. L a \<noteq> None \<longrightarrow> (\<exists>b < INOHSZ. a \<in> set (B b)))"

definition cache_ok :: "nodes \<Rightarrow> bool" where
  "cache_ok w \<longleftrightarrow> (\<exists>B. table_ok (links_of w) (nodehash w) B) \<and> (\<forall>a \<ge> node_fresh w. node_at w a = None)"

text \<open>The abstract cache: a map from inode numbers to nodes.\<close>

definition cached :: "nodes \<Rightarrow> u64 \<Rightarrow> nat \<Rightarrow> bool" where
  "cached w i a \<longleftrightarrow> (\<exists>n. node_at w a = Some n \<and> cache_id n = i)"

definition node_map :: "nodes \<Rightarrow> u64 \<Rightarrow> nat option" where
  "node_map w i = (if \<exists>a. cached w i a then Some (THE a. cached w i a) else None)"

lemma INOHASH_less: "INOHASH i < INOHSZ"
proof -
  have "i AND (512 - 1) = take_bit 9 i" by (simp add: take_bit_eq_mask mask_eq_exp_minus_1)
  then show ?thesis by (simp add: INOHASH_def INOHSZ_def unsigned_take_bit_eq take_bit_nat_less_exp [of 9, simplified])
qed

lemma option_eqI: "(\<And>x. p = Some x \<longleftrightarrow> q = Some x) \<Longrightarrow> p = q"
  by (cases p; cases q) auto

lemma links_of_Some:
  "links_of w a = Some (i, q, r) \<longleftrightarrow>
    (\<exists>n. node_at w a = Some n \<and> i = cache_id n \<and> q = hnext (dn n) \<and> r = hprevp (dn n))"
  by (auto simp: links_of_def)

lemma cached_links: "cached w i a \<longleftrightarrow> (\<exists>q r. links_of w a = Some (i, q, r))"
  by (auto simp: cached_def links_of_def)

lemma seg_update [simp]: "a \<notin> set xs \<Longrightarrow> seg (L(a := v)) r p xs = seg L r p xs"
  by (induction xs arbitrary: r p) auto

lemma seg_live: "seg L r p xs \<Longrightarrow> a \<in> set xs \<Longrightarrow> L a \<noteq> None"
  by (induction xs arbitrary: r p) auto

lemma ino_of_upd: "ino_of (L(a := v)) c = (if c = a then (case v of Some (i, _) \<Rightarrow> i | None \<Rightarrow> 0) else ino_of L c)"
  by (simp add: ino_of_def)

lemma ino_of_update: "a \<notin> set xs \<Longrightarrow> map (ino_of (L(a := v))) xs = map (ino_of L) xs"
  by (induction xs) (auto simp: ino_of_def)

lemma bucket_update: "a \<notin> set xs \<Longrightarrow> bucket_ok (L(a := v)) T b xs = bucket_ok L T b xs"
  by (auto simp: bucket_ok_def ino_of_update) (auto simp: ino_of_def split: if_splits)

lemma bucket_distinct: "bucket_ok L T b xs \<Longrightarrow> distinct xs"
  by (auto simp: bucket_ok_def distinct_map)

lemma table_bucket:
  assumes "table_ok L T B" and "L a = Some (i, q, r)"
  shows "a \<in> set (B (INOHASH i))"
  using assms by (fastforce simp: table_ok_def bucket_ok_def ino_of_def)

lemma table_disjoint:
  assumes "table_ok L T B" and "b < INOHSZ" and "b' < INOHSZ" and "a \<in> set (B b)" and "a \<in> set (B b')"
  shows "b = b'"
  using assms unfolding table_ok_def bucket_ok_def by metis

lemma table_unique:
  assumes t: "table_ok L T B" and "L a = Some (i, q, r)" and "L a' = Some (i, q', r')"
  shows "a = a'"
proof -
  have "a \<in> set (B (INOHASH i))" "a' \<in> set (B (INOHASH i))" using table_bucket [OF t] assms(2,3) by blast+
  moreover have "inj_on (ino_of L) (set (B (INOHASH i)))"
    using t INOHASH_less [of i] by (auto simp: table_ok_def bucket_ok_def distinct_map)
  moreover have "ino_of L a = ino_of L a'" using assms(2,3) by (simp add: ino_of_def)
  ultimately show ?thesis by (auto dest: inj_onD)
qed

lemma node_map_Some:
  assumes "cache_ok w"
  shows "node_map w i = Some a \<longleftrightarrow> cached w i a"
proof -
  obtain B where B: "table_ok (links_of w) (nodehash w) B" using assms by (auto simp: cache_ok_def)
  have u: "a = a'" if "cached w i a" "cached w i a'" for a a'
    using that table_unique [OF B] by (auto simp: cached_links)
  then have "(THE a. cached w i a) = a" if "cached w i a" for a using that by blast
  with u show ?thesis by (auto simp: node_map_def)
qed

lemma node_map_None: "node_map w i = None \<longleftrightarrow> (\<forall>a. \<not> cached w i a)"
  by (simp add: node_map_def)

section \<open>The search\<close>

lemma hash_loop:
  "seg (links_of w) r p xs \<Longrightarrow>
    run_loop (hash_step w inum) p = run_return (find (\<lambda>a. ino_of (links_of w) a = inum) xs)"
proof (induction xs arbitrary: r p)
  case Nil
  then show ?case by (simp add: run_loop_done hash_step_def)
next
  case (Cons a xs)
  then obtain n where n: "p = Some a" "node_at w a = Some n" "seg (links_of w) (Hnext a) (hnext (dn n)) xs"
    by (auto simp: links_of_Some)
  have ino: "ino_of (links_of w) a = cache_id n" using n(2) by (simp add: ino_of_def links_of_def)
  show ?case
  proof (cases "cache_id n = inum")
    case True
    with n ino show ?thesis by (simp add: run_loop_done hash_step_def with_node_def)
  next
    case False
    with n have "hash_step w inum p = run_return (Inl (hnext (dn n)))" by (simp add: hash_step_def with_node_def)
    with False ino Cons.IH [OF n(3)] show ?thesis by (simp add: run_loop_next [of "hash_step w inum"])
  qed
qed

lemma hash_search_map:
  assumes "cache_ok w"
  shows "hash_search w i = run_return (node_map w i)"
proof -
  obtain B where B: "table_ok (links_of w) (nodehash w) B" using assms by (auto simp: cache_ok_def)
  define xs where "xs = B (INOHASH i)"
  have seg: "seg (links_of w) (Bucket (INOHASH i)) (nodehash w (INOHASH i)) xs"
    using B INOHASH_less [of i] by (simp add: table_ok_def bucket_ok_def xs_def)
  have "find (\<lambda>a. ino_of (links_of w) a = i) xs = node_map w i"
  proof (cases "find (\<lambda>a. ino_of (links_of w) a = i) xs")
    case None
    have "\<not> cached w i a" for a
    proof
      assume "cached w i a"
      then obtain q r where l: "links_of w a = Some (i, q, r)" by (auto simp: cached_links)
      with table_bucket [OF B l] None show False by (auto simp: find_None_iff xs_def ino_of_def)
    qed
    with None show ?thesis by (simp add: node_map_def)
  next
    case (Some a)
    then have a: "a \<in> set xs" "ino_of (links_of w) a = i" by (auto simp: find_Some_iff)
    then have "cached w i a" using seg_live [OF seg a(1)] by (auto simp: cached_links ino_of_def)
    with Some assms show ?thesis by (simp add: node_map_Some [symmetric])
  qed
  with hash_loop [OF seg, of i] show ?thesis by (simp add: hash_search_def)
qed

section \<open>Linking and unlinking\<close>

definition set_prev :: "nat option \<Rightarrow> nextref \<Rightarrow> links \<Rightarrow> links" where
  "set_prev p r L = (case p of None \<Rightarrow> L | Some y \<Rightarrow> L(y := map_option (\<lambda>(i, q, _). (i, q, r)) (L y)))"

definition set_next :: "nextref \<Rightarrow> nat option \<Rightarrow> links \<Rightarrow> links" where
  "set_next r q L = (case r of Bucket _ \<Rightarrow> L | Hnext a \<Rightarrow> L(a := map_option (\<lambda>(i, _, r). (i, q, r)) (L a)))"

lemma ino_of_set_prev [simp]: "ino_of (set_prev p r L) = ino_of L"
  by (auto simp: set_prev_def ino_of_def fun_eq_iff split: option.split)

lemma ino_of_set_next [simp]: "ino_of (set_next r q L) = ino_of L"
  by (auto simp: set_next_def ino_of_def fun_eq_iff split: option.split nextref.split)

lemma seg_cong: "(\<And>a. a \<in> set xs \<Longrightarrow> L a = L' a) \<Longrightarrow> seg L r p xs = seg L' r p xs"
  by (induction xs arbitrary: r p) auto

lemma seg_head: "seg L r p xs \<Longrightarrow> p = (case xs of [] \<Rightarrow> None | a # _ \<Rightarrow> Some a)"
  by (cases xs) auto

lemma seg_set_prev: "seg L r p xs \<Longrightarrow> distinct xs \<Longrightarrow> seg (set_prev p r' L) r' p xs"
  by (cases xs) (auto simp: set_prev_def)

lemma set_prev_other: "p \<noteq> Some a \<Longrightarrow> set_prev p r L a = L a"
  by (auto simp: set_prev_def split: option.split)

lemma set_next_other: "r \<noteq> Hnext a \<Longrightarrow> set_next r q L a = L a"
  by (auto simp: set_next_def split: nextref.split)

lemma bucket_cong:
  assumes "\<And>a. a \<in> set xs \<Longrightarrow> L a = L' a" and "T b = T' b"
  shows "bucket_ok L T b xs = bucket_ok L' T' b xs"
proof -
  have "ino_of L a = ino_of L' a" if "a \<in> set xs" for a using assms(1) [OF that] by (simp add: ino_of_def)
  then have "map (ino_of L) xs = map (ino_of L') xs" "(\<forall>a\<in>set xs. INOHASH (ino_of L a) = b) = (\<forall>a\<in>set xs. INOHASH (ino_of L' a) = b)"
    by auto
  with seg_cong [of xs L L', OF assms(1)] assms(2) show ?thesis by (simp only: bucket_ok_def)
qed

lemma table_insert:
  assumes t: "table_ok L T B" and new: "L np = None" and ino: "\<And>a i q r. L a = Some (i, q, r) \<Longrightarrow> i \<noteq> inum"
  defines "b \<equiv> INOHASH inum"
  shows "table_ok ((set_prev (T b) (Hnext np) L)(np := Some (inum, T b, Bucket b))) (T(b := Some np)) (B(b := np # B b))"
    (is "table_ok ?L ?T ?B")
proof -
  have b: "b < INOHSZ" by (simp add: b_def INOHASH_less)
  have bo: "bucket_ok L T c (B c)" if "c < INOHSZ" for c using t that by (simp add: table_ok_def)
  have fresh: "np \<notin> set (B c)" if "c < INOHSZ" for c
    using bo [OF that] new seg_live [of L "Bucket c" "T c" "B c" np] unfolding bucket_ok_def by blast
  have head: "y \<in> set (B b)" if "T b = Some y" for y
    using bo [OF b] that by (auto simp: bucket_ok_def dest!: seg_head split: list.splits)
  have other: "?L a = L a" if "a \<noteq> np" "a \<notin> set (B b)" for a
    using that head set_prev_other [of "T b" a] by auto
  have inoL: "ino_of ?L a = (if a = np then inum else ino_of L a)" for a
    by (simp add: ino_of_upd)
  have "bucket_ok ?L ?T c (?B c)" if c: "c < INOHSZ" for c
  proof (cases "c = b")
    case False
    have "bucket_ok ?L ?T c (B c) = bucket_ok L T c (B c)"
    proof (rule bucket_cong)
      show "?L a = L a" if "a \<in> set (B c)" for a
        using that other fresh [OF c] table_disjoint [OF t c b that] False by metis
    qed (use False in simp)
    with bo [OF c] False show ?thesis by simp
  next
    case True
    have s: "seg L (Bucket b) (T b) (B b)" "distinct (map (ino_of L) (B b))" "\<And>a. a \<in> set (B b) \<Longrightarrow> INOHASH (ino_of L a) = b"
      using bo [OF b] by (auto simp: bucket_ok_def)
    have "seg ?L (Hnext np) (T b) (B b)"
      using seg_set_prev [OF s(1) bucket_distinct [OF bo [OF b]]] fresh [OF b] by simp
    moreover have "inum \<notin> ino_of L ` set (B b)"
      using ino seg_live [OF s(1)] by (fastforce simp: ino_of_def)
    moreover have "map (ino_of ?L) (B b) = map (ino_of L) (B b)"
      using fresh [OF b] by (auto simp: inoL)
    moreover have "INOHASH (ino_of ?L a) = b" if "a \<in> set (np # B b)" for a
      using that s(3) by (auto simp: inoL b_def [symmetric])
    moreover have "map (ino_of ?L) (np # B b) = inum # map (ino_of L) (B b)" using fresh [OF b] by (auto simp: inoL)
    ultimately show ?thesis using True s(2) by (simp add: bucket_ok_def del: list.map)
  qed
  moreover have "\<exists>c < INOHSZ. a \<in> set (?B c)" if "?L a \<noteq> None" for a
  proof (cases "a = np")
    case False
    have "L a \<noteq> None" using that False by (auto simp: set_prev_def split: option.splits if_splits)
    with t b show ?thesis by (fastforce simp: table_ok_def)
  qed (use b in auto)
  ultimately show ?thesis by (simp add: table_ok_def)
qed

lemma seg_tail: "seg L r p (xs @ a # ys) \<Longrightarrow> L a = Some (i, q, ra) \<Longrightarrow> \<exists>s. seg L s q ys"
  by (induction xs arbitrary: r p) auto

lemma seg_remove:
  assumes "seg L r p (xs @ a # ys)" and "distinct (xs @ a # ys)" and "L a = Some (i, q, ra)"
    and "\<And>z. r = Hnext z \<Longrightarrow> z \<notin> set (xs @ a # ys)"
  shows "ra = (if xs = [] then r else Hnext (last xs))
    \<and> seg (set_prev q ra (set_next ra q L)) r (if xs = [] then q else p) (xs @ ys)"
  using assms
proof (induction xs arbitrary: r p)
  case Nil
  then have q: "r = ra" "seg L (Hnext a) q ys" "distinct ys" by auto
  have "seg (set_next ra q L) (Hnext a) q ys = seg L (Hnext a) q ys"
    by (rule seg_cong, rule set_next_other) (use Nil.prems(4) q(1) in auto)
  with seg_set_prev [of "set_next ra q L" "Hnext a" q ys ra] q show ?case by simp
next
  case (Cons z xs)
  then obtain j n where z: "p = Some z" "L z = Some (j, n, r)" "seg L (Hnext z) n (xs @ a # ys)" by auto
  have "ra = (if xs = [] then Hnext z else Hnext (last xs))
      \<and> seg (set_prev q ra (set_next ra q L)) (Hnext z) (if xs = [] then q else n) (xs @ ys)"
    by (rule Cons.IH [OF z(3)]) (use Cons.prems in auto)
  then have ra: "ra = (if xs = [] then Hnext z else Hnext (last xs))"
    and IH: "seg (set_prev q ra (set_next ra q L)) (Hnext z) (if xs = [] then q else n) (xs @ ys)" by blast+
  obtain s where "seg L s q ys" using seg_tail [OF z(3) Cons.prems(3)] by blast
  then have "q \<noteq> Some z" using seg_head [of L s q ys] Cons.prems(2) by (auto split: list.splits)
  then have "set_prev q ra (set_next ra q L) z = Some (j, if xs = [] then q else n, r)"
    using ra z(2) Cons.prems(2) last_in_set [of xs]
    by (auto simp: set_prev_other set_next_def split: nextref.split)
  with IH ra z(1) show ?case by simp
qed

lemma table_remove:
  assumes t: "table_ok L T B" and a: "L a = Some (i, q, ra)"
  defines "b \<equiv> INOHASH i"
  shows "table_ok ((set_prev q ra (set_next ra q L))(a := None))
    (case ra of Bucket c \<Rightarrow> T(c := q) | Hnext _ \<Rightarrow> T) (B(b := remove1 a (B b)))"
    (is "table_ok ?L ?T ?B")
proof -
  have b: "b < INOHSZ" by (simp add: b_def INOHASH_less)
  have bo: "bucket_ok L T c (B c)" if "c < INOHSZ" for c using t that by (simp add: table_ok_def)
  have "a \<in> set (B b)" unfolding b_def using table_bucket [OF t a] .
  then obtain xs ys where xs: "B b = xs @ a # ys" "a \<notin> set xs" by (meson split_list_first)
  have s: "seg L (Bucket b) (T b) (xs @ a # ys)" "distinct (xs @ a # ys)"
    using bo [OF b] bucket_distinct [OF bo [OF b]] xs(1) by (simp_all add: bucket_ok_def)
  have ra: "ra = (if xs = [] then Bucket b else Hnext (last xs))"
    and seg: "seg (set_prev q ra (set_next ra q L)) (Bucket b) (if xs = [] then q else T b) (xs @ ys)"
    using seg_remove [OF s a] by auto
  have rm: "remove1 a (B b) = xs @ ys" using xs by (simp add: remove1_append)
  have q: "y \<in> set (B b)" if "q = Some y" for y
    using seg_tail [OF s(1) a] that xs(1) by (auto dest!: seg_head split: list.splits)
  have other: "?L c = L c" if "c \<notin> set (B b)" for c
  proof -
    have "q \<noteq> Some c" using that q by blast
    moreover have "ra \<noteq> Hnext c" using that ra last_in_set [of xs] xs(1) by auto
    moreover have "c \<noteq> a" using that xs(1) by auto
    ultimately show ?thesis by (simp add: set_prev_other set_next_other)
  qed
  have inoL: "ino_of ?L c = ino_of L c" if "c \<noteq> a" for c
    using that by (simp add: ino_of_upd)
  have "bucket_ok ?L ?T c (?B c)" if c: "c < INOHSZ" for c
  proof (cases "c = b")
    case False
    have "bucket_ok ?L ?T c (B c) = bucket_ok L T c (B c)"
    proof (rule bucket_cong)
      show "?L x = L x" if "x \<in> set (B c)" for x
        using that other table_disjoint [OF t c b that] False by metis
    qed (use False ra in simp)
    with bo [OF c] False show ?thesis by simp
  next
    case True
    have sg: "seg ?L (Bucket b) (?T b) (xs @ ys)" using seg s(2) ra by (cases "xs = []") simp_all
    have m: "map (ino_of ?L) (xs @ ys) = map (ino_of L) (xs @ ys)"
      using s(2) by (intro map_cong refl inoL) auto
    have dist: "distinct (map (ino_of ?L) (xs @ ys))" and hash: "\<forall>x \<in> set (xs @ ys). INOHASH (ino_of L x) = b"
      unfolding m using bo [OF b] xs(1) by (auto simp: bucket_ok_def)
    have "INOHASH (ino_of ?L x) = b" if "x \<in> set (xs @ ys)" for x
    proof -
      have "x \<noteq> a" using that s(2) by auto
      from inoL [OF this] hash that show ?thesis by metis
    qed
    with sg dist show ?thesis unfolding True bucket_ok_def fun_upd_same rm by blast
  qed
  moreover have "\<exists>c < INOHSZ. x \<in> set (?B c)" if "?L x \<noteq> None" for x
  proof -
    have "x \<noteq> a" "L x \<noteq> None"
      using that by (auto simp: set_prev_def set_next_def split: option.splits nextref.splits if_splits)
    then obtain c where "c < INOHSZ" "x \<in> set (B c)" using t unfolding table_ok_def by blast
    with \<open>x \<noteq> a\<close> show ?thesis by (intro exI [of _ c]) auto
  qed
  ultimately show ?thesis by (simp add: table_ok_def)
qed

section \<open>The operations on the links\<close>

text \<open>What an operation on the table may not touch.\<close>

definition same_but_links :: "nodes \<Rightarrow> nodes \<Rightarrow> bool" where
  "same_but_links w w' \<longleftrightarrow> node_fresh w' = node_fresh w \<and> refcnt_lock w' = refcnt_lock w \<and> mem w' = mem w
     \<and> (\<forall>a. map_option (dn_update (\<lambda>d. d\<lparr>hnext := None, hprevp := Bucket 0\<rparr>)) (node_at w' a) =
          map_option (dn_update (\<lambda>d. d\<lparr>hnext := None, hprevp := Bucket 0\<rparr>)) (node_at w a))"

lemma same_but_links_refl [simp]: "same_but_links w w"
  by (simp add: same_but_links_def)

lemma same_but_links_trans: "same_but_links w w' \<Longrightarrow> same_but_links w' w'' \<Longrightarrow> same_but_links w w''"
  by (simp add: same_but_links_def)

lemma same_but_links_live: "same_but_links w w' \<Longrightarrow> node_at w' a = None \<longleftrightarrow> node_at w a = None"
  unfolding same_but_links_def by (metis option.map_disc_iff)

lemma same_but_links_node:
  assumes "same_but_links w w'" and "node_at w a = Some n"
  obtains n' where "node_at w' a = Some n'" and "cache_id n' = cache_id n" and "references n' = references n"
    and "node_lock n' = node_lock n" and "dn_stat n' = dn_stat n" and "fileinfo (dn n') = fileinfo (dn n)"
proof -
  define f :: "node \<Rightarrow> node" where "f = dn_update (\<lambda>d. d\<lparr>hnext := None, hprevp := Bucket 0\<rparr>)"
  have "map_option f (node_at w' a) = Some (f n)" using assms by (simp add: same_but_links_def f_def)
  then obtain n' where n': "node_at w' a = Some n'" "f n' = f n" by auto
  have "cache_id (f m) = cache_id m" "references (f m) = references m" "node_lock (f m) = node_lock m"
    "dn_stat (f m) = dn_stat m" "fileinfo (dn (f m)) = fileinfo (dn m)" for m by (simp_all add: f_def)
  with n' that show ?thesis by metis
qed

lemma same_but_links_upd:
  "same_but_links w (upd_node a (dn_update (hnext_update f)) w)"
  "same_but_links w (upd_node a (dn_update (hprevp_update g)) w)"
  by (simp_all add: same_but_links_def upd_node_def option.map_comp comp_def)

lemma same_but_links_table: "same_but_links w (w'\<lparr>nodehash := T\<rparr>) = same_but_links w w'"
  by (simp add: same_but_links_def)

lemma links_upd_hnext:
  "links_of (upd_node a (dn_update (hnext_update (\<lambda>_. q))) w) =
    (links_of w)(a := map_option (\<lambda>(i, _, r). (i, q, r)) (links_of w a))"
  by (auto simp: links_of_def upd_node_def fun_eq_iff option.map_comp comp_def)

lemma links_upd_hprevp:
  "links_of (upd_node a (dn_update (hprevp_update (\<lambda>_. r))) w) =
    (links_of w)(a := map_option (\<lambda>(i, q, _). (i, q, r)) (links_of w a))"
  by (auto simp: links_of_def upd_node_def fun_eq_iff option.map_comp comp_def)

lemma links_table [simp]: "links_of (w\<lparr>nodehash := T\<rparr>) = links_of w"
  by (simp add: links_of_def fun_eq_iff)

lemma nodehash_upd [simp]: "nodehash (upd_node a f w) = nodehash w"
  by (simp add: upd_node_def)

lemma live_links: "node_at w a \<noteq> None \<longleftrightarrow> links_of w a \<noteq> None"
  by (simp add: links_of_def)

lemma with_node_live: "links_of w a \<noteq> None \<Longrightarrow> with_node a (\<lambda>_. m) w = m"
  by (auto simp: with_node_def links_of_def)

lemma hash_insert_links:
  assumes L: "links_of w = L(np := Some (inum, q0, r0))" and t: "table_ok L (nodehash w) B" and new: "L np = None"
  shows "\<exists>w'. hash_insert np inum w = run_return w' \<and> same_but_links w w'
    \<and> nodehash w' = (nodehash w)(INOHASH inum := Some np)
    \<and> links_of w' = (set_prev (nodehash w (INOHASH inum)) (Hnext np) L)
        (np := Some (inum, nodehash w (INOHASH inum), Bucket (INOHASH inum)))"
proof -
  define b where "b = INOHASH inum"
  have live: "y \<noteq> np \<and> L y \<noteq> None" if "nodehash w b = Some y" for y
  proof -
    have "seg L (Bucket b) (nodehash w b) (B b)"
      using t INOHASH_less [of inum] by (simp add: table_ok_def bucket_ok_def b_def)
    with that have "L y \<noteq> None" by (cases "B b") auto
    with new show ?thesis by auto
  qed
  show ?thesis
  proof (cases "nodehash w b")
    case None
    then show ?thesis
      by (auto simp: hash_insert_def Let_def b_def [symmetric] L links_upd_hnext links_upd_hprevp set_prev_def
          same_but_links_table intro: same_but_links_trans same_but_links_upd)
  next
    case (Some y)
    define w1 where "w1 = upd_node np (dn_update (hnext_update (\<lambda>_. Some y))) w"
    have L1: "links_of w1 = L(np := Some (inum, Some y, r0))" by (simp add: w1_def links_upd_hnext L)
    have "with_node y (\<lambda>_. m) w1 = m" for m :: "nodes run"
      using live [OF Some] by (intro with_node_live) (simp add: L1)
    moreover have "same_but_links w w1" "nodehash w1 = nodehash w" by (simp_all add: w1_def same_but_links_upd)
    moreover have "same_but_links w1 (upd_node np f (upd_node y g w1))"
      if "f = dn_update (hprevp_update (\<lambda>_. Bucket b))" "g = dn_update (hprevp_update (\<lambda>_. Hnext np))" for f g
      unfolding that by (rule same_but_links_trans; rule same_but_links_upd)
    ultimately show ?thesis
      using Some live [OF Some]
      by (auto simp: hash_insert_def Let_def b_def [symmetric] w1_def [symmetric] L1 links_upd_hprevp set_prev_def
          same_but_links_table fun_upd_twist elim: same_but_links_trans)
  qed
qed

lemma hash_remove_links:
  assumes t: "table_ok (links_of w) (nodehash w) B" and a: "links_of w np = Some (i, q, r)"
  shows "\<exists>w'. hash_remove np w = run_return w' \<and> same_but_links w w'
    \<and> nodehash w' = (case r of Bucket b \<Rightarrow> (nodehash w)(b := q) | Hnext _ \<Rightarrow> nodehash w)
    \<and> links_of w' = set_prev q r (set_next r q (links_of w)) \<and> links_of w' np = Some (i, q, r)"
proof -
  define L where "L = links_of w"
  obtain n where n: "node_at w np = Some n" "q = hnext (dn n)" "r = hprevp (dn n)" "i = cache_id n"
    using a by (auto simp: links_of_Some)
  have b: "bucket_ok L (nodehash w) (INOHASH i) (B (INOHASH i))"
    using t INOHASH_less [of i] by (simp add: table_ok_def L_def)
  obtain xs ys where xs: "B (INOHASH i) = xs @ np # ys" using table_bucket [OF t a] by (meson split_list)
  have s: "seg L (Bucket (INOHASH i)) (nodehash w (INOHASH i)) (xs @ np # ys)" "distinct (xs @ np # ys)"
    using b bucket_distinct [OF b] by (simp_all add: xs bucket_ok_def)
  have r: "r = (if xs = [] then Bucket (INOHASH i) else Hnext (last xs))"
    using seg_remove [OF s a [folded L_def]] by auto
  have prev: "z \<noteq> np \<and> L z \<noteq> None" if "r = Hnext z" for z
    using that r s(2) seg_live [OF s(1), of z] last_in_set [of xs] by (auto split: if_splits)
  have "next": "y \<noteq> np \<and> L y \<noteq> None" if "q = Some y" for y
    using seg_tail [OF s(1) a [folded L_def]] that s(2) seg_live [OF s(1), of y]
    by (auto dest!: seg_head split: list.splits)
  obtain w1 where w1: "store_ref r q w = run_return w1" "same_but_links w w1" "links_of w1 = set_next r q L"
    "nodehash w1 = (case r of Bucket b \<Rightarrow> (nodehash w)(b := q) | Hnext _ \<Rightarrow> nodehash w)"
  proof (cases r)
    case (Bucket b)
    with that show ?thesis by (simp add: store_ref_def set_next_def L_def same_but_links_table)
  next
    case (Hnext z)
    with prev that show ?thesis
      by (simp add: store_ref_def set_next_def links_upd_hnext same_but_links_upd with_node_live L_def)
  qed
  have np: "links_of w1 np = Some (i, q, r)" 
  proof -
    have "r \<noteq> Hnext np" using prev by blast
    with a show ?thesis by (simp add: w1(3) L_def set_next_other)
  qed
  then obtain n1 where n1: "node_at w1 np = Some n1" "q = hnext (dn n1)" "r = hprevp (dn n1)"
    by (auto simp: links_of_Some)
  have step: "hash_remove np w = (case q of None \<Rightarrow> run_return w1
      | Some y \<Rightarrow> with_node y (\<lambda>_. run_return (upd_node y (dn_update (hprevp_update (\<lambda>_. r))) w1)) w1)"
    using n n1 w1(1) by (simp add: hash_remove_def with_node_def split: option.split)
  show ?thesis
  proof (cases q)
    case None
    with step w1 np show ?thesis by (simp add: set_prev_def L_def)
  next
    case (Some y)
    then have "links_of w1 y \<noteq> None"
      using "next" [OF Some] by (subst w1(3)) (auto simp: set_next_def split: nextref.split)
    with Some step w1 np "next" [OF Some] show ?thesis
      by (auto simp: set_prev_def L_def links_upd_hprevp with_node_live intro: same_but_links_trans same_but_links_upd)
  qed
qed

section \<open>The cache is a map\<close>

text \<open>What the rest of the translator relies on: the table is a finite map from inode numbers to nodes, with
  search, insertion of a number that is not there, and removal.\<close>

locale node_table =
  fixes inv :: "'w \<Rightarrow> bool"
    and amap :: "'w \<Rightarrow> 'k \<Rightarrow> 'a option"
    and search :: "'w \<Rightarrow> 'k \<Rightarrow> 'a option run"
    and enter :: "'n \<Rightarrow> 'k \<Rightarrow> 'w \<Rightarrow> ('a \<times> 'w) run"
    and drop_node :: "'a \<Rightarrow> 'w \<Rightarrow> 'w run"
  assumes search_map: "inv w \<Longrightarrow> search w k = run_return (amap w k)"
    and enter_map: "inv w \<Longrightarrow> amap w k = None \<Longrightarrow>
      \<exists>a w'. enter n k w = run_return (a, w') \<and> inv w' \<and> amap w' = (amap w)(k \<mapsto> a) \<and> a \<notin> ran (amap w)"
    and drop_map: "inv w \<Longrightarrow> amap w k = Some a \<Longrightarrow>
      \<exists>w'. drop_node a w = run_return w' \<and> inv w' \<and> amap w' = (amap w)(k := None)"
begin

text \<open>A number that was entered is found, all others are found as before; after the node is dropped the map is
  back to what it was.\<close>

lemma enter_search:
  assumes "inv w" and "amap w k = None"
  shows "\<exists>a w'. enter n k w = run_return (a, w')
    \<and> (\<forall>j. search w' j = run_return (if j = k then Some a else amap w j))"
proof -
  from enter_map [OF assms] obtain a w' where e: "enter n k w = run_return (a, w')" "inv w'"
    "amap w' = (amap w)(k \<mapsto> a)" by blast
  then show ?thesis by (auto simp: search_map)
qed

lemma enter_drop:
  assumes "inv w" and "amap w k = None"
  shows "\<exists>a w' w''. enter n k w = run_return (a, w') \<and> drop_node a w' = run_return w'' \<and> inv w''
    \<and> (\<forall>j. search w'' j = search w j)"
proof -
  from enter_map [OF assms] obtain a w' where e: "enter n k w = run_return (a, w')" "inv w'"
    "amap w' = (amap w)(k \<mapsto> a)" by blast
  moreover from this drop_map [of w' k a] obtain w'' where "drop_node a w' = run_return w''" "inv w''"
    "amap w'' = (amap w')(k := None)" by auto
  ultimately have "amap w'' = amap w" using assms(2) by auto
  with \<open>inv w''\<close> \<open>drop_node a w' = run_return w''\<close> e assms(1) show ?thesis by (auto simp: search_map)
qed

end

text \<open>The node's life in the model: it is placed at a fresh address and put in its bucket; dropped, it is taken out
  of the bucket and its address is dead.\<close>

definition enter_node :: "node \<Rightarrow> u64 \<Rightarrow> nodes \<Rightarrow> (nat \<times> nodes) run" where
  "enter_node n inum w =
     run_bind (hash_insert (node_fresh w) inum (place_node n inum w)) (\<lambda>w'. run_return (node_fresh w, w'))"

definition drop_node :: "nat \<Rightarrow> nodes \<Rightarrow> nodes run" where
  "drop_node np w = run_bind (hash_remove np w) (\<lambda>w. run_return (w\<lparr>node_at := (node_at w)(np := None)\<rparr>))"

lemma enter_node_map:
  assumes ok: "cache_ok w" and none: "node_map w inum = None"
  shows "\<exists>w'. hash_insert (node_fresh w) inum (place_node n inum w) = run_return w'
    \<and> same_but_links (place_node n inum w) w' \<and> cache_ok w'
    \<and> node_map w' = (node_map w)(inum \<mapsto> node_fresh w) \<and> node_fresh w \<notin> ran (node_map w)"
proof -
  obtain B where B: "table_ok (links_of w) (nodehash w) B" and fr: "\<And>a. a \<ge> node_fresh w \<Longrightarrow> node_at w a = None"
    using ok by (auto simp: cache_ok_def)
  define np where "np = node_fresh w"
  define n1 where "n1 = n\<lparr>cache_id := inum, dn := (dn n)\<lparr>fileinfo := None\<rparr>\<rparr>"
  define w1 where "w1 = place_node n inum w"
  have w1: "w1 = w\<lparr>node_at := (node_at w)(np \<mapsto> n1), node_fresh := np + 1\<rparr>"
    by (simp add: w1_def place_node_def np_def n1_def)
  have new: "links_of w np = None" using fr by (simp add: links_of_def np_def)
  have L1: "links_of w1 = (links_of w)(np := Some (inum, hnext (dn n1), hprevp (dn n1)))"
    by (auto simp: w1 links_of_def fun_eq_iff n1_def)
  have T1: "nodehash w1 = nodehash w" by (simp add: w1)
  obtain w' where w': "hash_insert np inum w1 = run_return w'" "same_but_links w1 w'"
    "nodehash w' = (nodehash w)(INOHASH inum := Some np)"
    "links_of w' = (set_prev (nodehash w (INOHASH inum)) (Hnext np) (links_of w))
        (np := Some (inum, nodehash w (INOHASH inum), Bucket (INOHASH inum)))"
    using hash_insert_links [OF L1 _ new, of B] B unfolding T1 by blast
  have "i \<noteq> inum" if "links_of w a = Some (i, q, r)" for a i q r
    using none that by (auto simp: node_map_None cached_links)
  from table_insert [OF B new this] have "table_ok (links_of w') (nodehash w') (B(INOHASH inum := np # B (INOHASH inum)))"
    by (simp add: w'(3,4))
  moreover have "node_at w' a = None" if "a \<ge> node_fresh w'" for a
  proof -
    have "node_at w1 a = None" using that w'(2) fr [of a] by (auto simp: same_but_links_def w1 np_def)
    then show ?thesis using same_but_links_live [OF w'(2)] by simp
  qed
  ultimately have ok': "cache_ok w'" by (auto simp: cache_ok_def)
  have c: "cached w' i a \<longleftrightarrow> cached w i a \<or> i = inum \<and> a = np" for i a
    using new by (auto simp: cached_links w'(4) set_prev_def split: option.splits)
  have "node_map w' i = ((node_map w)(inum \<mapsto> np)) i" for i
  proof (cases "i = inum")
    case True
    then show ?thesis using node_map_Some [OF ok'] c by simp
  next
    case False
    then have "node_map w' i = Some a \<longleftrightarrow> node_map w i = Some a" for a
      using node_map_Some [OF ok'] node_map_Some [OF ok] c by simp
    with False show ?thesis by (metis fun_upd_other not_None_eq)
  qed
  moreover have "np \<notin> ran (node_map w)"
    using fr by (auto simp: ran_def node_map_Some [OF ok] cached_def np_def)
  ultimately show ?thesis
    using w'(1,2) ok' by (auto simp: np_def w1_def fun_eq_iff)
qed

lemma drop_node_map:
  assumes ok: "cache_ok w" and some: "node_map w i = Some np"
  shows "\<exists>w' w1. hash_remove np w = run_return w1 \<and> same_but_links w w1
    \<and> w' = w1\<lparr>node_at := (node_at w1)(np := None)\<rparr> \<and> drop_node np w = run_return w'
    \<and> cache_ok w' \<and> node_map w' = (node_map w)(i := None)"
proof -
  obtain B where B: "table_ok (links_of w) (nodehash w) B" and fr: "\<And>a. a \<ge> node_fresh w \<Longrightarrow> node_at w a = None"
    using ok by (auto simp: cache_ok_def)
  obtain q r where l: "links_of w np = Some (i, q, r)" using some by (auto simp: node_map_Some [OF ok] cached_links)
  obtain w1 where w1: "hash_remove np w = run_return w1" "same_but_links w w1"
    "nodehash w1 = (case r of Bucket b \<Rightarrow> (nodehash w)(b := q) | Hnext _ \<Rightarrow> nodehash w)"
    "links_of w1 = set_prev q r (set_next r q (links_of w))"
    using hash_remove_links [OF B l] by blast
  define w' where "w' = w1\<lparr>node_at := (node_at w1)(np := None)\<rparr>"
  have L': "links_of w' = (set_prev q r (set_next r q (links_of w)))(np := None)"
    by (auto simp: w'_def links_of_def fun_eq_iff w1(4) [symmetric])
  have "table_ok (links_of w') (nodehash w') (B(INOHASH i := remove1 np (B (INOHASH i))))"
    unfolding L' using table_remove [OF B l] by (simp add: w'_def w1(3))
  moreover have "node_at w' a = None" if "a \<ge> node_fresh w'" for a
    using that fr [of a] same_but_links_live [OF w1(2), of a] w1(2) by (simp add: w'_def same_but_links_def)
  ultimately have ok': "cache_ok w'" by (auto simp: cache_ok_def)
  have c: "cached w' j a \<longleftrightarrow> cached w j a \<and> a \<noteq> np" for j a
    by (auto simp: cached_links L' set_prev_def set_next_def split: option.splits nextref.splits)
  have "node_map w' j = ((node_map w)(i := None)) j" for j
  proof -
    have "node_map w' j = Some a \<longleftrightarrow> node_map w j = Some a \<and> a \<noteq> np" for a
      using node_map_Some [OF ok'] node_map_Some [OF ok] c by simp
    moreover have "j = i" if "node_map w j = Some np" using that l by (auto simp: node_map_Some [OF ok] cached_links)
    ultimately have "node_map w' j = Some a \<longleftrightarrow> j \<noteq> i \<and> node_map w j = Some a" for a
      using some by (metis option.inject)
    then show ?thesis by (intro option_eqI) simp
  qed
  then show ?thesis using w1(1,2) ok' by (auto simp: drop_node_def w'_def fun_eq_iff)
qed

interpretation nt: node_table cache_ok node_map hash_search enter_node drop_node
proof unfold_locales
  show "hash_search w k = run_return (node_map w k)" if "cache_ok w" for w k using that by (rule hash_search_map)
  show "\<exists>a w'. enter_node n k w = run_return (a, w') \<and> cache_ok w' \<and> node_map w' = (node_map w)(k \<mapsto> a)
      \<and> a \<notin> ran (node_map w)" if "cache_ok w" "node_map w k = None" for n k w
    using enter_node_map [OF that, of n] by (auto simp: enter_node_def)
  show "\<exists>w'. drop_node a w = run_return w' \<and> cache_ok w' \<and> node_map w' = (node_map w)(k := None)"
    if "cache_ok w" "node_map w k = Some a" for a k w
    using drop_node_map [OF that] by blast
qed

section \<open>Properties of the cache\<close>

lemma inode_init_table: "nodehash (inode_init n w) b = (if b < n then None else nodehash w b)"
  "node_at (inode_init n w) = node_at w" "node_fresh (inode_init n w) = node_fresh w"
  by (induction n) auto

lemma inode_init_fields: "mem (inode_init n w) = mem w" "refcnt_lock (inode_init n w) = refcnt_lock w"
  by (induction n) auto

lemma inode_init_empty:
  assumes "\<And>a. node_at w a = None"
  shows "cache_ok (inode_init INOHSZ w) \<and> node_map (inode_init INOHSZ w) = Map.empty"
proof -
  have L: "links_of (inode_init INOHSZ w) a = None" for a by (simp add: links_of_def inode_init_table assms)
  have "table_ok (links_of (inode_init INOHSZ w)) (nodehash (inode_init INOHSZ w)) (\<lambda>_. [])"
    by (simp add: table_ok_def bucket_ok_def inode_init_table L)
  then show ?thesis
    using L by (auto simp: cache_ok_def inode_init_table assms node_map_def cached_links fun_eq_iff)
qed

text \<open>Updates that leave the links alone leave the invariant and the map alone.\<close>

lemma upd_node_links:
  assumes "\<And>n. cache_id (f n) = cache_id n \<and> hnext (dn (f n)) = hnext (dn n) \<and> hprevp (dn (f n)) = hprevp (dn n)"
  shows "links_of (upd_node a f w) = links_of w"
  using assms by (auto simp: links_of_def upd_node_def fun_eq_iff option.map_comp comp_def)

lemma cache_cong:
  assumes "links_of w' = links_of w" and "nodehash w' = nodehash w" and "node_fresh w' = node_fresh w"
  shows "cache_ok w' = cache_ok w" and "node_map w' = node_map w"
proof -
  have "node_at w' a = None \<longleftrightarrow> node_at w a = None" for a
    using fun_cong [OF assms(1), of a] by (metis live_links)
  with assms show "cache_ok w' = cache_ok w" by (simp add: cache_ok_def)
  have "cached w' = cached w" by (simp add: fun_eq_iff cached_links assms(1))
  then show "node_map w' = node_map w" by (intro ext) (simp add: node_map_def)
qed

lemma cache_fields [simp]:
  "links_of (w\<lparr>mem := h\<rparr>) = links_of w" "links_of (w\<lparr>refcnt_lock := l\<rparr>) = links_of w"
  "links_of (spin_unlock w) = links_of w"
  by (simp_all add: links_of_def fun_eq_iff spin_unlock_def)

text \<open>
  C13: dropping a node. For a cached node with no pager, \<^verbatim>\<open>diskfs_node_norefs\<close> returns; afterwards exactly the inode
  number of that node is no longer cached, the table is still well formed, the address is dead and the two blocks are
  given back. With a pager attached the assertion stops the process.
\<close>

theorem diskfs_node_norefs_correct:
  assumes "cache_ok w" and "node_map w i = Some np" and "node_at w np = Some n"
  shows "\<exists>w'. diskfs_node_norefs np w =
      (if fileinfo (dn n) = None then run_return w' else run_fault Assert_Failed)
    \<and> cache_ok w' \<and> node_map w' = (node_map w)(i := None)
    \<and> node_at w' np = None \<and> mh_live (mem w') = mh_live (mem w) - 2"
proof -
  obtain w1 where w1: "hash_remove np w = run_return w1" "same_but_links w w1"
    "cache_ok (w1\<lparr>node_at := (node_at w1)(np := None)\<rparr>)"
    "node_map (w1\<lparr>node_at := (node_at w1)(np := None)\<rparr>) = (node_map w)(i := None)"
    using drop_node_map [OF assms(1,2)] by blast
  have m: "mem w1 = mem w" using w1(2) by (simp add: same_but_links_def)
  obtain n1 where n1: "node_at w1 np = Some n1" and f: "fileinfo (dn n1) = fileinfo (dn n)"
    using same_but_links_node [OF w1(2) assms(3)] .
  define w' where "w' = w1\<lparr>node_at := (node_at w1)(np := None), mem := free_block (free_block (mem w1))\<rparr>"
  have "cache_ok w'" "node_map w' = (node_map w)(i := None)"
    using w1(3,4) cache_cong [of w' "w1\<lparr>node_at := (node_at w1)(np := None)\<rparr>"]
    by (simp_all add: w'_def links_of_def fun_eq_iff)
  moreover have "diskfs_node_norefs np w = run_check (fileinfo (dn n) = None) Assert_Failed (run_return w')"
    by (simp add: diskfs_node_norefs_def w1(1) with_node_def n1 f w'_def)
  ultimately show ?thesis using m by (intro exI [of _ w']) (simp add: run_check_def, simp add: w'_def)
qed

lemma cached_lookup_found:
  assumes "cache_ok w" and "\<not> refcnt_lock w" and "node_map w i = Some np" and "node_at w np = Some n"
  shows "diskfs_cached_lookup d s i w = (if node_lock n then None else
      run_return (0, Some np, w\<lparr>refcnt_lock := False,
        node_at := (node_at w)(np \<mapsto> n\<lparr>references := references n + 1, node_lock := True\<rparr>)\<rparr>))"
proof -
  define w1 where "w1 = w\<lparr>refcnt_lock := True\<rparr>"
  have "spin_lock w = run_return w1" using assms(2) by (simp add: spin_lock_def w1_def)
  moreover have "hash_search w1 i = run_return (Some np)"
    using nt.search_map [of w1 i] cache_cong [of w1 w] assms(1,3) by (simp add: w1_def)
  ultimately show ?thesis
    using assms(4) by (simp add: diskfs_cached_lookup_def w1_def spin_unlock_def mutex_lock_def with_node_def upd_node_def)
qed

text \<open>
  C12: a hit. When the inode is cached and its node is not locked, \<^verbatim>\<open>diskfs_cached_lookup\<close> returns 0 and that node, with
  one more reference and its lock taken; the cache is as before and the spin lock is free. When the node is locked the
  call waits.
\<close>

theorem cached_lookup_hit:
  assumes "cache_ok w" and "\<not> refcnt_lock w" and "node_map w i = Some np" and "node_at w np = Some n"
  shows "diskfs_cached_lookup d s i w = (if node_lock n then None else
      run_return (0, Some np, w\<lparr>refcnt_lock := False,
        node_at := (node_at w)(np \<mapsto> n\<lparr>references := references n + 1, node_lock := True\<rparr>)\<rparr>))"
  using cached_lookup_found [OF assms] .

text \<open>What \<^verbatim>\<open>read_node\<close> does, from what the inode map says of the inode.\<close>

definition inode_readable :: "fs \<Rightarrow> xtree \<Rightarrow> u64 \<Rightarrow> bool" where
  "inode_readable d t i \<longleftrightarrow> (\<forall>a. inode_address d t (unat (ucast i :: u32)) = Some a \<longrightarrow> a + 512 \<le> dk_size d)"

lemma read_node_outcome:
  assumes fs: "fs_ok d" and im: "imap_ok d FILESYSTEM_I t" and n: "node_at w np = Some n"
    and rd: "inode_readable d t (cache_id n)" and h: "mem_ok (mem w)" and l: "\<not> refcnt_lock w"
  shows "\<exists>h'. balanced (mem w) h' \<and> read_node d s np w =
    (case inode_address d t (unat (ucast (cache_id n) :: u32)) of
       None \<Rightarrow> run_return (1, w\<lparr>mem := h'\<rparr>)
     | Some a \<Rightarrow>
         if catch_exception s \<noteq> 0 then run_return (catch_exception s, w\<lparr>mem := h', refcnt_lock := True\<rparr>)
         else run_return (0, w\<lparr>mem := h', refcnt_lock := False, node_at := (node_at w)(np \<mapsto> n\<lparr>
           dn_stat := fill_stat s (cache_id n) (dinode_of (disk_slice d a 512)) (dn_stat n),
           author_tracks_uid := True\<rparr>)\<rparr>))"
proof -
  obtain a h1 where a: "find_inode d (ucast (cache_id n)) FILESYSTEM_I (mem w) = run_return (a, h1)" "balanced (mem w) h1"
    "map_option unat a = inode_address d t (unat (ucast (cache_id n) :: u32))"
    using find_inode_correct [OF fs im, of "ucast (cache_id n)" "mem w"] h by blast
  show ?thesis
  proof (cases a)
    case None
    with a n show ?thesis by (intro exI [of _ h1]) (simp add: read_node_def with_node_def FILESYSTEM_I_def)
  next
    case (Some p)
    then have p: "inode_address d t (unat (ucast (cache_id n) :: u32)) = Some (unat p)" using a(3) by simp
    then have "unat p + unat sizeof_dinode \<le> dk_size d" using rd by (simp add: inode_readable_def sizeof_dinode_def)
    then obtain h2 where r: "xRead d p sizeof_dinode h1 = run_return (Some (disk_slice d (unat p) 512), h2)"
      using xRead_returns [OF fs, of p sizeof_dinode h1] balanced_mem_ok [OF a(2) h] by (auto simp: sizeof_dinode_def)
    have "balanced (mem w) h2" using balanced_trans [OF a(2) xRead_balanced [OF r]] .
    with Some a(1) p r n l show ?thesis
      by (intro exI [of _ h2])
        (simp add: read_node_def with_node_def FILESYSTEM_I_def spin_lock_def spin_unlock_def upd_node_def)
  qed
qed

text \<open>The new node in the table, before it is filled.\<close>

lemma new_node_entered:
  assumes ok: "cache_ok w" and l: "\<not> refcnt_lock w" and none: "node_map w i = None"
  obtains u n where "spin_lock w = run_return (w\<lparr>refcnt_lock := True\<rparr>)" and "hash_search (w\<lparr>refcnt_lock := True\<rparr>) i = run_return None"
    and "hash_insert (node_fresh w) i (place_node n0 i (w\<lparr>refcnt_lock := True, mem := h2\<rparr>)) = run_return u"
    and "cache_ok (spin_unlock u)" and "node_map (spin_unlock u) = (node_map w)(i \<mapsto> node_fresh w)" and "mem (spin_unlock u) = h2"
    and "\<not> refcnt_lock (spin_unlock u)" and "node_at (spin_unlock u) (node_fresh w) = Some n" and "cache_id n = i"
    and "references n = references n0" and "node_lock n = node_lock n0" and "dn_stat n = dn_stat n0" and "fileinfo (dn n) = None"
proof -
  define np where "np = node_fresh w"
  define w1 where "w1 = w\<lparr>refcnt_lock := True, mem := h2\<rparr>"
  have c1: "cache_ok w1" "node_map w1 = node_map w" using cache_cong [of w1 w] ok by (simp_all add: w1_def)
  have lk: "spin_lock w = run_return (w\<lparr>refcnt_lock := True\<rparr>)" using l by (simp add: spin_lock_def)
  have hs: "hash_search (w\<lparr>refcnt_lock := True\<rparr>) i = run_return None"
    using nt.search_map [of "w\<lparr>refcnt_lock := True\<rparr>" i] cache_cong [of "w\<lparr>refcnt_lock := True\<rparr>" w] ok none by simp
  have np1: "node_fresh w1 = np" by (simp add: w1_def np_def)
  obtain w2 where w2: "hash_insert np i (place_node n0 i w1) = run_return w2"
    "same_but_links (place_node n0 i w1) w2" "cache_ok w2" "node_map w2 = (node_map w)(i \<mapsto> np)"
    using enter_node_map [OF c1(1), of i n0] c1(2) none np1 by auto
  define n1 where "n1 = n0\<lparr>cache_id := i, dn := (dn n0)\<lparr>fileinfo := None\<rparr>\<rparr>"
  have "node_at (place_node n0 i w1) np = Some n1" by (simp add: place_node_def np1 n1_def)
  then obtain n2 where n2: "node_at w2 np = Some n2" "cache_id n2 = cache_id n1" "references n2 = references n1"
    "node_lock n2 = node_lock n1" "dn_stat n2 = dn_stat n1" "fileinfo (dn n2) = fileinfo (dn n1)"
    using same_but_links_node [OF w2(2)] by metis
  have mem2: "mem w2 = h2" using w2(2) by (simp add: same_but_links_def place_node_def w1_def)
  have "cache_ok (spin_unlock w2)" "node_map (spin_unlock w2) = (node_map w)(i \<mapsto> np)"
    using cache_cong [of "spin_unlock w2" w2] w2(3,4) by (simp_all add: spin_unlock_def)
  with lk hs w2(1) show ?thesis
    by (intro that [of w2 n2]) (use n2 mem2 in \<open>simp_all add: np_def w1_def n1_def spin_unlock_def\<close>)
qed

lemma cached_lookup_enter:
  assumes ok: "cache_ok w" and l: "\<not> refcnt_lock w" and none: "node_map w i = None"
    and m: "malloc (mem w) = (True, h1)" "make_node s h1 = (Some n0, h2)"
  obtains u n where "diskfs_cached_lookup d s i w = run_bind (read_node d s (node_fresh w) u)
      (\<lambda>(err, w'). run_return (err, Some (node_fresh w),
        upd_node (node_fresh w) (\<lambda>n. n\<lparr>references := references n + 1\<rparr>) w'))"
    and "cache_ok u" and "node_map u = (node_map w)(i \<mapsto> node_fresh w)" and "mem u = h2" and "\<not> refcnt_lock u"
    and "node_at u (node_fresh w) = Some n" and "cache_id n = i" and "references n = references n0"
    and "node_lock n = node_lock n0" and "dn_stat n = dn_stat n0" and "fileinfo (dn n) = None"
proof -
  obtain u n where u: "spin_lock w = run_return (w\<lparr>refcnt_lock := True\<rparr>)" "hash_search (w\<lparr>refcnt_lock := True\<rparr>) i = run_return None"
    "hash_insert (node_fresh w) i (place_node n0 i (w\<lparr>refcnt_lock := True, mem := h2\<rparr>)) = run_return u"
    and n: "cache_ok (spin_unlock u)" "node_map (spin_unlock u) = (node_map w)(i \<mapsto> node_fresh w)" "mem (spin_unlock u) = h2"
    "\<not> refcnt_lock (spin_unlock u)" "node_at (spin_unlock u) (node_fresh w) = Some n" "cache_id n = i"
    "references n = references n0" "node_lock n = node_lock n0" "dn_stat n = dn_stat n0" "fileinfo (dn n) = None"
    by (rule new_node_entered [OF ok l none])
  have "diskfs_cached_lookup d s i w = run_bind (read_node d s (node_fresh w) (spin_unlock u)) (\<lambda>(err, w').
      run_return (err, Some (node_fresh w), upd_node (node_fresh w) (\<lambda>n. n\<lparr>references := references n + 1\<rparr>) w'))"
    using u by (simp add: diskfs_cached_lookup_def m Let_def)
  from that [OF this n] show ?thesis .
qed

lemma cached_lookup_new:
  assumes fs: "fs_ok d" and im: "imap_ok d FILESYSTEM_I t" and rd: "inode_readable d t i"
    and ok: "cache_ok w" and l: "\<not> refcnt_lock w" and none: "node_map w i = None"
    and m: "malloc (mem w) = (True, h1)" "make_node s h1 = (Some n0, h2)" "mem_ok h2"
  shows "\<exists>err w' n. diskfs_cached_lookup d s i w = run_return (err, Some (node_fresh w), w')
    \<and> cache_ok w' \<and> node_map w' = (node_map w)(i \<mapsto> node_fresh w) \<and> node_at w' (node_fresh w) = Some n
    \<and> cache_id n = i \<and> fileinfo (dn n) = None \<and> references n = references n0 + 1 \<and> node_lock n = node_lock n0 \<and> mem_ok (mem w')
    \<and> (case inode_address d t (unat (ucast i :: u32)) of
         None \<Rightarrow> err = 1 \<and> \<not> refcnt_lock w'
       | Some a \<Rightarrow> err = catch_exception s \<and> (refcnt_lock w' \<longleftrightarrow> err \<noteq> 0)
           \<and> (err = 0 \<longrightarrow> dn_stat n = fill_stat s i (dinode_of (disk_slice d a 512)) (dn_stat n0)))"
proof -
  define np where "np = node_fresh w"
  obtain u n where eq: "diskfs_cached_lookup d s i w = run_bind (read_node d s np u) (\<lambda>(err, w'). run_return (err, Some np,
      upd_node np (\<lambda>n. n\<lparr>references := references n + 1\<rparr>) w'))"
    and u: "cache_ok u" "node_map u = (node_map w)(i \<mapsto> np)" "mem u = h2" "\<not> refcnt_lock u" "node_at u np = Some n"
    and n: "cache_id n = i" "references n = references n0" "node_lock n = node_lock n0" "dn_stat n = dn_stat n0" "fileinfo (dn n) = None"
    using cached_lookup_enter [OF ok l none m(1,2), of d] unfolding np_def .
  obtain h' where bal: "balanced h2 h'" and rn: "read_node d s np u =
    (case inode_address d t (unat (ucast i :: u32)) of
       None \<Rightarrow> run_return (1, u\<lparr>mem := h'\<rparr>)
     | Some a \<Rightarrow>
         if catch_exception s \<noteq> 0 then run_return (catch_exception s, u\<lparr>mem := h', refcnt_lock := True\<rparr>)
         else run_return (0, u\<lparr>mem := h', refcnt_lock := False, node_at := (node_at u)(np \<mapsto> n\<lparr>
           dn_stat := fill_stat s i (dinode_of (disk_slice d a 512)) (dn_stat n), author_tracks_uid := True\<rparr>)\<rparr>))"
    using read_node_outcome [OF fs im u(5), of s] rd m(3) u(3,4) unfolding n(1) by blast
  define up where "up w = upd_node np (\<lambda>n. n\<lparr>references := references n + 1\<rparr>) w" for w
  have keep: "cache_ok (up w')" "node_map (up w') = (node_map w)(i \<mapsto> np)"
    if "links_of w' = links_of u" "nodehash w' = nodehash u" "node_fresh w' = node_fresh u" for w'
  proof -
    have "links_of (up w') = links_of u" "nodehash (up w') = nodehash u" "node_fresh (up w') = node_fresh u"
      using that by (simp_all add: up_def upd_node_links) (simp add: upd_node_def)
    from cache_cong [OF this] u(1,2) show "cache_ok (up w')" "node_map (up w') = (node_map w)(i \<mapsto> np)" by simp_all
  qed
  have links: "links_of (u\<lparr>mem := h', refcnt_lock := b, node_at := (node_at u)(np \<mapsto> n\<lparr>dn_stat := st,
      author_tracks_uid := True\<rparr>)\<rparr>) = links_of u" for b st
    using u(5) by (auto simp: links_of_def fun_eq_iff)
  have at: "node_at (up w') np = map_option (\<lambda>n. n\<lparr>references := references n + 1\<rparr>) (node_at w' np)"
    "refcnt_lock (up w') = refcnt_lock w'" "mem (up w') = mem w'" for w' by (simp_all add: up_def upd_node_def)
  show ?thesis
    unfolding eq rn np_def [symmetric] up_def [symmetric] using n u balanced_mem_ok [OF bal m(3)]
    by (cases "inode_address d t (unat (ucast i :: u32))") (simp_all add: keep at links)
qed

text \<open>
  C11: a miss. With memory at hand, \<^verbatim>\<open>diskfs_cached_lookup\<close> of an inode that is not cached makes a node, enters it
  under that number and returns it with one reference more than the library gave it. The code is 0 exactly when the
  inode was read, and then the node carries the inode's data. When the inode cannot be read the node is entered all the
  same. Unlike after a hit, the node's lock is not taken.
\<close>

theorem cached_lookup_miss:
  assumes fs: "fs_ok d" and im: "imap_ok d FILESYSTEM_I t" and rd: "inode_readable d t i"
    and ok: "cache_ok w" and l: "\<not> refcnt_lock w" and none: "node_map w i = None"
    and m: "malloc (mem w) = (True, h1)" "make_node s h1 = (Some n0, h2)" "mem_ok h2"
  shows "\<exists>err w' n. diskfs_cached_lookup d s i w = run_return (err, Some (node_fresh w), w')
    \<and> cache_ok w' \<and> node_map w' = (node_map w)(i \<mapsto> node_fresh w) \<and> node_at w' (node_fresh w) = Some n
    \<and> cache_id n = i \<and> fileinfo (dn n) = None \<and> references n = references n0 + 1 \<and> node_lock n = node_lock n0 \<and> mem_ok (mem w')
    \<and> (case inode_address d t (unat (ucast i :: u32)) of
         None \<Rightarrow> err = 1 \<and> \<not> refcnt_lock w'
       | Some a \<Rightarrow> err = catch_exception s \<and> (refcnt_lock w' \<longleftrightarrow> err \<noteq> 0)
           \<and> (err = 0 \<longrightarrow> dn_stat n = fill_stat s i (dinode_of (disk_slice d a 512)) (dn_stat n0)))"
  using cached_lookup_new [OF assms] .

text \<open>
  C25: an exception while a node is filled. \<^verbatim>\<open>read_node\<close> returns the error of \<^verbatim>\<open>diskfs_catch_exception\<close> with
  \<^verbatim>\<open>diskfs_node_refcnt_lock\<close> still held: every later lookup waits for that lock for ever.
\<close>

theorem cached_lookup_exception:
  assumes fs: "fs_ok d" and im: "imap_ok d FILESYSTEM_I t" and rd: "inode_readable d t i"
    and "cache_ok w" and "\<not> refcnt_lock w" and "node_map w i = None"
    and "malloc (mem w) = (True, h1)" and "make_node s h1 = (Some n0, h2)" and h: "mem_ok h2"
    and a: "inode_address d t (unat (ucast i :: u32)) = Some a" and e: "catch_exception s \<noteq> 0"
  shows "\<exists>w'. diskfs_cached_lookup d s i w = run_return (catch_exception s, Some (node_fresh w), w')
    \<and> (\<forall>s' j. diskfs_cached_lookup d s' j w' = None)"
proof -
  obtain u n where eq: "diskfs_cached_lookup d s i w = run_bind (read_node d s (node_fresh w) u)
      (\<lambda>(err, w'). run_return (err, Some (node_fresh w),
        upd_node (node_fresh w) (\<lambda>n. n\<lparr>references := references n + 1\<rparr>) w'))"
    and u: "mem u = h2" "\<not> refcnt_lock u" "node_at u (node_fresh w) = Some n" "cache_id n = i"
    by (rule cached_lookup_enter [OF assms(4-8), of d])
  from read_node_outcome [OF fs im u(3), of s] rd h u a e obtain h' where
    "read_node d s (node_fresh w) u = run_return (catch_exception s, u\<lparr>mem := h', refcnt_lock := True\<rparr>)" by auto
  moreover have "diskfs_cached_lookup d s' j w' = None" if "refcnt_lock w'" for s' j w'
    using that by (simp add: diskfs_cached_lookup_def spin_lock_def)
  ultimately show ?thesis by (simp add: eq upd_node_def)
qed

text \<open>
  C26: no memory. When one of the two allocations of a miss fails, \<^verbatim>\<open>diskfs_cached_lookup\<close> returns \<^verbatim>\<open>ENOMEM\<close> and no node;
  the cache is unchanged, the spin lock is free and, if the library leaks nothing, no block is leaked.
\<close>

theorem cached_lookup_nomem:
  assumes "cache_ok w" and "\<not> refcnt_lock w" and "node_map w i = None"
    and "\<not> fst (malloc (mem w)) \<or>
      fst (make_node s (snd (malloc (mem w)))) = None \<and>
      mh_live (snd (make_node s (snd (malloc (mem w))))) = mh_live (snd (malloc (mem w)))"
  shows "\<exists>w'. diskfs_cached_lookup d s i w = run_return (ENOMEM, None, w') \<and> cache_ok w'
    \<and> node_map w' = node_map w \<and> \<not> refcnt_lock w' \<and> mh_live (mem w') = mh_live (mem w)"
proof -
  have lk: "spin_lock w = run_return (w\<lparr>refcnt_lock := True\<rparr>)" using assms(2) by (simp add: spin_lock_def)
  have hs: "hash_search (w\<lparr>refcnt_lock := True\<rparr>) i = run_return None"
    using nt.search_map [of "w\<lparr>refcnt_lock := True\<rparr>" i] cache_cong [of "w\<lparr>refcnt_lock := True\<rparr>" w] assms(1,3) by simp
  obtain ok h1 where m: "malloc (mem w) = (ok, h1)" by (cases "malloc (mem w)")
  obtain n h2 where mk: "make_node s h1 = (n, h2)" by (cases "make_node s h1")
  define h' where "h' = (if ok then free_block h2 else h1)"
  have "diskfs_cached_lookup d s i w = run_return (ENOMEM, None, w\<lparr>refcnt_lock := False, mem := h'\<rparr>)"
    using assms(4) by (auto simp: diskfs_cached_lookup_def lk hs m mk spin_unlock_def h'_def Let_def)
  moreover have "mh_live h' = mh_live (mem w)"
    using assms(4) malloc_live [of "mem w"] by (auto simp: m mk h'_def)
  moreover have "cache_ok (w\<lparr>refcnt_lock := False, mem := h'\<rparr>)" "node_map (w\<lparr>refcnt_lock := False, mem := h'\<rparr>) = node_map w"
    using cache_cong [of "w\<lparr>refcnt_lock := False, mem := h'\<rparr>" w] assms(1) by simp_all
  ultimately show ?thesis by auto
qed

text \<open>
  The table is a map. Entering a node under a number that is not cached makes exactly that number lead to the new
  node; dropping the node again makes every search give what it gave before.
\<close>

lemma node_table_roundtrip:
  assumes "cache_ok w" and "node_map w i = None"
  shows "\<exists>a w' w''. enter_node n i w = run_return (a, w')
    \<and> (\<forall>j. hash_search w' j = (if j = i then run_return (Some a) else hash_search w j))
    \<and> drop_node a w' = run_return w'' \<and> cache_ok w'' \<and> (\<forall>j. hash_search w'' j = hash_search w j)"
  using nt.enter_search [OF assms, of n] nt.enter_drop [OF assms, of n] nt.search_map [OF assms(1)] by auto

section \<open>Sequences of calls\<close>

text \<open>
  One call on the cache that returns: a lookup, the end of a node, the taking or release of a node's lock, a change of its
  reference count by the library, allocations by the rest of the process.
\<close>

inductive cache_step :: "fs \<Rightarrow> nodes \<Rightarrow> nodes \<Rightarrow> bool" for d where
  lookup: "diskfs_cached_lookup d s i w = run_return (err, r, w') \<Longrightarrow> cache_step d w w'"
| norefs: "diskfs_node_norefs np w = run_return w' \<Longrightarrow> cache_step d w w'"
| unlock: "mutex_unlock np w = run_return w' \<Longrightarrow> cache_step d w w'"
| lock: "mutex_lock np w = run_return w' \<Longrightarrow> cache_step d w w'"
| refs: "cache_step d w (upd_node np (references_update f) w)"
| heap: "cache_step d w (w\<lparr>mem := h\<rparr>)"

text \<open>The states after the table was initialised and any number of calls returned.\<close>

inductive cache_reach :: "fs \<Rightarrow> nodes \<Rightarrow> bool" for d where
  init: "(\<And>a. node_at w a = None) \<Longrightarrow> cache_reach d (inode_init INOHSZ w)"
| step: "cache_reach d w \<Longrightarrow> cache_step d w w' \<Longrightarrow> cache_reach d w'"

text \<open>The pager structure a live node points to.\<close>

definition pager_of :: "nodes \<Rightarrow> nat \<Rightarrow> nat option" where
  "pager_of w a = Option.bind (node_at w a) (\<lambda>n. fileinfo (dn n))"

definition same_cache :: "nodes \<Rightarrow> nodes \<Rightarrow> bool" where
  "same_cache w w' \<longleftrightarrow> links_of w' = links_of w \<and> nodehash w' = nodehash w \<and> node_fresh w' = node_fresh w
     \<and> pager_of w' = pager_of w"

lemma pager_of_fields [simp]:
  "pager_of (w\<lparr>mem := h\<rparr>) = pager_of w" "pager_of (w\<lparr>refcnt_lock := l\<rparr>) = pager_of w" "pager_of (spin_unlock w) = pager_of w"
  by (simp_all add: pager_of_def fun_eq_iff spin_unlock_def)

lemma pager_of_upd: "(\<And>n. fileinfo (dn (f n)) = fileinfo (dn n)) \<Longrightarrow> pager_of (upd_node a f w) = pager_of w"
  by (auto simp: pager_of_def upd_node_def fun_eq_iff split: bind_splits)

lemma pager_of_links: "same_but_links w w' \<Longrightarrow> pager_of w' = pager_of w"
proof
  fix a
  assume s: "same_but_links w w'"
  show "pager_of w' a = pager_of w a"
  proof (cases "node_at w a")
    case None
    with same_but_links_live [OF s, of a] show ?thesis by (simp add: pager_of_def)
  next
    case (Some n)
    obtain n' where "node_at w' a = Some n'" "fileinfo (dn n') = fileinfo (dn n)"
      using same_but_links_node [OF s Some] .
    with Some show ?thesis by (simp add: pager_of_def)
  qed
qed

lemma same_cache_ok:
  "same_cache w w' \<Longrightarrow> cache_ok w' = cache_ok w \<and> node_map w' = node_map w \<and> pager_of w' = pager_of w"
  using cache_cong [of w' w] by (simp add: same_cache_def)

lemma same_cache_refl [simp]: "same_cache w w"
  by (simp add: same_cache_def)

lemma same_cache_trans: "same_cache w w' \<Longrightarrow> same_cache w' w'' \<Longrightarrow> same_cache w w''"
  by (simp add: same_cache_def)

lemma same_cache_upd [intro]:
  assumes "\<And>n. cache_id (f n) = cache_id n \<and> dn (f n) = dn n"
  shows "same_cache w (upd_node a f w)"
  using assms by (simp add: same_cache_def upd_node_links pager_of_upd) (simp add: upd_node_def)

lemma same_cache_fields [simp]:
  "same_cache w (w'\<lparr>mem := h\<rparr>) = same_cache w w'" "same_cache w (w'\<lparr>refcnt_lock := l\<rparr>) = same_cache w w'"
  "same_cache w (spin_unlock w') = same_cache w w'" "same_cache (spin_unlock w) w' = same_cache w w'"
  by (simp_all add: same_cache_def) (simp_all add: spin_unlock_def)

lemma spin_lock_same: "spin_lock w = run_return w' \<Longrightarrow> same_cache w w'"
  by (auto simp: spin_lock_def split: if_splits)

lemma mutex_same:
  "mutex_lock a w = run_return w' \<Longrightarrow> same_cache w w'" "mutex_unlock a w = run_return w' \<Longrightarrow> same_cache w w'"
  by (auto simp: mutex_lock_def mutex_unlock_def with_node_def split: option.splits if_splits)

lemma read_node_same:
  assumes "read_node d s np w = run_return (err, w')"
  shows "same_cache w w'"
proof -
  have "same_cache w (upd_node np (\<lambda>n. n\<lparr>dn_stat := f n, author_tracks_uid := True\<rparr>) (w\<lparr>mem := h, refcnt_lock := True\<rparr>))" for f h
    by (rule same_cache_trans [of _ "w\<lparr>mem := h, refcnt_lock := True\<rparr>"]) auto
  then show ?thesis
    using assms by (cases "catch_exception s = 0")
      (auto simp: read_node_def with_node_def run_iff spin_lock_def split: option.splits if_splits)
qed

text \<open>What a client sees of a node: its number and its attributes.\<close>

definition attr_of :: "nodes \<Rightarrow> nat \<Rightarrow> (u64 \<times> stat) option" where
  "attr_of w a = map_option (\<lambda>n. (cache_id n, dn_stat n)) (node_at w a)"

lemma attr_of_fields [simp]:
  "attr_of (w\<lparr>mem := h\<rparr>) = attr_of w" "attr_of (w\<lparr>refcnt_lock := l\<rparr>) = attr_of w" "attr_of (spin_unlock w) = attr_of w"
  "attr_of (w\<lparr>node_at := (node_at w)(a := x)\<rparr>) = (attr_of w)(a := map_option (\<lambda>n. (cache_id n, dn_stat n)) x)"
  by (simp_all add: attr_of_def fun_eq_iff spin_unlock_def)

lemma attr_of_upd: "(\<And>n. cache_id (f n) = cache_id n \<and> dn_stat (f n) = dn_stat n) \<Longrightarrow> attr_of (upd_node a f w) = attr_of w"
  by (auto simp: attr_of_def upd_node_def fun_eq_iff option.map_comp comp_def)

lemma attr_of_links: "same_but_links w w' \<Longrightarrow> attr_of w' = attr_of w"
proof
  fix a
  assume s: "same_but_links w w'"
  show "attr_of w' a = attr_of w a"
  proof (cases "node_at w a")
    case None
    with same_but_links_live [OF s, of a] show ?thesis by (simp add: attr_of_def)
  next
    case (Some n)
    obtain n' where "node_at w' a = Some n'" "cache_id n' = cache_id n" "dn_stat n' = dn_stat n"
      using same_but_links_node [OF s Some] .
    with Some show ?thesis by (simp add: attr_of_def)
  qed
qed

lemma read_node_attr: "read_node d s np w = run_return (err, w') \<Longrightarrow> a \<noteq> np \<Longrightarrow> attr_of w' a = attr_of w a"
  by (cases "catch_exception s = 0")
    (auto simp: read_node_def with_node_def run_iff spin_lock_def spin_unlock_def upd_node_def attr_of_def split: option.splits if_splits)

text \<open>Whatever the disk holds, a lookup that returns adds at most the number it was asked for.\<close>

lemma cached_lookup_keeps:
  assumes ok: "cache_ok w" and ret: "diskfs_cached_lookup d s i w = run_return (err, r, w')"
  shows "cache_ok w' \<and> (node_map w' = node_map w \<or> node_map w i = None \<and> node_map w' = (node_map w)(i \<mapsto> node_fresh w))
    \<and> (\<forall>a u. pager_of w' a = Some u \<longrightarrow> pager_of w a = Some u)"
proof -
  obtain w1 where w1: "spin_lock w = run_return w1" using ret by (auto simp: diskfs_cached_lookup_def run_bind_return_iff)
  note s1 = spin_lock_same [OF w1]
  have ok1: "cache_ok w1" "node_map w1 = node_map w" "node_fresh w1 = node_fresh w" "pager_of w1 = pager_of w"
    using same_cache_ok [OF s1] ok s1 by (simp_all add: same_cache_def)
  have hs: "hash_search w1 i = run_return (node_map w i)" using nt.search_map [OF ok1(1)] ok1(2) by simp
  show ?thesis
  proof (cases "node_map w i")
    case (Some np)
    then obtain w2 where "mutex_lock np (spin_unlock (upd_node np (\<lambda>n. n\<lparr>references := references n + 1\<rparr>) w1)) = run_return w2" "w' = w2"
      using ret hs w1 by (auto simp: diskfs_cached_lookup_def Let_def run_bind_return_iff)
    then have "same_cache (upd_node np (\<lambda>n. n\<lparr>references := references n + 1\<rparr>) w1) w'"
      using mutex_same(1) [of np "spin_unlock (upd_node np (\<lambda>n. n\<lparr>references := references n + 1\<rparr>) w1)" w2] by simp
    then have "same_cache w1 w'" by (rule same_cache_trans [rotated]) auto
    from same_cache_ok [OF this] ok1 show ?thesis by simp
  next
    case None
    obtain okm h1 where m: "malloc (mem w1) = (okm, h1)" by (cases "malloc (mem w1)")
    obtain n h2 where mk: "make_node s h1 = (n, h2)" by (cases "make_node s h1")
    show ?thesis
    proof (cases "okm \<and> n \<noteq> None")
      case False
      then have "same_cache w1 w'"
        using ret hs w1 None m mk by (auto simp: diskfs_cached_lookup_def Let_def split: if_splits)
      from same_cache_ok [OF this] ok1 show ?thesis by simp
    next
      case True
      then obtain n0 where n0: "okm" "n = Some n0" by auto
      define w2 where "w2 = w1\<lparr>mem := h2\<rparr>"
      have w2: "cache_ok w2" "node_map w2 i = None" "node_fresh w2 = node_fresh w" "pager_of w2 = pager_of w"
        using same_cache_ok [of w1 w2] ok1 None by (simp_all add: w2_def)
      obtain w3 where w3: "hash_insert (node_fresh w2) i (place_node n0 i w2) = run_return w3" "cache_ok w3"
        "node_map w3 = (node_map w2)(i \<mapsto> node_fresh w2)" "same_but_links (place_node n0 i w2) w3"
        using enter_node_map [OF w2(1,2), of n0] by blast
      then obtain w4 where "read_node d s (node_fresh w2) (spin_unlock w3) = run_return (err, w4)"
        "w' = upd_node (node_fresh w2) (\<lambda>n. n\<lparr>references := references n + 1\<rparr>) w4"
        using ret hs w1 None m mk n0 by (auto simp: diskfs_cached_lookup_def Let_def w2_def run_bind_return_iff)
      then have "same_cache w3 w4" "same_cache w4 w'" using read_node_same by fastforce+
      then have "same_cache w3 w'" by (rule same_cache_trans)
      moreover have "pager_of w3 = (pager_of w)(node_fresh w2 := None)"
        using pager_of_links [OF w3(4)] w2(4) by (auto simp: place_node_def pager_of_def fun_eq_iff)
      moreover have "node_map w2 = node_map w" using same_cache_ok [of w1 w2] ok1(2) by (simp add: w2_def)
      ultimately show ?thesis
        using same_cache_ok [of w3 w'] w3(2,3) w2(3) None by (auto split: if_splits)
    qed
  qed
qed

lemma live_cached: "cache_ok w \<Longrightarrow> node_at w np = Some n \<Longrightarrow> node_map w (cache_id n) = Some np"
  by (simp add: node_map_Some cached_def)

text \<open>A node that ends leaves the table and the store; the other nodes change in their links only.\<close>

lemma node_norefs_effect:
  assumes ok: "cache_ok w" and ret: "diskfs_node_norefs np w = run_return w'"
  obtains n w1 where "node_at w np = Some n" and "node_map w (cache_id n) = Some np" and "same_but_links w w1"
    and "cache_ok (w1\<lparr>node_at := (node_at w1)(np := None)\<rparr>)"
    and "node_map (w1\<lparr>node_at := (node_at w1)(np := None)\<rparr>) = (node_map w)(cache_id n := None)"
    and "w' = w1\<lparr>node_at := (node_at w1)(np := None), mem := free_block (free_block (mem w1))\<rparr>"
proof -
  obtain n where n: "node_at w np = Some n"
    using ret by (auto simp: diskfs_node_norefs_def hash_remove_def with_node_def run_bind_return_iff split: option.splits)
  note np = live_cached [OF ok n]
  obtain w1 where w1: "hash_remove np w = run_return w1"
    "cache_ok (w1\<lparr>node_at := (node_at w1)(np := None)\<rparr>)"
    "node_map (w1\<lparr>node_at := (node_at w1)(np := None)\<rparr>) = (node_map w)(cache_id n := None)" "same_but_links w w1"
    using drop_node_map [OF ok np] by blast
  have "w' = w1\<lparr>node_at := (node_at w1)(np := None), mem := free_block (free_block (mem w1))\<rparr>"
    using ret w1(1) by (auto simp: diskfs_node_norefs_def with_node_def run_iff split: option.splits)
  from that [OF n np w1(4,2,3) this] show ?thesis .
qed

lemma node_norefs_keeps:
  assumes ok: "cache_ok w" and ret: "diskfs_node_norefs np w = run_return w'"
  shows "cache_ok w' \<and> (\<exists>i. node_map w i = Some np \<and> node_map w' = (node_map w)(i := None))
    \<and> pager_of w' = (pager_of w)(np := None)"
proof -
  obtain n w1 where "node_at w np = Some n" and n: "node_map w (cache_id n) = Some np" and w1: "same_but_links w w1"
    "cache_ok (w1\<lparr>node_at := (node_at w1)(np := None)\<rparr>)"
    "node_map (w1\<lparr>node_at := (node_at w1)(np := None)\<rparr>) = (node_map w)(cache_id n := None)"
    and w': "w' = w1\<lparr>node_at := (node_at w1)(np := None), mem := free_block (free_block (mem w1))\<rparr>"
    by (rule node_norefs_effect [OF assms])
  have "same_cache (w1\<lparr>node_at := (node_at w1)(np := None)\<rparr>) w'"
    "pager_of w' = (pager_of w)(np := None)"
    using pager_of_links [OF w1(1)] by (auto simp: w' same_cache_def links_of_def pager_of_def fun_eq_iff)
  with same_cache_ok [of "w1\<lparr>node_at := (node_at w1)(np := None)\<rparr>" w'] w1(2,3) n show ?thesis by auto
qed

text \<open>A lookup that misses leaves the attributes of all nodes that were there.\<close>

lemma cached_lookup_attr:
  assumes ok: "cache_ok w" and none: "node_map w i = None" and l: "\<not> refcnt_lock w"
    and m: "malloc (mem w) = (True, h1)" "make_node s h1 = (Some n0, h2)"
    and ret: "diskfs_cached_lookup d s i w = run_return (err, r, w')" and a: "a \<noteq> node_fresh w"
  shows "attr_of w' a = attr_of w a"
proof -
  obtain u where u: "spin_lock w = run_return (w\<lparr>refcnt_lock := True\<rparr>)" "hash_search (w\<lparr>refcnt_lock := True\<rparr>) i = run_return None"
    "hash_insert (node_fresh w) i (place_node n0 i (w\<lparr>refcnt_lock := True, mem := h2\<rparr>)) = run_return u"
    by (rule new_node_entered [OF ok l none])
  have c: "cache_ok (w\<lparr>refcnt_lock := True, mem := h2\<rparr>)" "node_map (w\<lparr>refcnt_lock := True, mem := h2\<rparr>) i = None"
    using same_cache_ok [of w "w\<lparr>refcnt_lock := True, mem := h2\<rparr>"] ok none by simp_all
  have "same_but_links (place_node n0 i (w\<lparr>refcnt_lock := True, mem := h2\<rparr>)) u"
    using enter_node_map [OF c, of n0] u(3) by auto
  then have "attr_of u a = attr_of w a" using attr_of_links a by (simp add: place_node_def) (simp add: attr_of_def)
  moreover obtain v where "read_node d s (node_fresh w) (spin_unlock u) = run_return (err, v)"
    "w' = upd_node (node_fresh w) (\<lambda>n. n\<lparr>references := references n + 1\<rparr>) v"
    using ret u by (auto simp: diskfs_cached_lookup_def m Let_def run_bind_return_iff)
  moreover from this(1) a have "attr_of v a = attr_of u a" using read_node_attr [of d s _ "spin_unlock u" err v a] by simp
  ultimately show ?thesis by (simp add: attr_of_upd)
qed

lemma cache_step_keeps:
  "cache_step d w w' \<Longrightarrow> cache_ok w \<Longrightarrow> cache_ok w' \<and> (\<forall>a u. pager_of w' a = Some u \<longrightarrow> pager_of w a = Some u)"
proof (induction rule: cache_step.induct)
  case (unlock np w w')
  from same_cache_ok [OF mutex_same(2) [OF unlock(1)]] unlock(2) show ?case by simp
next
  case (lock np w w')
  from same_cache_ok [OF mutex_same(1) [OF lock(1)]] lock(2) show ?case by simp
next
  case (refs w np f)
  have "same_cache w (upd_node np (references_update f) w)" by (rule same_cache_upd) simp
  from same_cache_ok [OF this] refs show ?case by simp
next
  case (heap w h)
  with same_cache_ok [of w "w\<lparr>mem := h\<rparr>"] show ?case by simp
next
  case (lookup s i w err r w')
  then show ?case using cached_lookup_keeps by blast
next
  case (norefs np w w')
  with node_norefs_keeps [of w np w'] show ?case by (auto split: if_splits)
qed

text \<open>
  The cache stays well formed. After \<^verbatim>\<open>inode_init\<close> and any sequence of lookups, ends of nodes, changes of locks and
  of reference counts, on any disk and with any failures, the table is well formed: a search along a bucket always
  ends, and it finds a node exactly when a live node has that number, of which there is at most one.
\<close>

lemma cache_reach_searches:
  assumes "cache_reach d w"
  shows "\<exists>r. hash_search w i = run_return r \<and> (\<forall>a. r = Some a \<longleftrightarrow> cached w i a)"
proof -
  have "cache_ok w" using assms
    by (induction rule: cache_reach.induct) (auto simp: inode_init_empty dest: cache_step_keeps)
  then show ?thesis by (simp add: nt.search_map node_map_Some)
qed

end
