(* ===== verification/Jfs_Pager.thy ===== *)
theory Jfs_Pager
  imports Jfs_Fileread Jfs_Nodes
begin

text \<open>
  The user pager, \<^verbatim>\<open>pager.c\<close>: the pager attached to a node (\<^verbatim>\<open>diskfs_get_filemap\<close>, \<^verbatim>\<open>pager_clear_user_data\<close>), reading a page
  of a file or of the disk (\<^verbatim>\<open>pager_read_page\<close>), and the functions that turn caching on and off.

  The calls into \<^verbatim>\<open>libports\<close>, \<^verbatim>\<open>libpager\<close> and \<^verbatim>\<open>libdiskfs\<close> that only act there are recorded, in order, in \<open>calls\<close>; what
  those libraries answer is a parameter and may depend on the calls made so far. The store is a parameter as well.
  \<^verbatim>\<open>vm_offset_t\<close>, \<^verbatim>\<open>vm_size_t\<close>, \<^verbatim>\<open>size_t\<close> and \<^verbatim>\<open>daddr_t\<close> have 32 bits.
\<close>

section \<open>State\<close>

datatype pager_type = DISK | FILE_DATA

record user_pager_info =
  upi_np :: "nat option"
  upi_type :: pager_type
  upi_p :: "nat option"

datatype libcall =
    Nref_light nat | Nrele_light nat | Nref nat | Nrele nat
  | Ports_port_ref nat | Ports_port_deref nat
  | Pager_create nat
  | Pager_change_attributes nat bool bool   \<comment> \<open>the pager, \<^verbatim>\<open>may_cache\<close>, \<^verbatim>\<open>wait\<close>\<close>
  | Mach_port_insert_right nat
  | Ports_create_bucket | Ports_enable_bucket
  | Diskfs_start_disk_pager nat
  | Sleep nat

record world =
  ns :: nodes
  upi_at :: "nat \<Rightarrow> user_pager_info option"
  upi_fresh :: nat
  node2pagelock :: bool
  bufs :: bcache
  calls :: "libcall list"

record pager_lib =
  pager_create :: "libcall list \<Rightarrow> nat option"
  pager_get_port :: "nat \<Rightarrow> libcall list \<Rightarrow> nat option"   \<comment> \<open>\<open>None\<close> is \<^verbatim>\<open>MACH_PORT_NULL\<close>\<close>
  ports_count_bucket :: "libcall list \<Rightarrow> int"
  bucket_pagers :: "libcall list \<Rightarrow> nat list"
  pager_get_upi :: "nat \<Rightarrow> nat"
  diskfs_disk_pager :: nat

record store =
  log2_block_size :: nat
  store_read :: "u64 \<Rightarrow> nat \<Rightarrow> int \<times> bytes"
  mmap_answers :: bool

definition call :: "libcall \<Rightarrow> world \<Rightarrow> world" where
  "call c w = w\<lparr>calls := calls w @ [c]\<rparr>"

definition with_upi :: "nat \<Rightarrow> (user_pager_info \<Rightarrow> 'a run) \<Rightarrow> world \<Rightarrow> 'a run" where
  "with_upi u k w = (case upi_at w u of None \<Rightarrow> run_fault Use_After_Free | Some i \<Rightarrow> k i)"

definition page_lock :: "world \<Rightarrow> world run" where
  "page_lock w = (if node2pagelock w then None else run_return (w\<lparr>node2pagelock := True\<rparr>))"

definition page_unlock :: "world \<Rightarrow> world" where
  "page_unlock w = w\<lparr>node2pagelock := False\<rparr>"

definition set_fileinfo :: "nat \<Rightarrow> nat option \<Rightarrow> world \<Rightarrow> world" where
  "set_fileinfo np v w = w\<lparr>ns := upd_node np (\<lambda>n. n\<lparr>dn := (dn n)\<lparr>fileinfo := v\<rparr>\<rparr>) (ns w)\<rparr>"

text \<open>A pointer field that is read through: a null pointer stops the process.\<close>

definition deref :: "'a option \<Rightarrow> ('a \<Rightarrow> 'b run) \<Rightarrow> 'b run" where
  "deref p k = (case p of None \<Rightarrow> run_fault Null_Deref | Some a \<Rightarrow> k a)"

section \<open>The pager of a node\<close>

definition diskfs_get_filemap_pager_struct :: "nat \<Rightarrow> world \<Rightarrow> nat option run" where
  "diskfs_get_filemap_pager_struct np w =
     with_node np (\<lambda>n. deref (fileinfo (dn n)) (\<lambda>u. with_upi u (\<lambda>i. run_return (upi_p i)) w)) (ns w)"

text \<open>One round of the loop: again when the right is null, otherwise the right.\<close>

definition get_filemap_round :: "pager_lib \<Rightarrow> nat \<Rightarrow> world \<Rightarrow> (world + nat option \<times> world) run" where
  "get_filemap_round lib np w = with_node np (\<lambda>n.
     case fileinfo (dn n) of
       None \<Rightarrow>
         (let (ok, h) = malloc (mem (ns w)); u = upi_fresh w;
              w = w\<lparr>ns := (ns w)\<lparr>mem := h\<rparr>\<rparr>
          in run_check ok Null_Deref
               (let w = call (Nref_light np) (w\<lparr>upi_at := (upi_at w)(u \<mapsto> \<lparr>upi_np = Some np, upi_type = FILE_DATA,
                      upi_p = None\<rparr>), upi_fresh := u + 1\<rparr>);
                    p = pager_create lib (calls w); w = call (Pager_create u) w
                in case p of
                     None \<Rightarrow> let w = call (Nrele_light np) w
                              in run_return (Inr (None, page_unlock (w\<lparr>upi_at := (upi_at w)(u := None),
                                   ns := (ns w)\<lparr>mem := free_block (mem (ns w))\<rparr>\<rparr>)))
                   | Some p \<Rightarrow>
                       let w = w\<lparr>upi_at := (upi_at w)(u \<mapsto> \<lparr>upi_np = Some np, upi_type = FILE_DATA, upi_p = Some p\<rparr>)\<rparr>;
                           w = set_fileinfo np (Some u) w;
                           right = pager_get_port lib p (calls w);
                           w = call (Ports_port_deref p) w
                       in run_return (case right of None \<Rightarrow> Inl w
                            | Some r \<Rightarrow> Inr (Some r, call (Mach_port_insert_right r) (page_unlock w)))))
     | Some u \<Rightarrow> with_upi u (\<lambda>i. deref (upi_p i) (\<lambda>p.
           run_return (case pager_get_port lib p (calls w) of
               None \<Rightarrow> Inl (set_fileinfo np None w)
             | Some r \<Rightarrow> Inr (Some r, call (Mach_port_insert_right r) (page_unlock w))))) w) (ns w)"

definition diskfs_get_filemap :: "pager_lib \<Rightarrow> nat \<Rightarrow> world \<Rightarrow> (nat option \<times> world) run" where
  "diskfs_get_filemap lib np w = with_node np (\<lambda>n.
     run_check (S_ISDIR (st_mode (dn_stat n)) \<or> S_ISREG (st_mode (dn_stat n)) \<or> S_ISLNK (st_mode (dn_stat n))) Assert_Failed
       (run_bind (page_lock w) (run_loop (get_filemap_round lib np)))) (ns w)"

definition pager_clear_user_data :: "nat \<Rightarrow> world \<Rightarrow> world run" where
  "pager_clear_user_data u w = with_upi u (\<lambda>i.
     run_bind (if upi_type i = FILE_DATA
         then run_bind (page_lock w) (\<lambda>w.
           deref (upi_np i) (\<lambda>np. with_node np (\<lambda>n.
             run_return (call (Nrele_light np) (page_unlock
               (if fileinfo (dn n) = Some u then set_fileinfo np None w else w)))) (ns w)))
         else run_return w)
       (\<lambda>w. run_return (w\<lparr>upi_at := (upi_at w)(u := None), ns := (ns w)\<lparr>mem := free_block (mem (ns w))\<rparr>\<rparr>))) w"

text \<open>\<^verbatim>\<open>drop_pager_softrefs\<close> and \<^verbatim>\<open>allow_pager_softrefs\<close> differ in the flag they pass on.\<close>

definition change_softrefs :: "bool \<Rightarrow> nat \<Rightarrow> world \<Rightarrow> world run" where
  "change_softrefs may_cache np w = run_bind (page_lock w) (\<lambda>w. with_node np (\<lambda>n.
     case fileinfo (dn n) of None \<Rightarrow> run_return (page_unlock w)
     | Some u \<Rightarrow> with_upi u (\<lambda>i. deref (upi_p i) (\<lambda>p.
         run_return (call (Ports_port_deref p) (call (Pager_change_attributes p may_cache False)
           (page_unlock (call (Ports_port_ref p) w)))))) w) (ns w))"

definition drop_pager_softrefs :: "nat \<Rightarrow> world \<Rightarrow> world run" where
  "drop_pager_softrefs np w = change_softrefs False np w"

definition allow_pager_softrefs :: "nat \<Rightarrow> world \<Rightarrow> world run" where
  "allow_pager_softrefs np w = change_softrefs True np w"

text \<open>The address of the new structure.\<close>

definition create_disk_pager :: "pager_lib \<Rightarrow> world \<Rightarrow> (nat \<times> world) run" where
  "create_disk_pager lib w =
     (let (ok, h) = malloc (mem (ns w)); u = upi_fresh w; w = w\<lparr>ns := (ns w)\<lparr>mem := h\<rparr>\<rparr>
      in run_check ok (Exit_Called 1)
           (run_return (u, call (Diskfs_start_disk_pager u) (call Ports_create_bucket
             (w\<lparr>upi_at := (upi_at w)(u \<mapsto> \<lparr>upi_np = None, upi_type = DISK, upi_p = Some (diskfs_disk_pager lib)\<rparr>),
               upi_fresh := u + 1\<rparr>)))))"

section \<open>Reading a page\<close>

text \<open>\<^verbatim>\<open>mmap\<close> of anonymous memory: a page of zeroes, or no page when it fails, which is not checked.\<close>

definition mmap_anon :: "store \<Rightarrow> nat \<Rightarrow> bytes option" where
  "mmap_anon st n = (if mmap_answers st then Some (replicate n 0) else None)"

text \<open>The end of the function: the read of the store and the clearing of what lies behind the end of the file. The
  result code and the contents of the page.\<close>

definition read_store :: "sys \<Rightarrow> store \<Rightarrow> u32 \<Rightarrow> u32 \<Rightarrow> int \<times> bytes option" where
  "read_store s st addr overrun =
     (let (err, buf) = store_read st (scast addr) (unat (vm_page_size s))
      in if length buf \<noteq> unat (vm_page_size s) then (EIO, Some buf)
         else (0, Some (if overrun \<noteq> 0 then take (unat (vm_page_size s) - unat overrun) buf @ replicate (unat overrun) 0
                        else buf)))"

text \<open>A page of a file, once its inode was read.\<close>

definition read_file_page ::
  "fs \<Rightarrow> sys \<Rightarrow> store \<Rightarrow> node \<Rightarrow> dinode_t \<Rightarrow> u32 \<Rightarrow> bcache \<Rightarrow> heap \<Rightarrow> (int \<times> bytes option \<times> bcache \<times> heap) run" where
  "read_file_page d s st n inode page c h =
     (let xoff = ucast (page div 4096); size = sint (st_size (dn_stat n));
          zero = mmap_anon st (unat (vm_page_size s))
      in run_bind (xt_Lookup d inode xoff None (vm_page_size s) c h) (\<lambda>(r, c, h).
           if xr_rc r \<noteq> 0
           then run_return (if uint page \<ge> size then (0, zero, c, h) else (1, None, c, h))
           else case xr_xaddr r of None \<Rightarrow> run_fault Uninit_Read
             | Some xaddr \<Rightarrow>
                 let xaddr = xaddr * 4096; addr = ucast (signed_drop_bit (log2_block_size st) xaddr) :: u32
                 in if uint page \<ge> size then run_return (0, zero, c, h)
                    else let overrun = (if uint (page + vm_page_size s) > size
                             then page + vm_page_size s - ucast (st_size (dn_stat n)) else 0);
                             (rc, buf) = read_store s st addr overrun
                         in run_return (rc, buf, c, h)))"

text \<open>The result code, \<^verbatim>\<open>*writelock\<close>, the page and the state.\<close>

definition pager_read_page ::
  "fs \<Rightarrow> sys \<Rightarrow> store \<Rightarrow> nat \<Rightarrow> u32 \<Rightarrow> world \<Rightarrow> (int \<times> int \<times> bytes option \<times> world) run" where
  "pager_read_page d s st u page w = with_upi u (\<lambda>i.
     case upi_type i of
       DISK \<Rightarrow>
         (let (rc, buf) = read_store s st (drop_bit (log2_block_size st) page) 0
          in run_return (rc, 1, buf, w))
     | FILE_DATA \<Rightarrow> deref (upi_np i) (\<lambda>np. with_node np (\<lambda>n.
         run_bind (find_inode d (ucast (cache_id n)) 16 (mem (ns w))) (\<lambda>(a, h).
           case a of None \<Rightarrow> run_return (1, 1, None, w\<lparr>ns := (ns w)\<lparr>mem := h\<rparr>\<rparr>)
           | Some address \<Rightarrow>
               run_bind (xRead d address sizeof_dinode h) (\<lambda>(b, h).
                 case b of None \<Rightarrow> run_return (1, 1, None, w\<lparr>ns := (ns w)\<lparr>mem := h\<rparr>\<rparr>)
                 | Some inode \<Rightarrow>
                     run_bind (read_file_page d s st n (dinode_of inode) page (bufs w) h) (\<lambda>(rc, buf, c, h).
                       run_return (rc, 1, buf, w\<lparr>bufs := c, ns := (ns w)\<lparr>mem := h\<rparr>\<rparr>))))) (ns w))) w"

definition pager_report_extent :: "nat \<Rightarrow> world \<Rightarrow> (int \<times> u32 \<times> u32) run" where
  "pager_report_extent u w = with_upi u (\<lambda>i. deref (upi_np i) (\<lambda>np. with_node np (\<lambda>n.
     run_return (0, 0, ucast (st_size (dn_stat n)))) (ns w))) w"

definition diskfs_sync_everything :: "int \<Rightarrow> world \<Rightarrow> world" where
  "diskfs_sync_everything wait w = w"

section \<open>Caching\<close>

definition enable_cache :: "pager_lib \<Rightarrow> nat \<Rightarrow> world \<Rightarrow> world run" where
  "enable_cache lib p w = with_upi (pager_get_upi lib p) (\<lambda>i.
     let w = call (Pager_change_attributes p True False) w
     in if upi_type i = FILE_DATA then deref (upi_np i) (\<lambda>np. run_return (call (Nrele np) (call (Nref np) w)))
        else run_return w) w"

definition block_cache :: "nat \<Rightarrow> world \<Rightarrow> world run" where
  "block_cache p w = run_return (call (Pager_change_attributes p False True) w)"

text \<open>\<^verbatim>\<open>ports_bucket_iterate\<close> with a function that returns 0.\<close>

fun bucket_iterate :: "(nat \<Rightarrow> world \<Rightarrow> world run) \<Rightarrow> nat list \<Rightarrow> world \<Rightarrow> world run" where
  "bucket_iterate f [] w = run_return w"
| "bucket_iterate f (p # ps) w = run_bind (f p w) (bucket_iterate f ps)"

definition enable_caching :: "pager_lib \<Rightarrow> world \<Rightarrow> world run" where
  "enable_caching lib w = bucket_iterate (enable_cache lib) (bucket_pagers lib (calls w)) w"

definition block_caching :: "pager_lib \<Rightarrow> world \<Rightarrow> world run" where
  "block_caching lib w = bucket_iterate block_cache (bucket_pagers lib (calls w)) w"

definition diskfs_pager_users :: "pager_lib \<Rightarrow> world \<Rightarrow> (int \<times> world) run" where
  "diskfs_pager_users lib w =
     (if ports_count_bucket lib (calls w) \<le> 1 then run_return (0, w)
      else run_bind (block_caching lib w) (\<lambda>w.
        let w = call (Sleep 1) w
        in if ports_count_bucket lib (calls w) \<le> 1 then run_return (0, w)
           else run_bind (enable_caching lib w) (\<lambda>w. run_return (1, call Ports_enable_bucket w))))"

definition pager_write_page :: "nat \<Rightarrow> u32 \<Rightarrow> bytes \<Rightarrow> world \<Rightarrow> (int \<times> world) run" where
  "pager_write_page u page buf w = run_fault Assert_Failed"

definition pager_notify_evict :: "nat \<Rightarrow> u32 \<Rightarrow> world \<Rightarrow> world run" where
  "pager_notify_evict u page w = run_fault Assert_Failed"

section \<open>Nodes and their pagers\<close>

text \<open>The pager a node points to is a live structure of type \<^verbatim>\<open>FILE_DATA\<close> that points back to the node.\<close>

definition pagers_ok :: "world \<Rightarrow> bool" where
  "pagers_ok w \<longleftrightarrow> (\<forall>np n u. node_at (ns w) np = Some n \<longrightarrow> fileinfo (dn n) = Some u \<longrightarrow>
       (\<exists>p. upi_at w u = Some \<lparr>upi_np = Some np, upi_type = FILE_DATA, upi_p = Some p\<rparr>))
     \<and> (\<forall>u \<ge> upi_fresh w. upi_at w u = None)"

definition fileinfo_of :: "world \<Rightarrow> nat \<Rightarrow> nat option" where
  "fileinfo_of w np = (case node_at (ns w) np of None \<Rightarrow> None | Some n \<Rightarrow> fileinfo (dn n))"

lemma pagers_ok_alt:
  "pagers_ok w \<longleftrightarrow> (\<forall>np u. fileinfo_of w np = Some u \<longrightarrow>
       (\<exists>p. upi_at w u = Some \<lparr>upi_np = Some np, upi_type = FILE_DATA, upi_p = Some p\<rparr>))
     \<and> (\<forall>u \<ge> upi_fresh w. upi_at w u = None)"
  by (auto simp: pagers_ok_def fileinfo_of_def split: option.splits)

lemma fileinfo_set [simp]:
  "fileinfo_of (set_fileinfo np v w) = (fileinfo_of w)(np := if node_at (ns w) np = None then None else v)"
  by (auto simp: fileinfo_of_def set_fileinfo_def upd_node_def fun_eq_iff split: option.splits)

lemma fileinfo_fields [simp]:
  "fileinfo_of (call c w) = fileinfo_of w" "fileinfo_of (page_unlock w) = fileinfo_of w"
  "fileinfo_of (w\<lparr>upi_at := x\<rparr>) = fileinfo_of w" "fileinfo_of (w\<lparr>upi_fresh := y\<rparr>) = fileinfo_of w"
  "fileinfo_of (w'\<lparr>ns := (ns w)\<lparr>mem := h\<rparr>\<rparr>) = fileinfo_of w" "fileinfo_of (w\<lparr>node2pagelock := b\<rparr>) = fileinfo_of w"
  by (simp_all add: fileinfo_of_def fun_eq_iff call_def page_unlock_def split: option.splits)

lemma upi_fields [simp]:
  "upi_at (call c w) = upi_at w" "upi_at (page_unlock w) = upi_at w" "upi_at (set_fileinfo np v w) = upi_at w"
  "upi_fresh (call c w) = upi_fresh w" "upi_fresh (page_unlock w) = upi_fresh w" "upi_fresh (set_fileinfo np v w) = upi_fresh w"
  "ns (call c w) = ns w" "ns (page_unlock w) = ns w"
  "node2pagelock (call c w) = node2pagelock w" "\<not> node2pagelock (page_unlock w)"
  "node2pagelock (set_fileinfo np v w) = node2pagelock w"
  "calls (call c w) = calls w @ [c]" "calls (set_fileinfo np v w) = calls w" "calls (page_unlock w) = calls w"
  by (simp_all add: call_def page_unlock_def set_fileinfo_def)

text \<open>One round keeps the invariant; a right that is returned is one the library gave for the pager of the node.\<close>

definition filemap_done :: "pager_lib \<Rightarrow> nat \<Rightarrow> nat option \<times> world \<Rightarrow> bool" where
  "filemap_done lib np = (\<lambda>(right, w). pagers_ok w \<and> \<not> node2pagelock w
     \<and> (\<forall>r. right = Some r \<longrightarrow> (\<exists>u p cs. fileinfo_of w np = Some u
          \<and> upi_at w u = Some \<lparr>upi_np = Some np, upi_type = FILE_DATA, upi_p = Some p\<rparr>
          \<and> pager_get_port lib p cs = Some r)))"

lemma filemap_round_old:
  assumes ok: "pagers_ok w" and n: "node_at (ns w) np = Some n" and u: "fileinfo (dn n) = Some u"
    and r: "get_filemap_round lib np w = run_return x"
  shows "(\<forall>w'. x = Inl w' \<longrightarrow> pagers_ok w') \<and> (\<forall>y. x = Inr y \<longrightarrow> filemap_done lib np y)"
proof -
  have f: "fileinfo_of w np = Some u" using n u by (simp add: fileinfo_of_def)
  then obtain p where p: "upi_at w u = Some \<lparr>upi_np = Some np, upi_type = FILE_DATA, upi_p = Some p\<rparr>"
    using ok unfolding pagers_ok_alt by blast
  have x: "x = (case pager_get_port lib p (calls w) of None \<Rightarrow> Inl (set_fileinfo np None w)
      | Some r \<Rightarrow> Inr (Some r, call (Mach_port_insert_right r) (page_unlock w)))"
    using r n u p by (simp add: get_filemap_round_def with_node_def with_upi_def deref_def)
  show ?thesis
  proof (cases "pager_get_port lib p (calls w)")
    case None
    with x ok show ?thesis by (auto simp: pagers_ok_alt)
  next
    case (Some r)
    with x ok p f show ?thesis by (auto simp: pagers_ok_alt filemap_done_def)
  qed
qed

lemma filemap_round_new:
  assumes ok: "pagers_ok w" and n: "node_at (ns w) np = Some n" and u: "fileinfo (dn n) = None"
    and r: "get_filemap_round lib np w = run_return x"
  shows "(\<forall>w'. x = Inl w' \<longrightarrow> pagers_ok w') \<and> (\<forall>y. x = Inr y \<longrightarrow> filemap_done lib np y)"
proof -
  obtain h where m: "malloc (mem (ns w)) = (True, h)"
    using r n u by (cases "malloc (mem (ns w))") (auto simp: get_filemap_round_def with_node_def Let_def run_iff)
  define v where "v = upi_fresh w"
  have f: "fileinfo_of w np = None" using n u by (simp add: fileinfo_of_def)
  have old: "fileinfo_of w q = Some a \<Longrightarrow> a \<noteq> v" for q a using ok unfolding pagers_ok_alt v_def by fastforce
  have fr: "upi_at w a = None" if "v \<le> a" for a using ok that by (simp add: pagers_ok_alt v_def)
  show ?thesis
  proof (cases "pager_create lib (calls w @ [Nref_light np])")
    case None
    then show ?thesis
      using r n u ok fr old f
      by (auto simp: get_filemap_round_def with_node_def Let_def m pagers_ok_alt filemap_done_def v_def [symmetric])
  next
    case (Some p)
    then show ?thesis
      using r n u ok fr old f
      by (auto simp: get_filemap_round_def with_node_def Let_def m pagers_ok_alt filemap_done_def v_def [symmetric]
          split: option.splits if_splits)
  qed
qed

lemma filemap_round:
  assumes "pagers_ok w" and "get_filemap_round lib np w = run_return x"
  shows "(\<forall>w'. x = Inl w' \<longrightarrow> pagers_ok w') \<and> (\<forall>y. x = Inr y \<longrightarrow> filemap_done lib np y)"
proof -
  obtain n where n: "node_at (ns w) np = Some n"
    using assms(2) by (cases "node_at (ns w) np") (simp_all add: get_filemap_round_def with_node_def)
  show ?thesis
    using filemap_round_old [OF assms(1) n _ assms(2)] filemap_round_new [OF assms(1) n _ assms(2)]
    by (cases "fileinfo (dn n)") blast+
qed

lemma get_filemap_done:
  assumes "pagers_ok w" and "diskfs_get_filemap lib np w = run_return (right, w')"
  shows "filemap_done lib np (right, w')"
proof -
  obtain n where "node_at (ns w) np = Some n"
    using assms(2) by (auto simp: diskfs_get_filemap_def with_node_def split: option.splits)
  then have "run_loop (get_filemap_round lib np) (w\<lparr>node2pagelock := True\<rparr>) = run_return (right, w')"
    using assms(2) by (auto simp: diskfs_get_filemap_def with_node_def page_lock_def run_iff split: if_splits)
  then show ?thesis
  proof (rule run_loop_invariant [where I = pagers_ok])
    show "pagers_ok (w\<lparr>node2pagelock := True\<rparr>)" using assms(1) by (simp add: pagers_ok_alt)
  next
    fix s s' assume "pagers_ok s" "get_filemap_round lib np s = run_return (Inl s')"
    from filemap_round [OF this] show "pagers_ok s'" by blast
  next
    fix s r assume "pagers_ok s" "get_filemap_round lib np s = run_return (Inr r)"
    from filemap_round [OF this] show "filemap_done lib np r" by blast
  qed
qed

lemma get_filemap_new:
  assumes "node_at (ns w) np = Some n" and "fileinfo (dn n) = None" and "S_ISREG (st_mode (dn_stat n))"
    and "\<not> node2pagelock w" and "mem_ok (mem (ns w))"
    and "pager_create lib (calls w @ [Nref_light np]) = Some p"
    and "pager_get_port lib p (calls w @ [Nref_light np, Pager_create (upi_fresh w)]) = Some r"
  shows "\<exists>w'. diskfs_get_filemap lib np w = run_return (Some r, w') \<and> fileinfo_of w' np = Some (upi_fresh w)
    \<and> upi_at w' (upi_fresh w) = Some \<lparr>upi_np = Some np, upi_type = FILE_DATA, upi_p = Some p\<rparr>
    \<and> calls w' = calls w @ [Nref_light np, Pager_create (upi_fresh w), Ports_port_deref p, Mach_port_insert_right r]
    \<and> mh_live (mem (ns w')) = mh_live (mem (ns w)) + 1
    \<and> mem_ok (mem (ns w')) \<and> bufs w' = bufs w \<and> node_at (ns w') np = Some (n\<lparr>dn := (dn n)\<lparr>fileinfo := Some (upi_fresh w)\<rparr>\<rparr>)"
proof -
  obtain h where m: "malloc (mem (ns w)) = (True, h)" "mh_live h = mh_live (mem (ns w)) + 1" "mem_ok h"
    using mem_ok_malloc [OF assms(5)] malloc_live [of "mem (ns w)"] by (cases "malloc (mem (ns w))") auto
  obtain w' where w': "get_filemap_round lib np (w\<lparr>node2pagelock := True\<rparr>) = run_return (Inr (Some r, w'))"
    "fileinfo_of w' np = Some (upi_fresh w)"
    "upi_at w' (upi_fresh w) = Some \<lparr>upi_np = Some np, upi_type = FILE_DATA, upi_p = Some p\<rparr>"
    "calls w' = calls w @ [Nref_light np, Pager_create (upi_fresh w), Ports_port_deref p, Mach_port_insert_right r]"
    "mem (ns w') = h" "bufs w' = bufs w" "node_at (ns w') np = Some (n\<lparr>dn := (dn n)\<lparr>fileinfo := Some (upi_fresh w)\<rparr>\<rparr>)"
    using assms(1,2,6,7) by (auto simp: get_filemap_round_def with_node_def Let_def m(1))
      (auto simp: set_fileinfo_def upd_node_def call_def page_unlock_def)
  then show ?thesis
    using assms(1,3,4) m(2,3) by (simp add: diskfs_get_filemap_def with_node_def page_lock_def run_loop_done)
qed

text \<open>
  The end of a pager. \<^verbatim>\<open>pager_clear_user_data\<close> of a file's pager detaches it from the node only when the node still points
  to it, gives the light reference back and frees the structure; the invariant is kept. When it was the node's
  pager, the node can be dropped afterwards without tripping the assertion of \<^verbatim>\<open>diskfs_node_norefs\<close>.
\<close>

lemma pager_clear_user_data_detaches:
  assumes "pagers_ok w" and "upi_at w u = Some \<lparr>upi_np = Some np, upi_type = FILE_DATA, upi_p = p\<rparr>"
    and "node_at (ns w) np = Some n" and "\<not> node2pagelock w"
  shows "\<exists>w'. pager_clear_user_data u w = run_return w' \<and> pagers_ok w' \<and> upi_at w' u = None \<and> \<not> node2pagelock w'
    \<and> fileinfo_of w' np = (if fileinfo (dn n) = Some u then None else fileinfo (dn n))
    \<and> calls w' = calls w @ [Nrele_light np] \<and> mh_live (mem (ns w')) = mh_live (mem (ns w)) - 1"
proof -
  have f: "fileinfo_of w np = fileinfo (dn n)" using assms(3) by (simp add: fileinfo_of_def)
  define w1 where "w1 = (if fileinfo (dn n) = Some u then set_fileinfo np None (w\<lparr>node2pagelock := True\<rparr>)
      else w\<lparr>node2pagelock := True\<rparr>)"
  define w2 where "w2 = call (Nrele_light np) (page_unlock w1)"
  define w' where "w' = w2\<lparr>upi_at := (upi_at w2)(u := None), ns := (ns w2)\<lparr>mem := free_block (mem (ns w2))\<rparr>\<rparr>"
  have r: "pager_clear_user_data u w = run_return w'"
    using assms(2-4) by (simp add: pager_clear_user_data_def with_upi_def page_lock_def deref_def with_node_def
      w'_def w2_def w1_def)
  have w1: "fileinfo_of w1 = (if fileinfo (dn n) = Some u then (fileinfo_of w)(np := None) else fileinfo_of w)"
    "upi_at w1 = upi_at w" "upi_fresh w1 = upi_fresh w" "calls w1 = calls w" "mem (ns w1) = mem (ns w)"
    using assms(3) by (simp_all add: w1_def) (simp add: set_fileinfo_def upd_node_def)
  have "fileinfo_of w' = fileinfo_of w1" "upi_at w' = (upi_at w)(u := None)" "upi_fresh w' = upi_fresh w"
    by (simp_all add: w'_def w2_def w1)
  moreover have "q = np" if "fileinfo_of w q = Some u" for q
    using that assms(1,2) unfolding pagers_ok_alt by fastforce
  ultimately have "pagers_ok w'" using assms(1) f by (auto simp: pagers_ok_alt w1)
  with r show ?thesis by (intro exI [of _ w']) (simp add: w'_def w2_def w1 f)
qed

text \<open>
  Shutting pagers down. With at most one pager left \<^verbatim>\<open>diskfs_pager_users\<close> does nothing and returns 0. Otherwise it
  turns caching off for every pager, waits one second and counts again; if there are users still, caching is turned on
  again for every pager, with a reference taken and dropped for each file, the bucket is enabled, and 1 is returned.
\<close>

lemma diskfs_pager_users_calls:
  assumes "\<And>cs. bucket_pagers lib cs = ps"
    and "\<And>p. p \<in> set ps \<Longrightarrow> upi_at w (pager_get_upi lib p) = Some \<lparr>upi_np = Some (f p), upi_type = FILE_DATA, upi_p = Some p\<rparr>"
  defines "off \<equiv> map (\<lambda>p. Pager_change_attributes p False True) ps @ [Sleep 1]"
    and "on \<equiv> concat (map (\<lambda>p. [Pager_change_attributes p True False, Nref (f p), Nrele (f p)]) ps) @ [Ports_enable_bucket]"
  shows "diskfs_pager_users lib w =
    run_return (if ports_count_bucket lib (calls w) \<le> 1 then (0, w)
      else if ports_count_bucket lib (calls w @ off) \<le> 1 then (0, w\<lparr>calls := calls w @ off\<rparr>)
      else (1, w\<lparr>calls := calls w @ off @ on\<rparr>))"
proof -
  have blk: "bucket_iterate block_cache qs v = run_return (v\<lparr>calls := calls v @ map (\<lambda>p. Pager_change_attributes p False True) qs\<rparr>)"
    for qs v by (induction qs arbitrary: v) (simp_all add: block_cache_def call_def)
  have en: "bucket_iterate (enable_cache lib) qs v = run_return (v\<lparr>calls := calls v @
      concat (map (\<lambda>p. [Pager_change_attributes p True False, Nref (f p), Nrele (f p)]) qs)\<rparr>)"
    if "set qs \<subseteq> set ps" "upi_at v = upi_at w" for qs v
    using that by (induction qs arbitrary: v) (simp_all add: enable_cache_def with_upi_def assms(2) deref_def call_def Let_def)
  show ?thesis
    by (simp add: diskfs_pager_users_def block_caching_def enable_caching_def assms(1) blk en Let_def call_def off_def on_def)
qed

section \<open>The contents of a page\<close>

lemma small_high_bit: "unat (w :: 'a::len word) < 2 ^ n \<Longrightarrow> n \<le> m \<Longrightarrow> \<not> bit w m"
  by (metis bit_take_bit_iff not_le take_bit_word_small)

lemma store_address:
  fixes a :: u64
  assumes "unat a = b" and "b < 2 ^ 41" and "k \<le> 12" and "b * 4096 div 2 ^ k < 2 ^ 31"
  shows "unat (scast (ucast (signed_drop_bit k (a * 4096)) :: u32) :: u64) = b * 4096 div 2 ^ k"
proof -
  have u: "unat (a * 4096) = b * 4096" using assms(1,2) by (simp add: unat_word_ariths)
  then have "\<not> bit (a * 4096) 63" by (intro small_high_bit [of _ 53]) (use assms(2) in simp_all)
  then have "signed_drop_bit k (a * 4096) = drop_bit k (a * 4096)"
    using assms(3) by (intro bit_word_eqI) (auto simp: bit_simps dest: bit_imp_le_length)
  moreover have "unat (drop_bit k (a * 4096)) = b * 4096 div 2 ^ k"
    using take_bit_nat_eq_self [OF unat_bound [of "a * 4096"]]
    by (simp only: unsigned_drop_bit_eq) (simp add: drop_bit_eq_div u)
  ultimately have w: "unat (ucast (signed_drop_bit k (a * 4096)) :: u32) = b * 4096 div 2 ^ k"
    using assms(4) by (simp add: unsigned_ucast_eq take_bit_nat_eq_self)
  define x where "x = (ucast (signed_drop_bit k (a * 4096)) :: u32)"
  have low: "n < 31" if "bit x n" for n using that small_high_bit [of x 31 n] w assms(4)
    by (fastforce simp: x_def)
  then have "(scast x :: u64) = ucast x" by (intro bit_word_eqI) (auto simp: bit_simps min_def dest: low)
  then show ?thesis using w by (simp add: x_def [symmetric] unat_ucast_up)
qed

text \<open>The page of a file as the reader wants it: the bytes of the block, and zeroes past the end of the file.\<close>

definition page_bytes :: "fs \<Rightarrow> nat \<Rightarrow> nat \<Rightarrow> nat \<Rightarrow> bytes" where
  "page_bytes d b page len = map (\<lambda>j. if page + j < len then dk_byte d (b * 2 ^ l2b d + j) else 0) [0..<4096]"

definition store_ok :: "fs \<Rightarrow> store \<Rightarrow> bool" where
  "store_ok d st \<longleftrightarrow> log2_block_size st \<le> 12 \<and> (\<forall>a n. unat a * 2 ^ log2_block_size st + n \<le> dk_size d \<longrightarrow>
     store_read st a n = (0, disk_slice d (unat a * 2 ^ log2_block_size st) n))"

lemma read_store_page:
  assumes st: "store_ok d st" and vm: "vm_page_size s = 4096" and blk: "l2b d = 12" and b: "unat (scast addr :: u64) * 2 ^ log2_block_size st = b * 4096"
    and disk: "b * 4096 + 4096 \<le> dk_size d" and ov: "unat overrun = page + 4096 - len" "page < len"
  shows "read_store s st addr overrun = (0, Some (page_bytes d b page len))"
proof -
  have v: "unat (4096 :: u32) = 4096" by simp
  have r: "store_read st (scast addr) 4096 = (0, disk_slice d (b * 4096) 4096)"
    using st b disk by (simp add: store_ok_def)
  have "(if overrun \<noteq> 0 then take (4096 - unat overrun) (disk_slice d (b * 4096) 4096) @ replicate (unat overrun) 0
      else disk_slice d (b * 4096) 4096) = page_bytes d b page len"
  proof (cases "len < page + 4096")
    case False
    then have "overrun = 0" using ov(1) by (simp add: unat_eq_zero [symmetric])
    with False show ?thesis by (auto simp: page_bytes_def disk_slice_def blk)
  next
    case True
    then have "overrun \<noteq> 0" using ov by auto
    moreover have "take (4096 - unat overrun) (disk_slice d (b * 4096) 4096) @ replicate (unat overrun) 0 = page_bytes d b page len"
      by (rule nth_equalityI) (use True ov in \<open>auto simp: page_bytes_def nth_append blk\<close>)
    ultimately show ?thesis by simp
  qed
  then show ?thesis by (simp add: read_store_def vm v r split: if_splits)
qed

lemma xt_find_bound:
  "xt_find t k = Some x \<Longrightarrow> xa x + (k - xo x) < 2 ^ 41"
  using xaddr.fetch_bound [of x] lengthXAD_bound [of x] by (auto dest!: find_xt_find simp: covers_def)

lemma read_file_page_found:
  assumes fs: "fs_ok d" and st: "store_ok d st" and vm: "vm_page_size s = 4096" and blk: "l2b d = 12"
    and t: "xt_repr d (di_btroot inode) t" "xt_wf 0 hi t" "xt_nonempty t \<or> (\<exists>xs. t = XLeaf xs)"
    and c: "idle c" and h: "mem_ok h"
    and len: "unat (st_size (dn_stat n)) = len" "unat page < len" "len < 2 ^ 63" and wrap: "unat page + 4096 < 2 ^ 32"
    and x: "xt_find t (unat page div 4096) = Some x" and b: "b = xa x + (unat page div 4096 - xo x)"
    and disk: "b * 4096 + 4096 \<le> dk_size d" "b * 4096 div 2 ^ log2_block_size st < 2 ^ 31"
  shows "\<exists>c' h'. read_file_page d s st n inode page c h = run_return (0, Some (page_bytes d b (unat page) len), c', h')
    \<and> idle c' \<and> mem_ok h'"
proof -
  define xoff where "xoff = (ucast (page div 4096) :: u64)"
  have xo: "unat xoff = unat page div 4096" by (simp add: xoff_def unat_ucast_up unat_div)
  have "unat xoff < 2 ^ 63" unfolding xo using unat_bound [of page] by (simp add: div_le_dividend le_less_trans)
  from xt_Lookup_finds [OF fs this t c h, of None "vm_page_size s"] obtain r c' h' where
    lk: "xt_Lookup d inode xoff None (vm_page_size s) c h = run_return (r, c', h')" "idle c'" "mem_ok h'"
    and ans: "xt_answer t xoff None (vm_page_size s) r" by blast
  from ans x obtain a where a: "xr_rc r = 0" "xr_xaddr r = Some a" "unat a = b"
    by (auto simp: xt_answer_def xo b)
  have k: "log2_block_size st \<le> 12" using st by (simp add: store_ok_def)
  define addr where "addr = (ucast (signed_drop_bit (log2_block_size st) (a * 4096)) :: u32)"
  have "unat (scast addr :: u64) = b * 4096 div 2 ^ log2_block_size st"
    unfolding addr_def using xt_find_bound [OF x] by (intro store_address [OF a(3) _ k disk(2)]) (simp add: b)
  moreover have "2 ^ log2_block_size st dvd b * 4096"
    using k le_imp_power_dvd [of "log2_block_size st" 12 "2 :: nat"] by (simp add: dvd_mult)
  ultimately have A: "unat (scast addr :: u64) * 2 ^ log2_block_size st = b * 4096" by simp
  define ov where "ov = (if uint (page + 4096) > int len then page + 4096 - ucast (st_size (dn_stat n)) else 0)"
  have pg: "unat (page + 4096) = unat page + 4096" using wrap by (simp add: unat_word_ariths)
  then have up: "uint (page + 4096) = int (unat page + 4096)" "uint page = int (unat page)" by (metis of_nat_unat)+
  have ov: "unat ov = unat page + 4096 - len"
  proof (cases "len < unat page + 4096")
    case True
    have "unat (ucast (st_size (dn_stat n)) :: u32) = len"
      using True wrap by (simp add: unsigned_ucast_eq take_bit_nat_eq_self len(1))
    with True up pg show ?thesis by (simp add: ov_def unat_sub word_le_nat_alt)
  qed (simp add: ov_def up)
  have "read_store s st addr ov = (0, Some (page_bytes d b (unat page) len))"
    using read_store_page [OF st vm blk A disk(1) ov len(2)] .
  moreover have "sint (st_size (dn_stat n)) = int len" using len by (simp add: sint_small)
  ultimately show ?thesis
    using lk a len(2) up
    by (auto simp: read_file_page_def Let_def xoff_def [symmetric] vm addr_def [symmetric] ov_def split: if_splits)
qed

text \<open>
  Reading a page of a file. On a file system with blocks of 4096 bytes, for a page inside the file that an extent
  covers, \<^verbatim>\<open>pager_read_page\<close> returns 0, marks the page read-only and delivers the bytes of the block the extent tree names,
  with zeroes past the end of the file; the page buffers are all free again. The inode is found through the inode map, the
  block through the file's own tree, the bytes come from the store, which is assumed to hold the mapped disk.
\<close>

lemma pager_read_file:
  assumes fs: "fs_ok d" and im: "imap_ok d FILESYSTEM_I m" and st: "store_ok d st"
    and vm: "vm_page_size s = 4096" and blk: "l2b d = 12"
    and u: "upi_at w u = Some \<lparr>upi_np = Some np, upi_type = FILE_DATA, upi_p = p\<rparr>"
    and n: "node_at (ns w) np = Some n" and a: "inode_address d m (unat (ucast (cache_id n) :: u32)) = Some a"
    and a512: "a + 512 \<le> dk_size d"
    and t: "xt_repr d (di_btroot (dinode_of (disk_slice d a 512))) t" "xt_wf 0 hi t" "xt_nonempty t \<or> (\<exists>xs. t = XLeaf xs)"
    and c: "idle (bufs w)" and h: "mem_ok (mem (ns w))"
    and len: "unat (st_size (dn_stat n)) = len" "unat page < len" "len < 2 ^ 63" and wrap: "unat page + 4096 < 2 ^ 32"
    and x: "xt_find t (unat page div 4096) = Some x" and b: "b = xa x + (unat page div 4096 - xo x)"
    and disk: "b * 4096 + 4096 \<le> dk_size d" "b * 4096 div 2 ^ log2_block_size st < 2 ^ 31"
  shows "\<exists>w'. pager_read_page d s st u page w = run_return (0, 1, Some (page_bytes d b (unat page) len), w')
    \<and> (\<exists>c' h'. w' = w\<lparr>bufs := c', ns := (ns w)\<lparr>mem := h'\<rparr>\<rparr> \<and> idle c' \<and> mem_ok h')"
proof -
  obtain ad h1 where f: "find_inode d (ucast (cache_id n)) FILESYSTEM_I (mem (ns w)) = run_return (Some ad, h1)"
    "unat ad = a" "balanced (mem (ns w)) h1"
    using find_inode_correct [OF fs im, of "ucast (cache_id n)" "mem (ns w)"] a h by auto
  have "unat ad + unat sizeof_dinode \<le> dk_size d" using a512 f(2) by (simp add: sizeof_dinode_def)
  then obtain h2 where r: "xRead d ad sizeof_dinode h1 = run_return (Some (disk_slice d a 512), h2)"
    using xRead_returns [OF fs, of ad sizeof_dinode h1] balanced_mem_ok [OF f(3) h] f(2) by (auto simp: sizeof_dinode_def)
  have "mem_ok h2" using balanced_mem_ok [OF balanced_trans [OF f(3) xRead_balanced [OF r]] h] .
  from read_file_page_found [OF fs st vm blk t c this len wrap x b disk] obtain c' h' where
    "read_file_page d s st n (dinode_of (disk_slice d a 512)) page (bufs w) h2 =
      run_return (0, Some (page_bytes d b (unat page) len), c', h')" "idle c'" "mem_ok h'" by blast
  with f(1) r u n show ?thesis
    by (auto simp: pager_read_page_def with_upi_def deref_def with_node_def FILESYSTEM_I_def)
qed

text \<open>
  The disk pager. A page of the disk itself is read straight from the store, with no inode involved; the result is
  \<^verbatim>\<open>EIO\<close> exactly when the store does not deliver a whole page, whatever error code it returned.
\<close>

lemma pager_read_page_disk:
  assumes "upi_at w u = Some \<lparr>upi_np = np, upi_type = DISK, upi_p = p\<rparr>"
    and "store_read st (scast (drop_bit (log2_block_size st) page)) (unat (vm_page_size s)) = (err, buf)"
  shows "pager_read_page d s st u page w =
    run_return (if length buf = unat (vm_page_size s) then 0 else EIO, 1, Some buf, w)"
  using assms by (simp add: pager_read_page_def with_upi_def read_store_def)

text \<open>
  C37: a page that no extent covers. Inside the file (a hole) the read fails with code 1 instead of delivering zeroes; past
  the end of the file it delivers a page of zeroes, and returns 0 without a page when \<^verbatim>\<open>mmap\<close> fails.
\<close>

theorem read_file_page_hole:
  assumes "fs_ok d" and "xt_repr d (di_btroot inode) t" and "xt_wf 0 hi t" and "xt_nonempty t \<or> (\<exists>xs. t = XLeaf xs)"
    and "idle c" and "mem_ok h" and "xt_find t (unat page div 4096) = None"
  shows "\<exists>c' h'. read_file_page d s st n inode page c h =
      run_return (if uint page < sint (st_size (dn_stat n)) then (1, None, c', h')
        else (0, if mmap_answers st then Some (replicate (unat (vm_page_size s)) 0) else None, c', h')) \<and> idle c'"
proof -
  define xoff where "xoff = (ucast (page div 4096) :: u64)"
  have xo: "unat xoff = unat page div 4096" by (simp add: xoff_def unat_ucast_up unat_div)
  have "unat xoff < 2 ^ 63" unfolding xo using unat_bound [of page] by (simp add: div_le_dividend le_less_trans)
  from xt_Lookup_finds [OF assms(1) this assms(2-6), of None "vm_page_size s"] obtain r c' h' where
    lk: "xt_Lookup d inode xoff None (vm_page_size s) c h = run_return (r, c', h')" "idle c'"
    and ans: "xt_answer t xoff None (vm_page_size s) r" by blast
  from ans assms(7) have "xr_rc r \<noteq> 0" by (simp add: xt_answer_def xo)
  with lk show ?thesis by (auto simp: read_file_page_def mmap_anon_def Let_def xoff_def [symmetric])
qed

end
