(* ===== verification/Jfs_Callbacks.thy ===== *)
theory Jfs_Callbacks
  imports Jfs_Pager
begin

text \<open>
  The callbacks \<^verbatim>\<open>libdiskfs\<close> and \<^verbatim>\<open>libpager\<close> require of a translator that this one, being read-only, answers with a constant
  (\<^verbatim>\<open>callbacks.c\<close>, \<^verbatim>\<open>storeinfo.c\<close>). Each is a function of the state: the result code and the state after it, or the fault of
  \<^verbatim>\<open>abort\<close>.
\<close>

definition pager_unlock_page :: "nat \<Rightarrow> u32 \<Rightarrow> world \<Rightarrow> (int \<times> world) run" where
  "pager_unlock_page u page w = run_return (EROFS, w)"

definition diskfs_set_translator :: "nat \<Rightarrow> bytes \<Rightarrow> world \<Rightarrow> (int \<times> world) run" where
  "diskfs_set_translator np name w = run_return (EROFS, w)"

definition diskfs_get_translator :: "nat \<Rightarrow> world \<Rightarrow> (int \<times> world) run" where
  "diskfs_get_translator np w = run_return (EOPNOTSUPP, w)"

definition pager_dropweak :: "nat \<Rightarrow> world \<Rightarrow> world run" where
  "pager_dropweak u w = run_return w"

definition diskfs_try_dropping_softrefs :: "nat \<Rightarrow> world \<Rightarrow> world run" where
  "diskfs_try_dropping_softrefs np w = run_return w"

definition diskfs_dirempty :: "nat \<Rightarrow> world \<Rightarrow> (int \<times> world) run" where
  "diskfs_dirempty dp w = run_fault Abort_Called"

definition diskfs_grow :: "nat \<Rightarrow> int \<Rightarrow> world \<Rightarrow> (int \<times> world) run" where
  "diskfs_grow np sz w = run_return (EROFS, w)"

definition diskfs_reload_global_state :: "world \<Rightarrow> (int \<times> world) run" where
  "diskfs_reload_global_state w = run_return (0, w)"

definition diskfs_alloc_node :: "nat \<Rightarrow> u32 \<Rightarrow> world \<Rightarrow> (int \<times> world) run" where
  "diskfs_alloc_node dp mode w = run_return (EROFS, w)"

definition diskfs_file_update :: "nat \<Rightarrow> int \<Rightarrow> world \<Rightarrow> world run" where
  "diskfs_file_update np wait w = run_return w"

definition diskfs_dirremove_hard :: "nat \<Rightarrow> world \<Rightarrow> (int \<times> world) run" where
  "diskfs_dirremove_hard dp w = run_fault Abort_Called"

definition diskfs_drop_dirstat :: "nat \<Rightarrow> world \<Rightarrow> (int \<times> world) run" where
  "diskfs_drop_dirstat dp w = run_return (0, w)"

definition diskfs_new_hardrefs :: "nat \<Rightarrow> world \<Rightarrow> world run" where
  "diskfs_new_hardrefs np w = run_return w"

definition diskfs_dirstat_size :: nat where
  "diskfs_dirstat_size = 0"

definition diskfs_null_dirstat :: "world \<Rightarrow> world run" where
  "diskfs_null_dirstat w = run_return w"

definition VM_PROT_READ :: u32 where "VM_PROT_READ = 1"
definition VM_PROT_WRITE :: u32 where "VM_PROT_WRITE = 2"
definition VM_PROT_EXECUTE :: u32 where "VM_PROT_EXECUTE = 4"

definition diskfs_max_user_pager_prot :: u32 where
  "diskfs_max_user_pager_prot = VM_PROT_READ OR VM_PROT_EXECUTE"

definition diskfs_write_disknode :: "nat \<Rightarrow> int \<Rightarrow> world \<Rightarrow> world run" where
  "diskfs_write_disknode np wait w = run_return w"

definition diskfs_node_iterate :: "(nat \<Rightarrow> world \<Rightarrow> (int \<times> world) run) \<Rightarrow> world \<Rightarrow> (int \<times> world) run" where
  "diskfs_node_iterate fn w = run_return (0, w)"

definition diskfs_free_node :: "nat \<Rightarrow> u32 \<Rightarrow> world \<Rightarrow> world run" where
  "diskfs_free_node np mode w = run_fault Abort_Called"

definition diskfs_set_hypermetadata :: "int \<Rightarrow> int \<Rightarrow> world \<Rightarrow> (int \<times> world) run" where
  "diskfs_set_hypermetadata wait clean w = run_return (0, w)"

definition diskfs_lost_hardrefs :: "nat \<Rightarrow> world \<Rightarrow> world run" where
  "diskfs_lost_hardrefs np w = run_return w"

definition diskfs_direnter_hard :: "nat \<Rightarrow> bytes \<Rightarrow> nat \<Rightarrow> world \<Rightarrow> (int \<times> world) run" where
  "diskfs_direnter_hard dp name np w = run_fault Abort_Called"

definition diskfs_dirrewrite_hard :: "nat \<Rightarrow> nat \<Rightarrow> world \<Rightarrow> (int \<times> world) run" where
  "diskfs_dirrewrite_hard dp np w = run_fault Abort_Called"

definition diskfs_truncate :: "nat \<Rightarrow> int \<Rightarrow> world \<Rightarrow> (int \<times> world) run" where
  "diskfs_truncate np sz w = run_return (EROFS, w)"

definition diskfs_node_reload :: "nat \<Rightarrow> world \<Rightarrow> (int \<times> world) run" where
  "diskfs_node_reload np w = run_return (0, w)"

definition diskfs_validate_author_change :: "nat \<Rightarrow> u32 \<Rightarrow> world \<Rightarrow> (int \<times> world) run" where
  "diskfs_validate_author_change np author w = run_return (EROFS, w)"

definition diskfs_shutdown_pager :: "world \<Rightarrow> world run" where
  "diskfs_shutdown_pager w = run_return w"

definition diskfs_S_file_get_storage_info :: "world \<Rightarrow> (int \<times> world) run" where
  "diskfs_S_file_get_storage_info w = run_return (EOPNOTSUPP, w)"

section \<open>Requests that would modify the file system\<close>

text \<open>The modifying requests a client can make, as the library passes them on.\<close>

datatype modify =
    Grow nat int | Truncate nat int | Alloc_node nat u32 | Set_translator nat bytes
  | Author_change nat u32 | Unlock_page nat u32 | Write_page nat u32 bytes
  | Dir_enter nat bytes nat | Dir_remove nat | Dir_rewrite nat nat | Dir_empty nat | Free_node nat u32

fun modify_run :: "modify \<Rightarrow> world \<Rightarrow> (int \<times> world) run" where
  "modify_run (Grow np sz) w = diskfs_grow np sz w"
| "modify_run (Truncate np sz) w = diskfs_truncate np sz w"
| "modify_run (Alloc_node dp mode) w = diskfs_alloc_node dp mode w"
| "modify_run (Set_translator np name) w = diskfs_set_translator np name w"
| "modify_run (Author_change np a) w = diskfs_validate_author_change np a w"
| "modify_run (Unlock_page u p) w = pager_unlock_page u p w"
| "modify_run (Write_page u p b) w = pager_write_page u p b w"
| "modify_run (Dir_enter dp nm np) w = diskfs_direnter_hard dp nm np w"
| "modify_run (Dir_remove dp) w = diskfs_dirremove_hard dp w"
| "modify_run (Dir_rewrite dp np) w = diskfs_dirrewrite_hard dp np w"
| "modify_run (Dir_empty dp) w = diskfs_dirempty dp w"
| "modify_run (Free_node np mode) w = run_bind (diskfs_free_node np mode w) (\<lambda>w. run_return (0, w))"

lemmas modify_defs = diskfs_grow_def diskfs_truncate_def diskfs_alloc_node_def diskfs_set_translator_def
  diskfs_validate_author_change_def pager_unlock_page_def pager_write_page_def diskfs_direnter_hard_def
  diskfs_dirremove_hard_def diskfs_dirrewrite_hard_def diskfs_dirempty_def diskfs_free_node_def

text \<open>Which requests are refused with \<^verbatim>\<open>EROFS\<close>, and how the others end the process.\<close>

fun refusal :: "modify \<Rightarrow> fault option" where
  "refusal (Write_page _ _ _) = Some Assert_Failed"
| "refusal (Dir_enter _ _ _) = Some Abort_Called"
| "refusal (Dir_remove _) = Some Abort_Called"
| "refusal (Dir_rewrite _ _) = Some Abort_Called"
| "refusal (Dir_empty _) = Some Abort_Called"
| "refusal (Free_node _ _) = Some Abort_Called"
| "refusal _ = None"

lemma modify_run_refused: "modify_run m w = (case refusal m of None \<Rightarrow> run_return (EROFS, w) | Some f \<Rightarrow> run_fault f)"
  by (cases m) (simp_all add: modify_defs)

lemma no_write_mapping: "diskfs_max_user_pager_prot AND VM_PROT_WRITE = 0"
  by (simp add: diskfs_max_user_pager_prot_def VM_PROT_READ_def VM_PROT_WRITE_def VM_PROT_EXECUTE_def)

end
