(* ===== verification/Jfs_Unicode.thy ===== *)
theory Jfs_Unicode
  imports Jfs_Prelude
begin

text \<open>
  Names: \<^verbatim>\<open>UniStrncpy\<close> (\<^verbatim>\<open>jfs_unicode.h\<close>) and the conversion of UTF-16 units to UTF-8
  (\<^verbatim>\<open>jfs_unicode.c\<close>), with the reference encoding of a code point of the basic plane. A character array is a
  list of cells; a cell that was never written is \<open>None\<close>.
\<close>

section \<open>Copying\<close>

text \<open>The first loop: the characters copied and the value \<^verbatim>\<open>n\<close> is left with; \<^verbatim>\<open>n--\<close> at zero wraps to the
  largest \<^verbatim>\<open>size_t\<close>.\<close>

fun uni_copy :: "nat \<Rightarrow> u16 list \<Rightarrow> fault + u16 list \<times> u32" where
  "uni_copy 0 src = Inr ([], - 1)"
| "uni_copy (Suc n) [] = Inl Out_Of_Bounds"
| "uni_copy (Suc n) (ch # src) =
     (if ch = 0 then Inr ([], of_nat n)
      else case uni_copy n src of Inl f \<Rightarrow> Inl f | Inr (xs, m) \<Rightarrow> Inr (ch # xs, m))"

definition UniStrncpy :: "nat \<Rightarrow> u16 list \<Rightarrow> fault + u16 list" where
  "UniStrncpy n src =
     (case uni_copy n src of Inl f \<Rightarrow> Inl f
      | Inr (xs, m) \<Rightarrow> Inr (xs @ replicate (unat (m + 1)) 0))"

section \<open>Encoding\<close>

record utf8_table =
  cmask :: u32
  cval :: u32
  shift :: nat
  lmask :: u32
  lval :: u32

definition utf8_table_tab :: "utf8_table list" where
  "utf8_table_tab =
    [\<lparr>cmask = 0x80, cval = 0x00, shift = 0*6, lmask = 0x7F, lval = 0\<rparr>,
     \<lparr>cmask = 0xE0, cval = 0xC0, shift = 1*6, lmask = 0x7FF, lval = 0x80\<rparr>,
     \<lparr>cmask = 0xF0, cval = 0xE0, shift = 2*6, lmask = 0xFFFF, lval = 0x800\<rparr>,
     \<lparr>cmask = 0xF8, cval = 0xF0, shift = 3*6, lmask = 0x1FFFFF, lval = 0x10000\<rparr>,
     \<lparr>cmask = 0xFC, cval = 0xF8, shift = 4*6, lmask = 0x3FFFFFF, lval = 0x200000\<rparr>,
     \<lparr>cmask = 0xFE, cval = 0xFC, shift = 5*6, lmask = 0x7FFFFFFF, lval = 0x4000000\<rparr>,
     \<lparr>cmask = 0, cval = 0, shift = 0, lmask = 0, lval = 0\<rparr>]"

text \<open>The inner loop: the continuation bytes.\<close>

fun utf8_cont :: "nat \<Rightarrow> u32 \<Rightarrow> bytes" where
  "utf8_cont c l = (if c > 0 then ucast (0x80 OR (drop_bit (c - 6) l AND 0x3F)) # utf8_cont (c - 6) l else [])"

declare utf8_cont.simps [simp del]

text \<open>The outer loop: the number of bytes and the bytes, or \<open>-1\<close>.\<close>

fun utf8_char_loop :: "utf8_table list \<Rightarrow> u32 \<Rightarrow> int \<Rightarrow> int \<Rightarrow> int \<times> bytes" where
  "utf8_char_loop [] l nc maxlen = (- 1, [])"
| "utf8_char_loop (t # ts) l nc maxlen =
     (if cmask t \<noteq> 0 \<and> maxlen \<noteq> 0
      then if l \<le> lmask t
           then (nc + 1, ucast (cval t OR drop_bit (shift t) l) # utf8_cont (shift t) l)
           else utf8_char_loop ts l (nc + 1) (maxlen - 1)
      else (- 1, []))"

definition Unicode_Character_to_UTF8_Character :: "u16 \<Rightarrow> int \<Rightarrow> int \<times> bytes" where
  "Unicode_Character_to_UTF8_Character wc maxlen = utf8_char_loop utf8_table_tab (ucast wc) 0 maxlen"

text \<open>The bytes put in the output buffer, whose number is the function's result.\<close>

fun Unicode_String_to_UTF8_String :: "u16 option list \<Rightarrow> int \<Rightarrow> fault + bytes" where
  "Unicode_String_to_UTF8_String [] maxlen = Inl Out_Of_Bounds"
| "Unicode_String_to_UTF8_String (None # ip) maxlen = Inl Uninit_Read"
| "Unicode_String_to_UTF8_String (Some wc # ip) maxlen =
     (if wc \<noteq> 0 \<and> maxlen > 0
      then if wc > 0x7f
           then let (size, bs) = Unicode_Character_to_UTF8_Character wc maxlen
                in if size = - 1 then Unicode_String_to_UTF8_String ip (maxlen - 1)
                   else map_sum id (\<lambda>op. bs @ op) (Unicode_String_to_UTF8_String ip (maxlen - size))
           else map_sum id (\<lambda>op. ucast wc # op) (Unicode_String_to_UTF8_String ip (maxlen - 1))
      else Inr [])"

section \<open>Reference\<close>

definition utf8_encode :: "nat \<Rightarrow> nat list" where
  "utf8_encode ch =
     (if ch < 0x80 then [ch]
      else if ch < 0x800 then [0xC0 + ch div 64, 0x80 + ch mod 64]
      else [0xE0 + ch div 4096, 0x80 + ch div 64 mod 64, 0x80 + ch mod 64])"

fun utf8_decode :: "nat list \<Rightarrow> nat list option" where
  "utf8_decode [] = Some []"
| "utf8_decode (a # bs) =
     (if a < 0x80 then map_option (Cons a) (utf8_decode bs)
      else if 0xC0 \<le> a \<and> a < 0xE0 then
        (case bs of b # bs' \<Rightarrow> map_option (Cons ((a - 0xC0) * 64 + (b - 0x80))) (utf8_decode bs') | _ \<Rightarrow> None)
      else if 0xE0 \<le> a \<and> a < 0xF0 then
        (case bs of b # c # bs' \<Rightarrow>
           map_option (Cons ((a - 0xE0) * 4096 + (b - 0x80) * 64 + (c - 0x80))) (utf8_decode bs') | _ \<Rightarrow> None)
      else None)"

section \<open>Lemmas\<close>

lemma uni_copy_eq:
  assumes "n \<le> length src" and "n < 2 ^ 32"
  shows "uni_copy n src = Inr (takeWhile (\<lambda>c. c \<noteq> 0) (take n src),
    of_nat (n - length (takeWhile (\<lambda>c. c \<noteq> 0) (take n src))) - 1)"
  using assms
proof (induction n src rule: uni_copy.induct)
  case (3 n ch src)
  then show ?case by (auto simp: of_nat_diff)
qed simp_all

lemma UniStrncpy_eq:
  assumes "n \<le> length src" and "n < 2 ^ 32"
  shows "UniStrncpy n src = Inr (takeWhile (\<lambda>c. c \<noteq> 0) (take n src)
    @ replicate (n - length (takeWhile (\<lambda>c. c \<noteq> 0) (take n src))) 0)"
proof -
  define w where "w = takeWhile (\<lambda>c. c \<noteq> 0) (take n src)"
  have "unat (of_nat (n - length w) :: u32) = n - length w"
    using assms(2) by (simp add: unsigned_of_nat take_bit_nat_eq_self)
  then show ?thesis
    using uni_copy_eq [OF assms] by (simp add: UniStrncpy_def w_def [symmetric])
qed

text \<open>
  C37: \<^verbatim>\<open>UniStrncpy\<close> writes exactly \<open>n\<close> units: those before the first zero of the source, then zeroes; the
  wrap-around of \<^verbatim>\<open>n--\<close> at zero is undone before the second loop counts.
\<close>

lemma UniStrncpy_pads:
  assumes "n \<le> length src" and "n < 2 ^ 32"
  shows "\<exists>xs k. UniStrncpy n src = Inr xs \<and> length xs = n
    \<and> xs = takeWhile (\<lambda>c. c \<noteq> 0) (take n src) @ replicate k 0"
  using UniStrncpy_eq [OF assms] assms(1) length_takeWhile_le [of "\<lambda>c. c \<noteq> 0" "take n src"] by auto

lemma UniStrncpy_nonzero:
  assumes "n \<le> length src" and "n < 2 ^ 32" and "0 \<notin> set (take n src)"
  shows "UniStrncpy n src = Inr (take n src)"
proof -
  have "takeWhile (\<lambda>c. c \<noteq> 0) (take n src) = take n src"
    using assms(3) by (intro takeWhile_eq_all_conv [THEN iffD2]) auto
  with UniStrncpy_eq [OF assms(1,2)] assms(1) show ?thesis by (simp only:) simp
qed

section \<open>One character\<close>

definition utf8_length :: "nat \<Rightarrow> int" where
  "utf8_length ch = (if ch < 0x80 then 1 else if ch < 0x800 then 2 else 3)"

lemma length_utf8_encode: "int (length (utf8_encode ch)) = utf8_length ch"
  by (simp add: utf8_encode_def utf8_length_def)

lemma unat_lead: "unat (ucast (w OR x :: u32) :: u8) = a * 2 ^ n + unat x"
  if "unat w = a * 2 ^ n" "unat x < 2 ^ n" "a * 2 ^ n + unat x < 256"
proof -
  have "unat (w OR x) = a * 2 ^ n + unat x"
    using that(1,2) by (simp only: unsigned_or_eq or_add_nat)
  with that(3) show ?thesis by (simp add: unsigned_ucast_eq take_bit_nat_eq_self)
qed

lemma unat_cont_byte: "unat (ucast (0x80 OR (drop_bit k l AND 0x3F) :: u32) :: u8) = 0x80 + unat l div 2 ^ k mod 64"
proof -
  have m: "drop_bit k l AND 0x3F = take_bit 6 (drop_bit k l)" by (simp add: take_bit_eq_mask mask_eq_exp_minus_1)
  have u: "unat (drop_bit k l AND 0x3F) = unat l div 2 ^ k mod 64"
    using take_bit_nat_eq_self [OF unat_bound [of l]] unfolding m
    by (simp only: unsigned_take_bit_eq unsigned_drop_bit_eq) (simp add: take_bit_eq_mod drop_bit_eq_div)
  have "unat l div 2 ^ k mod 64 < 64" by simp
  then show ?thesis
    using unat_lead [of "0x80" 2 6 "drop_bit k l AND 0x3F"] u by simp
qed

lemma utf8_cont_steps:
  "utf8_cont 0 l = []"
  "utf8_cont 6 l = [ucast (0x80 OR (drop_bit 0 l AND 0x3F))]"
  "utf8_cont 12 l = [ucast (0x80 OR (drop_bit 6 l AND 0x3F)), ucast (0x80 OR (drop_bit 0 l AND 0x3F))]"
  by (subst utf8_cont.simps, simp)+

lemma unat_drop_u32: "unat (drop_bit k l :: u32) = unat l div 2 ^ k"
  using take_bit_nat_eq_self [OF unat_bound [of l]]
  by (simp only: unsigned_drop_bit_eq) (simp add: drop_bit_eq_div)

lemma char_bytes:
  fixes wc :: u16
  defines "l \<equiv> ucast wc :: u32"
  shows "unat wc < 0x80 \<Longrightarrow> map unat [ucast ((0x00 :: u32) OR drop_bit 0 l) :: u8] = utf8_encode (unat wc)"
    and "0x80 \<le> unat wc \<Longrightarrow> unat wc < 0x800 \<Longrightarrow>
      map unat ((ucast (0xC0 OR drop_bit 6 l) :: u8) # utf8_cont 6 l) = utf8_encode (unat wc)"
    and "0x800 \<le> unat wc \<Longrightarrow>
      map unat ((ucast (0xE0 OR drop_bit 12 l) :: u8) # utf8_cont 12 l) = utf8_encode (unat wc)"
proof -
  have l: "unat l = unat wc" by (simp add: l_def unat_ucast_up)
  have b: "unat wc < 65536" using unat_bound [of wc] by simp
  show "map unat [ucast ((0x00 :: u32) OR drop_bit 0 l) :: u8] = utf8_encode (unat wc)" if "unat wc < 0x80"
    using that by (simp add: utf8_encode_def l unsigned_ucast_eq take_bit_nat_eq_self)
  show "map unat ((ucast (0xC0 OR drop_bit 6 l) :: u8) # utf8_cont 6 l) = utf8_encode (unat wc)"
    if "0x80 \<le> unat wc" "unat wc < 0x800"
  proof -
    have "unat wc div 64 < 32" using that(2) by (simp add: less_mult_imp_div_less)
    then have "unat (ucast (0xC0 OR drop_bit 6 l) :: u8) = 0xC0 + unat wc div 64"
      using unat_lead [of "0xC0" 6 5 "drop_bit 6 l"] by (simp only: unat_drop_u32 l) simp
    with that show ?thesis
      by (simp only: utf8_cont_steps list.map unat_cont_byte l) (simp add: utf8_encode_def)
  qed
  show "map unat ((ucast (0xE0 OR drop_bit 12 l) :: u8) # utf8_cont 12 l) = utf8_encode (unat wc)"
    if "0x800 \<le> unat wc"
  proof -
    have "unat wc div 4096 < 16" using b by (simp add: less_mult_imp_div_less)
    then have "unat (ucast (0xE0 OR drop_bit 12 l) :: u8) = 0xE0 + unat wc div 4096"
      using unat_lead [of "0xE0" 14 4 "drop_bit 12 l"] by (simp only: unat_drop_u32 l) simp
    with that show ?thesis
      by (simp only: utf8_cont_steps list.map unat_cont_byte l) (simp add: utf8_encode_def)
  qed
qed

lemma char_cases:
  assumes "0 \<le> maxlen"
  shows "Unicode_Character_to_UTF8_Character wc maxlen =
    (if maxlen < utf8_length (unat wc) then (- 1, [])
     else (utf8_length (unat wc),
       if unat wc < 0x80 then [ucast ((0x00 :: u32) OR drop_bit 0 (ucast wc :: u32)) :: u8]
       else if unat wc < 0x800 then (ucast (0xC0 OR drop_bit 6 (ucast wc :: u32)) :: u8) # utf8_cont 6 (ucast wc)
       else (ucast (0xE0 OR drop_bit 12 (ucast wc :: u32)) :: u8) # utf8_cont 12 (ucast wc)))"
proof -
  define l where "l = (ucast wc :: u32)"
  have l: "unat l = unat wc" by (simp add: l_def unat_ucast_up)
  have b: "unat wc < 65536" using unat_bound [of wc] by simp
  have le: "(l \<le> 0x7F) = (unat wc < 0x80)" "(l \<le> 0x7FF) = (unat wc < 0x800)" "(l \<le> 0xFFFF) = True"
    using b by (auto simp: word_le_nat_alt l)
  show ?thesis
    unfolding Unicode_Character_to_UTF8_Character_def utf8_table_tab_def l_def [symmetric]
    using assms le by (auto simp: utf8_length_def utf8_cont_steps)
qed

lemma char_encode:
  assumes "0 \<le> maxlen"
  shows "fst (Unicode_Character_to_UTF8_Character wc maxlen) =
      (if utf8_length (unat wc) \<le> maxlen then utf8_length (unat wc) else - 1)"
    and "map unat (snd (Unicode_Character_to_UTF8_Character wc maxlen)) =
      (if utf8_length (unat wc) \<le> maxlen then utf8_encode (unat wc) else [])"
  using char_bytes [of wc] by (auto simp: char_cases [OF assms])

text \<open>A negative limit, which the loop counts down without meeting zero, is none.\<close>

lemma char_unlimited:
  assumes "maxlen < 0"
  shows "Unicode_Character_to_UTF8_Character wc maxlen = Unicode_Character_to_UTF8_Character wc 3"
proof -
  have "(ucast wc :: u32) \<le> 0xFFFF" using unat_bound [of wc] by (simp add: word_le_nat_alt unat_ucast_up)
  then show ?thesis using assms by (simp add: Unicode_Character_to_UTF8_Character_def utf8_table_tab_def)
qed

text \<open>
  C21: one character. \<^verbatim>\<open>Unicode_Character_to_UTF8_Character\<close> writes the UTF-8 encoding of the unit and
  returns its length when that many bytes are allowed or the limit is negative, and returns -1, writing nothing, otherwise.
\<close>

theorem Unicode_Character_encodes:
  "if maxlen < 0 \<or> int (length (utf8_encode (unat wc))) \<le> maxlen
    then \<exists>bs. Unicode_Character_to_UTF8_Character wc maxlen = (int (length bs), bs)
           \<and> map unat bs = utf8_encode (unat wc)
    else Unicode_Character_to_UTF8_Character wc maxlen = (- 1, [])"
proof -
  have fits: "if int (length (utf8_encode (unat wc))) \<le> k
    then \<exists>bs. Unicode_Character_to_UTF8_Character wc k = (int (length bs), bs) \<and> map unat bs = utf8_encode (unat wc)
    else Unicode_Character_to_UTF8_Character wc k = (- 1, [])" if "0 \<le> k" for k
    using char_encode [OF that, of wc] char_cases [OF that, of wc]
    by (auto simp: length_utf8_encode utf8_length_def utf8_cont_steps)
  show ?thesis
  proof (cases "0 \<le> maxlen")
    case True
    with fits [OF True] show ?thesis by simp
  next
    case False
    have "int (length (utf8_encode (unat wc))) \<le> 3" by (simp add: utf8_encode_def)
    with fits [of 3] False char_unlimited [of maxlen wc] show ?thesis by simp
  qed
qed

theorem Unicode_Character_encodes_witness:
  "(\<exists>bs. Unicode_Character_to_UTF8_Character 0x20AC 3 = (int (length bs), bs) \<and> map unat bs = [0xE2, 0x82, 0xAC])
   \<and> Unicode_Character_to_UTF8_Character 0x20AC 2 = (- 1, [])
   \<and> snd (Unicode_Character_to_UTF8_Character 0x20AC (- 1)) \<noteq> []"
  using Unicode_Character_encodes [of 3 "0x20AC"] Unicode_Character_encodes [of 2 "0x20AC"] Unicode_Character_encodes [of "- 1" "0x20AC"]
  by (auto simp: utf8_encode_def)

section \<open>Strings\<close>

text \<open>What the conversion keeps: the encodings in order, a character that does not fit counted as one byte
  and dropped.\<close>

fun utf8_fit :: "nat list \<Rightarrow> int \<Rightarrow> nat list" where
  "utf8_fit [] maxlen = []"
| "utf8_fit (ch # cs) maxlen =
     (if maxlen \<le> 0 then []
      else if utf8_length ch \<le> maxlen then utf8_encode ch @ utf8_fit cs (maxlen - utf8_length ch)
      else utf8_fit cs (maxlen - 1))"

lemma utf8_length_pos: "1 \<le> utf8_length ch" "utf8_length ch \<noteq> - 1"
  by (simp_all add: utf8_length_def)

lemma string_fits:
  "0 \<notin> set ws \<Longrightarrow> \<exists>bs. Unicode_String_to_UTF8_String (map Some ws @ [Some 0] @ rest) maxlen = Inr bs
     \<and> map unat bs = utf8_fit (map unat ws) maxlen"
proof (induction ws arbitrary: maxlen)
  case (Cons wc ws)
  define r where "r = (\<lambda>m. Unicode_String_to_UTF8_String (map Some ws @ [Some 0] @ rest) m)"
  have IH: "\<exists>bs. r m = Inr bs \<and> map unat bs = utf8_fit (map unat ws) m" for m
    using Cons by (simp add: r_def)
  show ?case
  proof (cases "maxlen > 0")
    case True
    obtain size bs where cb: "Unicode_Character_to_UTF8_Character wc maxlen = (size, bs)" by (metis surj_pair)
    have e: "size = (if utf8_length (unat wc) \<le> maxlen then utf8_length (unat wc) else - 1)"
      "map unat bs = (if utf8_length (unat wc) \<le> maxlen then utf8_encode (unat wc) else [])"
      using char_encode [of maxlen wc] True cb by simp_all
    have small: "(wc > 0x7f) = (\<not> unat wc < 0x80)" by (auto simp: word_less_nat_alt)
    have "unat (ucast wc :: u8) = unat wc" if "unat wc < 0x80"
      using that by (simp add: unsigned_ucast_eq take_bit_nat_eq_self)
    moreover have "wc \<noteq> 0" using Cons.prems by auto
    moreover note IH [of "maxlen - 1"] IH [of "maxlen - utf8_length (unat wc)"]
    ultimately show ?thesis
      using True cb e small utf8_length_pos [of "unat wc"]
      by (auto simp: r_def utf8_length_def utf8_encode_def split: if_splits)
  qed (use Cons.prems in auto)
qed simp

lemma length_utf8_fit: "0 \<le> maxlen \<Longrightarrow> int (length (utf8_fit cs maxlen)) \<le> maxlen"
  by (induction cs maxlen rule: utf8_fit.induct) (auto simp: length_utf8_encode)

lemma utf8_fit_all:
  "sum_list (map utf8_length cs) \<le> maxlen \<Longrightarrow> utf8_fit cs maxlen = concat (map utf8_encode cs)"
proof (induction cs maxlen rule: utf8_fit.induct)
  case (2 ch cs maxlen)
  have "0 \<le> sum_list (map utf8_length cs)" by (rule sum_list_nonneg) (auto simp: utf8_length_def)
  with 2 utf8_length_pos [of ch] show ?case by auto
qed simp

lemma length_utf8_encodes: "int (length (concat (map utf8_encode cs))) = sum_list (map utf8_length cs)"
  by (induction cs) (simp_all add: length_utf8_encode)

lemma utf8_length_sum_ascii: "list_all (\<lambda>c. c < 0x80) cs \<longleftrightarrow> sum_list (map utf8_length cs) \<le> int (length cs)"
proof (induction cs)
  case (Cons ch cs)
  have "int (length cs) \<le> sum_list (map utf8_length cs)"
    by (induction cs) (auto simp: utf8_length_def)
  with Cons show ?case by (auto simp: utf8_length_def [of ch])
qed simp

text \<open>
  C36: names. Converting a name of \<open>n\<close> nonzero units with \<open>n\<close> as the limit, as the directory code does, never
  writes more than \<open>n\<close> bytes, and it yields the whole name in UTF-8 exactly when all units are ASCII: the
  limit counts bytes, the caller passes the number of units, so other names lose characters.
\<close>

theorem Unicode_String_names:
  assumes "0 \<notin> set ws"
  shows "\<exists>bs. Unicode_String_to_UTF8_String (map Some ws @ [Some 0]) (int (length ws)) = Inr bs
    \<and> length bs \<le> length ws
    \<and> (map unat bs = concat (map (utf8_encode \<circ> unat) ws) \<longleftrightarrow> list_all (\<lambda>w. unat w < 0x80) ws)"
proof -
  define cs where "cs = map unat ws"
  obtain bs where bs: "Unicode_String_to_UTF8_String (map Some ws @ [Some 0]) (int (length ws)) = Inr bs"
    "map unat bs = utf8_fit cs (int (length ws))"
    using string_fits [OF assms, of "[]"] by (auto simp: cs_def)
  have len: "int (length bs) \<le> int (length ws)"
    using length_utf8_fit [of "int (length ws)" cs] bs(2) by (metis length_map of_nat_0_le_iff)
  have "map unat bs = concat (map utf8_encode cs) \<longleftrightarrow> sum_list (map utf8_length cs) \<le> int (length cs)"
    using bs(2) len length_utf8_encodes [of cs] utf8_fit_all [of cs "int (length ws)"]
    by (metis cs_def length_map)
  then have "map unat bs = concat (map (utf8_encode \<circ> unat) ws) \<longleftrightarrow> list_all (\<lambda>w. unat w < 0x80) ws"
    unfolding utf8_length_sum_ascii [symmetric] by (simp add: cs_def list_all_iff)
  with bs(1) len show ?thesis by auto
qed

theorem Unicode_String_names_witness:
  "\<exists>bs. Unicode_String_to_UTF8_String (map Some [0x63, 0x61, 0x66, 0xE9] @ [Some 0]) 4 = Inr bs
    \<and> length bs \<le> 4 \<and> map unat bs \<noteq> [0x63, 0x61, 0x66, 0xC3, 0xA9]"
proof -
  have len: "length [0x63, 0x61, 0x66, 0xE9 :: u16] = 4" by simp
  have "\<exists>bs. Unicode_String_to_UTF8_String (map Some [0x63, 0x61, 0x66, 0xE9] @ [Some 0]) (int 4) = Inr bs
      \<and> length bs \<le> 4 \<and> (map unat bs = concat (map (utf8_encode \<circ> unat) [0x63, 0x61, 0x66, 0xE9 :: u16])
        \<longleftrightarrow> list_all (\<lambda>w. unat w < 0x80) [0x63, 0x61, 0x66, 0xE9 :: u16])"
    unfolding len [symmetric] by (rule Unicode_String_names) simp
  then show ?thesis by (simp add: utf8_encode_def del: Unicode_String_to_UTF8_String.simps)
qed

lemma utf8_decode_encode:
  "c < 65536 \<Longrightarrow> utf8_decode (utf8_encode c @ bs) = map_option (Cons c) (utf8_decode bs)"
proof -
  assume c: "c < 65536"
  have "c div 64 < 32" if "c < 0x800" using that by (simp add: less_mult_imp_div_less)
  moreover have "c div 4096 < 16" using c by (simp add: less_mult_imp_div_less)
  moreover have "c div 4096 * 4096 + c div 64 mod 64 * 64 + c mod 64 = c"
  proof -
    have "c div 4096 = c div 64 div 64" by (simp add: div_mult2_eq [symmetric])
    with div_mult_mod_eq [of "c div 64" 64] div_mult_mod_eq [of c 64] show ?thesis by linarith
  qed
  ultimately show ?thesis by (auto simp: utf8_encode_def mult.commute)
qed

text \<open>
  C22: round trip. When the limit is large enough for every character, decoding the bytes the conversion
  writes gives the name back.
\<close>

theorem Unicode_String_roundtrip:
  assumes "0 \<notin> set ws" and "3 * int (length ws) \<le> maxlen"
  shows "\<exists>bs. Unicode_String_to_UTF8_String (map Some ws @ [Some 0]) maxlen = Inr bs
    \<and> utf8_decode (map unat bs) = Some (map unat ws)"
proof -
  have "sum_list (map (utf8_length \<circ> unat) ws) \<le> 3 * int (length ws)"
    by (induction ws) (auto simp: utf8_length_def)
  then have "utf8_fit (map unat ws) maxlen = concat (map utf8_encode (map unat ws))"
    using assms(2) by (intro utf8_fit_all) simp
  moreover have "utf8_decode (concat (map utf8_encode (map unat ws))) = Some (map unat ws)"
  proof (induction ws)
    case (Cons w ws)
    then show ?case using unat_bound [of w] by (simp add: utf8_decode_encode)
  qed simp
  ultimately show ?thesis using string_fits [OF assms(1), of "[]" maxlen] by auto
qed

theorem Unicode_String_roundtrip_witness:
  "\<exists>bs. Unicode_String_to_UTF8_String (map Some [0x20AC, 0x41] @ [Some 0]) 6 = Inr bs
    \<and> utf8_decode (map unat bs) = Some [0x20AC, 0x41]"
  using Unicode_String_roundtrip [of "[0x20AC, 0x41]" 6] by simp

end
