(* ===== verification/Jfs_Dirread.thy ===== *)
theory Jfs_Dirread
  imports Jfs_Imap Jfs_Unicode
begin

text \<open>
  Reading directories, \<^verbatim>\<open>jfs_dirread.c\<close>: the assembly of an entry's name from its chain of slots, the entry at a
  position (\<^verbatim>\<open>readndir\<close>) and the search for a name (\<^verbatim>\<open>directory\<close>, \<^verbatim>\<open>print_direntry\<close>). A page is the bytes of its
  slot array: 288 bytes for the root in the inode, 4096 for a page of its own.
\<close>

section \<open>The name of an entry\<close>

definition PATH_MAX :: nat where "PATH_MAX = 4095"

text \<open>\<^verbatim>\<open>UTF8_Buffer\<close> after it was cleared and \<open>bs\<close> written at its start.\<close>

definition sizeof_UTF8_Buffer :: nat where "sizeof_UTF8_Buffer = 8 * PATH_MAX"

definition UTF8_Buffer :: "bytes \<Rightarrow> bytes" where
  "UTF8_Buffer bs = bs @ replicate (sizeof_UTF8_Buffer - length bs) 0"

text \<open>Writing \<open>xs\<close> at position \<open>n\<close> of the block \<open>name\<close>.\<close>

definition put_units :: "u16 option list \<Rightarrow> nat \<Rightarrow> u16 list \<Rightarrow> u16 option list run" where
  "put_units name n xs = run_check (n + length xs \<le> length name) Out_Of_Bounds
     (run_return (take n name @ map Some xs @ drop (n + length xs) name))"

text \<open>One round of \<^verbatim>\<open>while (next >= 0)\<close>; the state is the block \<open>name\<close>, the position \<open>n\<close> in it, and the
  variables \<open>namlen\<close>, \<open>len\<close> and \<open>next\<close>.\<close>

definition name_slot ::
  "bytes \<Rightarrow> u16 option list \<times> nat \<times> int \<times> int \<times> int \<Rightarrow>
     (u16 option list \<times> nat \<times> int \<times> int \<times> int + u16 option list) run" where
  "name_slot slot = (\<lambda>(name, n, namlen, len, next).
     if next \<ge> 0
     then run_bind (run_lift (slot_at slot (nat next))) (\<lambda>p.
            let s = dtslot_of slot p; namlen = namlen - len; len = min namlen DTSLOTDATALEN
            in run_bind (run_lift (UniStrncpy (nat len) (slot_name s))) (\<lambda>xs.
                 run_bind (put_units name n xs) (\<lambda>name.
                   run_return (Inl (name, n + nat len, namlen, len, sint (slot_next s))))))
     else run_return (Inr name))"

definition entry_name :: "bytes \<Rightarrow> ldtentry_t \<Rightarrow> u16 option list run" where
  "entry_name slot entry =
     (let namlen = uint (ld_namlen entry);
          name = replicate (nat namlen) None @ [Some 0];
          len = min namlen DTLHDRDATALEN
      in run_bind (run_lift (UniStrncpy (nat len) (ld_name entry))) (\<lambda>xs.
           run_bind (put_units name 0 xs) (\<lambda>name.
             run_loop (name_slot slot) (name, nat len, namlen, len, sint (ld_next entry)))))"

text \<open>\<open>None\<close> when the allocation fails, and then \<^verbatim>\<open>*rname\<close> and \<^verbatim>\<open>*gotinum\<close> keep their values; otherwise the bytes
  put at the start of \<^verbatim>\<open>rname\<close>, an array of \<open>cap\<close> bytes, and the inode number. The block \<open>name\<close> is not freed.\<close>

definition name_inum :: "bytes \<Rightarrow> u8 \<Rightarrow> nat \<Rightarrow> heap \<Rightarrow> ((bytes \<times> u64) option \<times> heap) run" where
  "name_inum slot head_index cap h =
     run_bind (run_lift (slot_at slot (unat head_index))) (\<lambda>p.
       let entry = ldtentry_of slot p; (ok, h) = malloc h
       in if \<not> ok then run_return (None, h)
          else run_bind (entry_name slot entry) (\<lambda>name.
            run_bind (run_lift (Unicode_String_to_UTF8_String name (uint (ld_namlen entry)))) (\<lambda>bs.
              run_check (unat (ld_namlen entry) < cap) Out_Of_Bounds
                (run_return (Some (take (unat (ld_namlen entry)) (UTF8_Buffer bs) @ [0],
                                   ucast (ld_inumber entry)), h)))))"

text \<open>The comparison with \<^verbatim>\<open>sname\<close>, whose bytes are of type \<^verbatim>\<open>char\<close>, which is signed.\<close>

fun direntry_matches :: "bytes \<Rightarrow> bytes \<Rightarrow> nat \<Rightarrow> bool run" where
  "direntry_matches buf sname 0 = run_return True"
| "direntry_matches [] sname (Suc n) = run_fault Out_Of_Bounds"
| "direntry_matches buf [] (Suc n) = run_fault Out_Of_Bounds"
| "direntry_matches (b # buf) (s # sname) (Suc n) =
     (if uint b = sint s then direntry_matches buf sname n else run_return False)"

text \<open>The result code and \<^verbatim>\<open>*gotinum\<close> afterwards.\<close>

definition print_direntry ::
  "bytes \<Rightarrow> u8 \<Rightarrow> bytes \<Rightarrow> nat \<Rightarrow> u64 option \<Rightarrow> heap \<Rightarrow> (int \<times> u64 option \<times> heap) run" where
  "print_direntry slot head_index sname snamelen gotinum h =
     run_bind (run_lift (slot_at slot (unat head_index))) (\<lambda>p.
       let entry = ldtentry_of slot p; (ok, h) = malloc h
       in if \<not> ok then run_return (1, gotinum, h)
          else run_bind (entry_name slot entry) (\<lambda>name.
            run_bind (run_lift (Unicode_String_to_UTF8_String name (uint (ld_namlen entry)))) (\<lambda>bs.
              run_bind (direntry_matches (UTF8_Buffer bs) sname snamelen) (\<lambda>eq.
                if eq then run_return (0, Some (ucast (ld_inumber entry)), free_block h)
                else run_return (1, Some (- 1), free_block h)))))"

section \<open>Walking the leaves\<close>

text \<open>\<^verbatim>\<open>descend:\<close> reads the page of an entry and goes on to its first entry until it has a leaf. The result is
  the leaf page, or \<open>None\<close> when a page cannot be read.\<close>

definition descend_page :: "fs \<Rightarrow> idtentry_t \<times> heap \<Rightarrow> (idtentry_t \<times> heap + bytes option \<times> heap) run" where
  "descend_page d = (\<lambda>(node_entry, h).
     run_bind (xRead d (shl_l2bsize d (addressPXD (id_xd node_entry))) sizeof_dtpage h) (\<lambda>(b, h).
       case b of None \<Rightarrow> run_return (Inr (None, h))
       | Some dtree \<Rightarrow>
           if dp_flag (dtpage_header_of dtree) AND BT_LEAF = 0
           then run_bind (run_lift (byte_at dtree (32 * unat (dp_stblindex (dtpage_header_of dtree))))) (\<lambda>k.
             run_bind (run_lift (slot_at dtree (unat k))) (\<lambda>p.
               run_return (Inl (idtentry_of dtree p, h))))
           else run_return (Inr (Some dtree, h))))"

definition leftmost_leaf :: "fs \<Rightarrow> idtentry_t \<Rightarrow> heap \<Rightarrow> (bytes option \<times> heap) run" where
  "leftmost_leaf d node_entry h = run_loop (descend_page d) (node_entry, h)"

text \<open>The first entry of a root that is not a leaf; \<^verbatim>\<open>stbl\<close> of the root is an array of signed bytes.\<close>

definition root_first_entry :: "bytes \<Rightarrow> idtentry_t run" where
  "root_first_entry root =
     (let k = sint (dr_stbl (dtroot_header_of root) ! 0)
      in run_check (0 \<le> k) Out_Of_Bounds
           (run_bind (run_lift (slot_at root (nat k))) (\<lambda>p. run_return (idtentry_of root p))))"

text \<open>The index of the \<open>i\<close>-th entry of the root and of a page.\<close>

definition root_stbl :: "bytes \<Rightarrow> nat \<Rightarrow> fault + u8" where
  "root_stbl root i = byte_at (dr_stbl (dtroot_header_of root)) i"

definition page_stbl :: "bytes \<Rightarrow> nat \<Rightarrow> fault + u8" where
  "page_stbl dtree i = byte_at dtree (32 * unat (dp_stblindex (dtpage_header_of dtree)) + i)"

section \<open>The entry at a position\<close>

text \<open>The loop over the entries of a page, \<open>k\<close> of them left from the \<open>i\<close>-th: the position counter after it, or
  what \<^verbatim>\<open>name_inum\<close> gave for the entry at \<open>pos\<close>.\<close>

fun readndir_entries ::
  "bytes \<Rightarrow> (nat \<Rightarrow> fault + u8) \<Rightarrow> nat \<Rightarrow> int \<Rightarrow> int \<Rightarrow> nat \<Rightarrow> nat \<Rightarrow> heap \<Rightarrow>
     (int + (bytes \<times> u64) option \<times> heap) run" where
  "readndir_entries slot stbl cap pos cpos i 0 h = run_return (Inl cpos)"
| "readndir_entries slot stbl cap pos cpos i (Suc k) h =
     (if cpos = pos
      then run_bind (run_lift (stbl i)) (\<lambda>head.
        run_bind (name_inum slot head cap h) (\<lambda>(r, h). run_return (Inr (r, h))))
      else readndir_entries slot stbl cap pos (cpos + 1) (i + 1) k h)"

text \<open>\<^verbatim>\<open>next_leaf:\<close> with the state \<open>(dtree, cpos)\<close>. The result is the return value and what was written to
  \<^verbatim>\<open>*name2\<close> and \<^verbatim>\<open>*rino1\<close>.\<close>

definition readndir_leaf ::
  "fs \<Rightarrow> nat \<Rightarrow> int \<Rightarrow> bytes \<times> int \<times> heap \<Rightarrow>
     (bytes \<times> int \<times> heap + int \<times> (bytes \<times> u64) option \<times> heap) run" where
  "readndir_leaf d cap pos = (\<lambda>(dtree, cpos, h).
     run_bind (readndir_entries dtree (page_stbl dtree) cap pos cpos 0
         (unat (dp_nextindex (dtpage_header_of dtree))) h) (\<lambda>r.
       case r of
         Inr (out, h) \<Rightarrow> run_return (Inr (0, out, h))
       | Inl cpos \<Rightarrow>
           if dp_next (dtpage_header_of dtree) \<noteq> 0
           then run_bind (xRead d (shl_l2bsize d (dp_next (dtpage_header_of dtree))) sizeof_dtpage h) (\<lambda>(b, h).
             case b of None \<Rightarrow> run_return (Inr (1, None, h))
             | Some dtree \<Rightarrow> run_return (Inl (dtree, cpos, h)))
           else run_return (Inr (1, None, h))))"

text \<open>From the root of the directory on.\<close>

definition readndir_root :: "fs \<Rightarrow> int \<Rightarrow> nat \<Rightarrow> bytes \<Rightarrow> heap \<Rightarrow> (int \<times> (bytes \<times> u64) option \<times> heap) run" where
  "readndir_root d pos cap root h =
     (if dr_flag (dtroot_header_of root) AND BT_LEAF \<noteq> 0
      then if dr_nextindex (dtroot_header_of root) = 0 then run_return (1, None, h)
           else run_bind (readndir_entries root (root_stbl root) cap pos 0 0
               (unat (dr_nextindex (dtroot_header_of root))) h) (\<lambda>r.
             case r of Inr (out, h) \<Rightarrow> run_return (0, out, h)
             | Inl cpos \<Rightarrow> run_return (1, None, h))
      else run_bind (root_first_entry root) (\<lambda>node_entry.
        run_bind (leftmost_leaf d node_entry h) (\<lambda>(leaf, h).
          case leaf of None \<Rightarrow> run_return (1, None, h)
          | Some dtree \<Rightarrow> run_loop (readndir_leaf d cap pos) (dtree, 0, h))))"

text \<open>\<open>cap\<close> is the size of the array \<^verbatim>\<open>name2\<close>. The hundred bytes allocated first are never freed.\<close>

definition readndir :: "fs \<Rightarrow> u64 \<Rightarrow> int \<Rightarrow> nat \<Rightarrow> heap \<Rightarrow> (int \<times> (bytes \<times> u64) option \<times> heap) run" where
  "readndir d cache_id pos cap h =
     (let (ok, h) = malloc h
      in if \<not> ok then run_return (1, None, h)
         else run_bind (find_inode d (ucast cache_id) 16 h) (\<lambda>(a, h).
           case a of None \<Rightarrow> run_return (1, None, h)
           | Some address \<Rightarrow>
               run_bind (xRead d address sizeof_dinode h) (\<lambda>(b, h).
                 case b of None \<Rightarrow> run_return (1, None, h)
                 | Some inode \<Rightarrow>
                     if di_mode (dinode_of inode) AND IFMT \<noteq> IFDIR then run_return (1, None, h)
                     else readndir_root d pos cap (di_btroot (dinode_of inode)) h)))"

section \<open>The search for a name\<close>

text \<open>The loop over the entries of a page: whether an entry matched, and \<^verbatim>\<open>*gotinum\<close>.\<close>

fun directory_entries ::
  "bytes \<Rightarrow> (nat \<Rightarrow> fault + u8) \<Rightarrow> bytes \<Rightarrow> nat \<Rightarrow> u64 option \<Rightarrow> nat \<Rightarrow> nat \<Rightarrow> heap \<Rightarrow>
     (bool \<times> u64 option \<times> heap) run" where
  "directory_entries slot stbl name namelen gotinum i 0 h = run_return (False, gotinum, h)"
| "directory_entries slot stbl name namelen gotinum i (Suc k) h =
     run_bind (run_lift (stbl i)) (\<lambda>head.
       run_bind (print_direntry slot head name namelen gotinum h) (\<lambda>(rc, gotinum, h).
         if rc = 0 then run_return (True, gotinum, h)
         else directory_entries slot stbl name namelen gotinum (i + 1) k h))"

definition directory_leaf ::
  "fs \<Rightarrow> bytes \<Rightarrow> nat \<Rightarrow> bytes \<times> u64 option \<times> heap \<Rightarrow>
     (bytes \<times> u64 option \<times> heap + u64 option \<times> heap) run" where
  "directory_leaf d name namelen = (\<lambda>(dtree, gotinum, h).
     run_bind (directory_entries dtree (page_stbl dtree) name namelen gotinum 0
         (unat (dp_nextindex (dtpage_header_of dtree))) h) (\<lambda>(found, gotinum, h).
       if found then run_return (Inr (gotinum, h))
       else if dp_next (dtpage_header_of dtree) \<noteq> 0
       then run_bind (xRead d (shl_l2bsize d (dp_next (dtpage_header_of dtree))) sizeof_dtpage h) (\<lambda>(b, h).
         case b of None \<Rightarrow> run_return (Inr (gotinum, h))
         | Some dtree \<Rightarrow> run_return (Inl (dtree, gotinum, h)))
       else run_return (Inr (gotinum, h))))"

definition directory_root ::
  "fs \<Rightarrow> bytes \<Rightarrow> nat \<Rightarrow> u64 option \<Rightarrow> bytes \<Rightarrow> heap \<Rightarrow> (u64 option \<times> heap) run" where
  "directory_root d name namelen gotinum root h =
     (if dr_flag (dtroot_header_of root) AND BT_LEAF \<noteq> 0
      then if dr_nextindex (dtroot_header_of root) = 0 then run_return (gotinum, h)
           else run_bind (directory_entries root (root_stbl root) name namelen gotinum 0
               (unat (dr_nextindex (dtroot_header_of root))) h) (\<lambda>(found, gotinum, h).
             run_return (gotinum, h))
      else run_bind (root_first_entry root) (\<lambda>node_entry.
        run_bind (leftmost_leaf d node_entry h) (\<lambda>(leaf, h).
          case leaf of None \<Rightarrow> run_return (gotinum, h)
          | Some dtree \<Rightarrow> run_loop (directory_leaf d name namelen) (dtree, gotinum, h))))"

definition directory ::
  "fs \<Rightarrow> u64 \<Rightarrow> bytes \<Rightarrow> nat \<Rightarrow> u64 option \<Rightarrow> heap \<Rightarrow> (u64 option \<times> heap) run" where
  "directory d inum name namelen gotinum h =
     run_bind (find_inode d (ucast inum) FILESYSTEM_I h) (\<lambda>(a, h).
       case a of None \<Rightarrow> run_return (gotinum, h)
       | Some address \<Rightarrow>
           run_bind (xRead d address sizeof_dinode h) (\<lambda>(b, h).
             case b of None \<Rightarrow> run_return (gotinum, h)
             | Some inode \<Rightarrow>
                 if di_mode (dinode_of inode) AND IFMT \<noteq> IFDIR then run_return (gotinum, h)
                 else directory_root d name namelen gotinum (di_btroot (dinode_of inode)) h))"

section \<open>What a directory holds\<close>

text \<open>The slots an entry's name continues in, and the name.\<close>

definition next_slot :: "u8 \<Rightarrow> nat option" where
  "next_slot k = (if sint k < 0 then None else Some (nat (sint k)))"

definition slot_succ :: "bytes \<Rightarrow> nat \<Rightarrow> nat option" where
  "slot_succ slot k = next_slot (slot_next (dtslot_of slot (32 * k)))"

definition slot_units :: "bytes \<Rightarrow> nat list \<Rightarrow> u16 list" where
  "slot_units slot ss = concat (map (\<lambda>k. slot_name (dtslot_of slot (32 * k))) ss)"

definition slots_ok :: "bytes \<Rightarrow> nat option \<Rightarrow> nat list \<Rightarrow> bool" where
  "slots_ok slot p ss \<longleftrightarrow> chain (slot_succ slot) p ss \<and> list_all (\<lambda>k. 32 * (k + 1) \<le> length slot) ss"

type_synonym dentry = "u32 \<times> u16 list"

definition entry_at :: "bytes \<Rightarrow> u8 \<Rightarrow> dentry \<Rightarrow> bool" where
  "entry_at slot head e \<longleftrightarrow> 32 * (unat head + 1) \<le> length slot
     \<and> (let entry = ldtentry_of slot (32 * unat head) in
        \<exists>ss. slots_ok slot (next_slot (ld_next entry)) ss
          \<and> unat (ld_namlen entry) \<le> 11 + 15 * length ss
          \<and> e = (ld_inumber entry, take (unat (ld_namlen entry)) (ld_name entry @ slot_units slot ss)))
     \<and> 0 \<notin> set (snd e)"

lemma length_slot_name [simp]: "length (slot_name (dtslot_of b p)) = 15"
  by (simp add: dtslot_of_def)

lemma length_ld_name [simp]: "length (ld_name (ldtentry_of b p)) = 11"
  by (simp add: ldtentry_of_def)

lemma length_slot_units [simp]: "length (slot_units slot ss) = 15 * length ss"
  by (induction ss) (simp_all add: slot_units_def)

lemma slot_units_Cons: "slot_units slot (k # ss) = slot_name (dtslot_of slot (32 * k)) @ slot_units slot ss"
  by (simp add: slot_units_def)

lemma put_units_next:
  "length xs \<le> r \<Longrightarrow> put_units (map Some pre @ replicate r None @ [Some 0]) (length pre) xs =
     run_return (map Some (pre @ xs) @ replicate (r - length xs) None @ [Some 0])"
  by (simp add: put_units_def)

text \<open>The loop over the slots fills in what is left of the name.\<close>

lemma name_slots:
  assumes "slots_ok slot (if next < 0 then None else Some (nat next)) ss"
    and "int r = namlen - len" and "r \<le> 15 * length ss" and "0 \<notin> set (take r (slot_units slot ss))"
  shows "run_loop (name_slot slot) (map Some pre @ replicate r None @ [Some 0], length pre, namlen, len, next)
    = run_return (map Some (pre @ take r (slot_units slot ss)) @ [Some 0])"
  using assms
proof (induction ss arbitrary: pre r namlen len "next")
  case Nil
  then have "next < 0" by (simp add: slots_ok_def split: if_splits)
  with Nil show ?case by (subst run_loop_done) (simp_all add: name_slot_def)
next
  case (Cons k ss)
  define us where "us = slot_name (dtslot_of slot (32 * k))"
  define m where "m = min r 15"
  have k: "\<not> next < 0" "nat next = k" "slots_ok slot (slot_succ slot k) ss" "32 * (k + 1) \<le> length slot"
    using Cons.prems(1) by (auto simp: slots_ok_def split: if_splits)
  have m: "min (namlen - len) DTSLOTDATALEN = int m" "nat (int m) = m"
    using Cons.prems(2) by (simp_all add: m_def DTSLOTDATALEN_def)
  have split: "take r (slot_units slot (k # ss)) = take m us @ take (r - m) (slot_units slot ss)"
    by (simp add: slot_units_Cons us_def m_def min_def)
  have nz: "0 \<notin> set (take m us)" "0 \<notin> set (take (r - m) (slot_units slot ss))"
    using Cons.prems(4) by (simp_all add: split)
  have len: "length (take m us) = m" by (simp add: us_def m_def)
  have "UniStrncpy m us = Inr (take m us)"
    using nz(1) by (intro UniStrncpy_nonzero) (simp_all add: us_def m_def)
  moreover have "put_units (map Some pre @ replicate r None @ [Some 0]) (length pre) (take m us) =
      run_return (map Some (pre @ take m us) @ replicate (r - m) None @ [Some 0])"
    using put_units_next [of "take m us" r pre] len by (simp add: m_def)
  ultimately have "name_slot slot (map Some pre @ replicate r None @ [Some 0], length pre, namlen, len, next) =
      run_return (Inl (map Some (pre @ take m us) @ replicate (r - m) None @ [Some 0], length (pre @ take m us),
        int r, int m, sint (slot_next (dtslot_of slot (32 * k)))))"
    using k m len Cons.prems(2)
    by (simp add: name_slot_def slot_at_def Let_def us_def [symmetric] del: append_assoc map_append)
  moreover have "run_loop (name_slot slot) (map Some (pre @ take m us) @ replicate (r - m) None @ [Some 0],
      length (pre @ take m us), int r, int m, sint (slot_next (dtslot_of slot (32 * k)))) =
      run_return (map Some ((pre @ take m us) @ take (r - m) (slot_units slot ss)) @ [Some 0])"
    by (rule Cons.IH) (use k(3) nz(2) Cons.prems(3) in \<open>auto simp: slot_succ_def next_slot_def m_def\<close>)
  ultimately show ?case by (subst run_loop_next) (simp_all add: split)
qed

lemma entry_name_units:
  assumes "slots_ok slot (next_slot (ld_next (ldtentry_of slot p))) ss"
    and "n = unat (ld_namlen (ldtentry_of slot p))" and "n \<le> 11 + 15 * length ss"
    and "us = take n (ld_name (ldtentry_of slot p) @ slot_units slot ss)" and "0 \<notin> set us"
  shows "entry_name slot (ldtentry_of slot p) = run_return (map Some us @ [Some 0])"
proof -
  define e where "e = ldtentry_of slot p"
  define m where "m = min n 11"
  have u: "uint (ld_namlen e) = int n" by (simp add: assms(2) e_def of_nat_unat)
  have m: "min (int n) DTLHDRDATALEN = int m" "m \<le> n" by (simp_all add: m_def DTLHDRDATALEN_def)
  have split: "us = take m (ld_name e) @ take (n - m) (slot_units slot ss)"
    by (simp add: assms(4) e_def m_def min_def)
  have len: "length (take m (ld_name e)) = m" by (simp add: e_def m_def)
  have "UniStrncpy m (ld_name e) = Inr (take m (ld_name e))"
    using assms(5) by (intro UniStrncpy_nonzero) (simp_all add: split e_def m_def)
  moreover have "put_units (replicate n None @ [Some 0]) 0 (take m (ld_name e)) =
      run_return (map Some (take m (ld_name e)) @ replicate (n - m) None @ [Some 0])"
    using put_units_next [of "take m (ld_name e)" n "[]"] len m(2) by simp
  ultimately have "entry_name slot e = run_loop (name_slot slot)
      (map Some (take m (ld_name e)) @ replicate (n - m) None @ [Some 0], length (take m (ld_name e)),
        int n, int m, sint (ld_next e))"
    by (simp add: entry_name_def Let_def u m len del: length_take)
  also have "\<dots> = run_return (map Some us @ [Some 0])"
    unfolding split by (rule name_slots)
      (use assms(1,3,5) in \<open>auto simp: split next_slot_def e_def m_def\<close>)
  finally show ?thesis by (simp add: e_def)
qed

text \<open>The name as it is converted: cut to as many bytes as the name has units.\<close>

definition shown_name :: "u16 list \<Rightarrow> bytes" where
  "shown_name us = map of_nat (utf8_fit (map unat us) (int (length us)))"

lemma length_shown_name: "length (shown_name us) \<le> length us"
  using length_utf8_fit [of "int (length us)" "map unat us"] by (simp add: shown_name_def)

lemma convert_name:
  assumes "0 \<notin> set us"
  shows "Unicode_String_to_UTF8_String (map Some us @ [Some 0]) (int (length us)) = Inr (shown_name us)"
proof -
  obtain bs where bs: "Unicode_String_to_UTF8_String (map Some us @ [Some 0]) (int (length us)) = Inr bs"
    "map unat bs = utf8_fit (map unat us) (int (length us))"
    using string_fits [OF assms, of "[]"] by auto
  have "bs = map of_nat (map unat bs)" by (induction bs) (simp_all add: of_nat_unat)
  with bs show ?thesis by (simp add: shown_name_def)
qed

lemma entry_at_name:
  assumes "entry_at slot head (ino, us)"
  shows "slot_at slot (unat head) = Inr (32 * unat head)"
    and "ino = ld_inumber (ldtentry_of slot (32 * unat head))"
    and "length us = unat (ld_namlen (ldtentry_of slot (32 * unat head)))"
    and "entry_name slot (ldtentry_of slot (32 * unat head)) = run_return (map Some us @ [Some 0])"
    and "0 \<notin> set us" and "length us < 256"
proof -
  define e where "e = ldtentry_of slot (32 * unat head)"
  obtain ss where ss: "slots_ok slot (next_slot (ld_next e)) ss" "unat (ld_namlen e) \<le> 11 + 15 * length ss"
    "us = take (unat (ld_namlen e)) (ld_name e @ slot_units slot ss)" "ino = ld_inumber e" "0 \<notin> set us"
    and room: "32 * (unat head + 1) \<le> length slot"
    using assms by (auto simp: entry_at_def Let_def e_def)
  show "slot_at slot (unat head) = Inr (32 * unat head)" using room by (simp add: slot_at_def)
  show "ino = ld_inumber (ldtentry_of slot (32 * unat head))" using ss(4) by (simp add: e_def)
  show len: "length us = unat (ld_namlen (ldtentry_of slot (32 * unat head)))"
    using ss(2,3) by (simp add: e_def)
  show "entry_name slot (ldtentry_of slot (32 * unat head)) = run_return (map Some us @ [Some 0])"
    using entry_name_units [OF ss(1) [unfolded e_def] refl] ss(2,3,5) by (simp add: e_def)
  show "0 \<notin> set us" by (rule ss(5))
  show "length us < 256" unfolding len using unat_bound [of "ld_namlen (ldtentry_of slot (32 * unat head))"] by simp
qed

text \<open>\<^verbatim>\<open>name_inum\<close> on a well-formed entry: the bytes of the name, zeroes up to the number of units, and the
  terminating zero, when they fit.\<close>

definition entry_out :: "dentry \<Rightarrow> bytes \<times> u64" where
  "entry_out e = (shown_name (snd e) @ replicate (length (snd e) - length (shown_name (snd e))) 0 @ [0], ucast (fst e))"

lemma name_inum_entry:
  assumes e: "entry_at slot head e" and m: "malloc h = (True, h')"
  shows "name_inum slot head cap h =
    (if length (snd e) < cap then run_return (Some (entry_out e), h') else run_fault Out_Of_Bounds)"
proof -
  obtain ino us where eq: "e = (ino, us)" by (cases e)
  note n = entry_at_name [OF e [unfolded eq]]
  have "take (length us) (UTF8_Buffer (shown_name us)) @ [0] =
      shown_name us @ replicate (length us - length (shown_name us)) 0 @ [0]"
    using length_shown_name [of us] n(6)
    by (simp add: UTF8_Buffer_def sizeof_UTF8_Buffer_def PATH_MAX_def min_def)
  moreover have "uint (ld_namlen (ldtentry_of slot (32 * unat head))) = int (length us)"
    by (simp add: n(3) of_nat_unat)
  ultimately show ?thesis
    using convert_name [OF n(5)] by (simp add: name_inum_def m entry_out_def eq n(1,2,4) n(3) [symmetric])
qed

text \<open>\<^verbatim>\<open>print_direntry\<close> takes an entry for the one looked for when its name begins with the bytes asked for and
  all of these are ASCII.\<close>

definition name_matches :: "bytes \<Rightarrow> dentry \<Rightarrow> bool" where
  "name_matches s e \<longleftrightarrow> take (length s) (shown_name (snd e)) = s \<and> list_all (\<lambda>b. unat b < 128) s"

lemma char_eq: "uint (b :: u8) = sint (s :: u8) \<longleftrightarrow> b = s \<and> unat s < 128"
proof -
  have "sint s = (if uint s < 128 then uint s else uint s - 256)"
  proof (cases "uint s < 128")
    case True
    then have "(uint s + 128) mod 256 = uint s + 128" by (intro mod_pos_pos_trivial) simp_all
    with True show ?thesis by (simp add: sint_uint signed_take_bit_eq_take_bit_shift take_bit_eq_mod)
  next
    case False
    then have "(uint s - 128) mod 256 = uint s - 128"
      using uint_bounded [of s] by (intro mod_pos_pos_trivial) simp_all
    moreover have "(uint s + 128) mod 256 = (uint s - 128) mod 256"
      using mod_add_self2 [of "uint s - 128" 256] by (simp add: add.commute)
    ultimately show ?thesis
      using False by (simp add: sint_uint signed_take_bit_eq_take_bit_shift take_bit_eq_mod)
  qed
  moreover have "uint s < 256" using uint_bounded [of s] by simp
  then have "uint b \<noteq> uint s - 256" using uint_ge_0 [of b] by linarith
  ultimately have "uint b = sint s \<longleftrightarrow> uint b = uint s \<and> uint s < 128" by metis
  also have "\<dots> \<longleftrightarrow> b = s \<and> uint s < 128" by (simp only: word_uint_eq_iff)
  finally have "uint b = sint s \<longleftrightarrow> b = s \<and> uint s < 128" .
  moreover have "uint s < 128 \<longleftrightarrow> unat s < 128" by (simp add: uint_nat)
  ultimately show ?thesis by simp
qed

lemma direntry_matches_iff:
  "0 \<notin> set s \<Longrightarrow> length s \<le> length bs + z \<Longrightarrow>
    direntry_matches (bs @ replicate z 0) (s @ rest) (length s) =
      run_return (take (length s) bs = s \<and> list_all (\<lambda>b. unat b < 128) s)"
proof (induction s arbitrary: bs z)
  case (Cons c s)
  show ?case
  proof (cases bs)
    case Nil
    with Cons.prems obtain z' where "z = Suc z'" by (cases z) auto
    moreover have "(0 :: int) \<noteq> sint c" using char_eq [of 0 c] Cons.prems by auto
    ultimately show ?thesis using Nil by simp
  next
    case (Cons b bs')
    with Cons.prems Cons.IH [of bs' z] show ?thesis by (auto simp: char_eq)
  qed
qed simp

lemma converted_matches:
  assumes e: "entry_at slot head e" and s: "0 \<notin> set s" "length s \<le> sizeof_UTF8_Buffer"
  shows "direntry_matches (UTF8_Buffer (shown_name (snd e))) (s @ rest) (length s) = run_return (name_matches s e)"
proof -
  obtain ino us where eq: "e = (ino, us)" by (cases e)
  have "length (shown_name us) \<le> sizeof_UTF8_Buffer"
    using length_shown_name [of us] entry_at_name(6) [OF e [unfolded eq]] by (simp add: sizeof_UTF8_Buffer_def PATH_MAX_def)
  then show ?thesis
    unfolding UTF8_Buffer_def using s by (subst direntry_matches_iff) (simp_all add: name_matches_def eq)
qed

lemma print_direntry_entry:
  assumes e: "entry_at slot head e" and m: "malloc h = (True, h')"
    and s: "0 \<notin> set s" "length s \<le> sizeof_UTF8_Buffer"
  shows "print_direntry slot head (s @ rest) (length s) g h =
    (if name_matches s e then run_return (0, Some (ucast (fst e)), free_block h')
     else run_return (1, Some (- 1), free_block h'))"
proof -
  obtain ino us where eq: "e = (ino, us)" by (cases e)
  note n = entry_at_name [OF e [unfolded eq]]
  have "direntry_matches (UTF8_Buffer (shown_name us)) (s @ rest) (length s) = run_return (name_matches s e)"
    using converted_matches [OF e s, of rest] by (simp add: eq)
  moreover have "uint (ld_namlen (ldtentry_of slot (32 * unat head))) = int (length us)"
    by (simp add: n(3) of_nat_unat)
  ultimately show ?thesis
    using convert_name [OF n(5)] by (simp add: print_direntry_def m eq n(1,2,4))
qed

section \<open>Directories as lists of entries\<close>

definition entries_at :: "bytes \<Rightarrow> (nat \<Rightarrow> fault + u8) \<Rightarrow> nat \<Rightarrow> dentry list \<Rightarrow> bool" where
  "entries_at slot stbl i es \<longleftrightarrow> (\<forall>j < length es. \<exists>head. stbl (i + j) = Inr head \<and> entry_at slot head (es ! j))"

definition page_entries :: "bytes \<Rightarrow> dentry list \<Rightarrow> bool" where
  "page_entries dtree es \<longleftrightarrow> unat (dp_nextindex (dtpage_header_of dtree)) = length es
     \<and> entries_at dtree (page_stbl dtree) 0 es"

text \<open>The chain of leaf pages.\<close>

definition leaf_page :: "fs \<Rightarrow> nat \<Rightarrow> bytes" where
  "leaf_page d a = disk_slice d (a * 2 ^ l2b d) 4096"

definition leaf_mapped :: "fs \<Rightarrow> nat \<Rightarrow> bool" where
  "leaf_mapped d a \<longleftrightarrow> a < 2 ^ 48 \<and> a * 2 ^ l2b d + 4096 \<le> dk_size d"

fun leaves :: "fs \<Rightarrow> bytes \<Rightarrow> dentry list list \<Rightarrow> bool" where
  "leaves d dtree [] \<longleftrightarrow> False"
| "leaves d dtree [es] \<longleftrightarrow> page_entries dtree es \<and> dp_next (dtpage_header_of dtree) = 0"
| "leaves d dtree (es # ess) \<longleftrightarrow> page_entries dtree es \<and> dp_next (dtpage_header_of dtree) \<noteq> 0
     \<and> leaf_mapped d (unat (dp_next (dtpage_header_of dtree)))
     \<and> leaves d (leaf_page d (unat (dp_next (dtpage_header_of dtree)))) ess"

text \<open>The leftmost leaf under an entry.\<close>

inductive leftmost :: "fs \<Rightarrow> idtentry_t \<Rightarrow> bytes \<Rightarrow> bool" for d :: fs where
  here: "leaf_mapped d (unat (addressPXD (id_xd e))) \<Longrightarrow> dtree = leaf_page d (unat (addressPXD (id_xd e))) \<Longrightarrow>
    dp_flag (dtpage_header_of dtree) AND BT_LEAF \<noteq> 0 \<Longrightarrow> leftmost d e dtree"
| down: "leaf_mapped d (unat (addressPXD (id_xd e))) \<Longrightarrow> dtree = leaf_page d (unat (addressPXD (id_xd e))) \<Longrightarrow>
    dp_flag (dtpage_header_of dtree) AND BT_LEAF = 0 \<Longrightarrow>
    page_stbl dtree 0 = Inr k \<Longrightarrow> slot_at dtree (unat k) = Inr p \<Longrightarrow>
    leftmost d (idtentry_of dtree p) leaf \<Longrightarrow> leftmost d e leaf"

definition dir_root :: "fs \<Rightarrow> bytes \<Rightarrow> dentry list \<Rightarrow> bool" where
  "dir_root d root es \<longleftrightarrow>
     (if dr_flag (dtroot_header_of root) AND BT_LEAF \<noteq> 0
      then unat (dr_nextindex (dtroot_header_of root)) = length es \<and> entries_at root (root_stbl root) 0 es
      else \<exists>e leaf ess. root_first_entry root = run_return e \<and> leftmost d e leaf \<and> leaves d leaf ess
        \<and> es = concat ess)"

lemma shl_mapped:
  assumes "fs_ok d" and "leaf_mapped d (unat a)"
  shows "unat (shl_l2bsize d a) = unat a * 2 ^ l2b d"
    and "unat (shl_l2bsize d a) + unat sizeof_dtpage \<le> dk_size d"
  using assms unat_shl_l2bsize [OF assms(1)] by (simp_all add: leaf_mapped_def sizeof_dtpage_def)

text \<open>A mapped page is read unless an allocation fails.\<close>

lemma xRead_page:
  assumes "fs_ok d" and "leaf_mapped d (unat a)" and "mem_ok h"
  obtains h' where "xRead d (shl_l2bsize d a) sizeof_dtpage h = run_return (Some (leaf_page d (unat a)), h')"
    and "balanced h h'"
proof -
  have "unat sizeof_dtpage = 4096" by (simp add: sizeof_dtpage_def)
  then obtain h' where "xRead d (shl_l2bsize d a) sizeof_dtpage h = run_return (Some (leaf_page d (unat a)), h')"
    using xRead_returns [OF assms(1) shl_mapped(2) [OF assms(1,2)], of h] assms(3) shl_mapped(1) [OF assms(1,2)]
    by (auto simp: leaf_page_def)
  with that xRead_balanced show ?thesis by blast
qed

lemma leftmost_leaf_found:
  assumes fs: "fs_ok d"
  shows "leftmost d e leaf \<Longrightarrow> mem_ok h \<Longrightarrow>
    \<exists>h'. leftmost_leaf d e h = run_return (Some leaf, h') \<and> balanced h h'"
proof (induction arbitrary: h rule: leftmost.induct)
  case (here e dtree)
  obtain h' where "xRead d (shl_l2bsize d (addressPXD (id_xd e))) sizeof_dtpage h = run_return (Some dtree, h')"
    "balanced h h'"
    using xRead_page [OF fs here(1,4)] here(2) by blast
  with here(3) show ?case
    by (auto simp: leftmost_leaf_def descend_page_def run_loop_done)
next
  case (down e dtree k p leaf)
  obtain h1 where h1: "xRead d (shl_l2bsize d (addressPXD (id_xd e))) sizeof_dtpage h = run_return (Some dtree, h1)"
    "balanced h h1"
    using xRead_page [OF fs down(1,8)] down(2) by blast
  then obtain h' where "leftmost_leaf d (idtentry_of dtree p) h1 = run_return (Some leaf, h')" "balanced h1 h'"
    using down.IH [OF balanced_mem_ok [OF h1(2) down(8)]] by blast
  moreover have "descend_page d (e, h) = run_return (Inl (idtentry_of dtree p, h1))"
    using down(3-5) h1(1) by (simp add: descend_page_def page_stbl_def)
  ultimately show ?case
    using h1(2) by (auto simp: leftmost_leaf_def run_loop_next [of "descend_page d"] intro: balanced_trans)
qed

section \<open>Walking the chain of leaves\<close>

text \<open>
  What the two walks along the leaves share. A walk carries a state \<open>s\<close>; over the entries of a page it either
  stops with an outcome (\<open>out\<close>) or goes on with the state \<open>adv\<close>; at the last page the outcome is \<open>fin\<close>. An
  outcome costs \<open>cost\<close> blocks of memory. The pages are then invisible: the result is that of a walk over the
  whole list of entries.
\<close>

locale leaf_walk =
  fixes d :: fs
    and step :: "bytes \<times> 's \<times> heap \<Rightarrow> (bytes \<times> 's \<times> heap + 'r) run"
    and good :: "dentry \<Rightarrow> bool"
    and out :: "'s \<Rightarrow> dentry list \<Rightarrow> 'o option"
    and adv :: "'s \<Rightarrow> dentry list \<Rightarrow> 's"
    and fin :: "'s \<Rightarrow> 'o"
    and pack :: "'o \<Rightarrow> heap \<Rightarrow> 'r"
    and cost :: "'o \<Rightarrow> int"
  assumes out_append: "out s (es @ es') = (case out s es of None \<Rightarrow> out (adv s es) es' | Some r \<Rightarrow> Some r)"
    and adv_append: "adv s (es @ es') = adv (adv s es) es'"
    and stops: "page_entries p es \<Longrightarrow> list_all good es \<Longrightarrow> mem_ok h \<Longrightarrow> out s es = Some r \<Longrightarrow>
      \<exists>h'. step (p, s, h) = run_return (Inr (pack r h')) \<and> mem_ok h' \<and> mh_live h' = mh_live h + cost r"
    and ends: "page_entries p es \<Longrightarrow> list_all good es \<Longrightarrow> mem_ok h \<Longrightarrow> out s es = None \<Longrightarrow>
      dp_next (dtpage_header_of p) = 0 \<Longrightarrow>
      \<exists>h'. step (p, s, h) = run_return (Inr (pack (fin (adv s es)) h')) \<and> balanced h h'"
    and goes_on: "fs_ok d \<Longrightarrow> page_entries p es \<Longrightarrow> list_all good es \<Longrightarrow> mem_ok h \<Longrightarrow> out s es = None \<Longrightarrow>
      dp_next (dtpage_header_of p) \<noteq> 0 \<Longrightarrow> leaf_mapped d (unat (dp_next (dtpage_header_of p))) \<Longrightarrow>
      \<exists>h'. step (p, s, h) = run_return (Inl (leaf_page d (unat (dp_next (dtpage_header_of p))), adv s es, h'))
        \<and> balanced h h'"
begin

lemma walk_page:
  assumes "page_entries p es" and "list_all good es" and "mem_ok h"
    and "out s es = None \<Longrightarrow> dp_next (dtpage_header_of p) = 0"
  shows "\<exists>h'. run_loop step (p, s, h) =
      run_return (pack (case out s es of Some r \<Rightarrow> r | None \<Rightarrow> fin (adv s es)) h')
    \<and> mem_ok h' \<and> mh_live h' = mh_live h + (case out s es of Some r \<Rightarrow> cost r | None \<Rightarrow> 0)"
proof (cases "out s es")
  case None
  from ends [OF assms(1-3) None assms(4) [OF None]] obtain h' where
    "step (p, s, h) = run_return (Inr (pack (fin (adv s es)) h'))" "balanced h h'" by blast
  with None assms(3) show ?thesis by (auto simp: run_loop_done balanced_def)
next
  case (Some r)
  from stops [OF assms(1-3) Some] obtain h' where
    "step (p, s, h) = run_return (Inr (pack r h'))" "mem_ok h'" "mh_live h' = mh_live h + cost r" by blast
  with Some show ?thesis by (auto simp: run_loop_done)
qed

lemma walk:
  assumes "fs_ok d"
  shows "leaves d p ess \<Longrightarrow> list_all good (concat ess) \<Longrightarrow> mem_ok h \<Longrightarrow>
    \<exists>h'. run_loop step (p, s, h) =
      run_return (pack (case out s (concat ess) of Some r \<Rightarrow> r | None \<Rightarrow> fin (adv s (concat ess))) h')
    \<and> mem_ok h' \<and> mh_live h' = mh_live h + (case out s (concat ess) of Some r \<Rightarrow> cost r | None \<Rightarrow> 0)"
proof (induction ess arbitrary: p s h)
  case (Cons es ess)
  show ?case
  proof (cases ess)
    case Nil
    have c: "concat (es # ess) = es" by (simp add: Nil)
    show ?thesis unfolding c by (rule walk_page) (use Cons.prems Nil in simp_all)
  next
    case more: (Cons es' ess')
    have c: "concat (es # ess) = es @ concat ess" by simp
    have p: "page_entries p es" "dp_next (dtpage_header_of p) \<noteq> 0" "list_all good es" "list_all good (concat ess)"
      "leaf_mapped d (unat (dp_next (dtpage_header_of p)))"
      "leaves d (leaf_page d (unat (dp_next (dtpage_header_of p)))) ess"
      using Cons.prems more by simp_all
    show ?thesis
    proof (cases "out s es")
      case None
      from goes_on [OF assms p(1,3) Cons.prems(3) None p(2,5)] obtain h1 where
        h1: "step (p, s, h) = run_return (Inl (leaf_page d (unat (dp_next (dtpage_header_of p))), adv s es, h1))"
          "balanced h h1" by blast
      from Cons.IH [OF p(6,4) balanced_mem_ok [OF h1(2) Cons.prems(3)], of "adv s es"] h1(2) show ?thesis
        by (simp only: c run_loop_next [of step, OF h1(1)] out_append adv_append None balanced_def option.simps)
    next
      case (Some r)
      with walk_page [OF p(1,3) Cons.prems(3), of s] show ?thesis by (simp only: c out_append option.simps)
    qed
  qed
qed simp

end

section \<open>The entry at a position\<close>

definition rd_out :: "int \<Rightarrow> int \<Rightarrow> dentry list \<Rightarrow> (int \<times> (bytes \<times> u64) option) option" where
  "rd_out pos cpos es = (if cpos \<le> pos \<and> pos < cpos + int (length es)
     then Some (0, Some (entry_out (es ! nat (pos - cpos)))) else None)"

abbreviation rd_pack :: "int \<times> (bytes \<times> u64) option \<Rightarrow> heap \<Rightarrow> int \<times> (bytes \<times> u64) option \<times> heap" where
  "rd_pack r h \<equiv> (fst r, snd r, h)"

lemma entries_at_Cons:
  "entries_at slot stbl i (e # es) \<longleftrightarrow>
    (\<exists>head. stbl i = Inr head \<and> entry_at slot head e) \<and> entries_at slot stbl (i + 1) es"
  by (auto simp: entries_at_def less_Suc_eq_0_disj)

lemma readndir_entries_list:
  assumes "mem_ok h"
  shows "entries_at slot stbl i es \<Longrightarrow> list_all (\<lambda>e. length (snd e) < cap) es \<Longrightarrow>
    readndir_entries slot stbl cap pos cpos i (length es) h =
      (case rd_out pos cpos es of None \<Rightarrow> run_return (Inl (cpos + int (length es)))
       | Some r \<Rightarrow> run_return (Inr (snd r, snd (malloc h))))"
proof (induction es arbitrary: i cpos)
  case (Cons e es)
  obtain head where head: "stbl i = Inr head" "entry_at slot head e"
    using Cons.prems(1) by (auto simp: entries_at_Cons)
  have m: "malloc h = (True, snd (malloc h))" using assms by (simp add: prod_eq_iff)
  show ?case
  proof (cases "cpos = pos")
    case True
    with head Cons.prems(2) name_inum_entry [OF head(2) m, of cap] show ?thesis by (simp add: rd_out_def)
  next
    case False
    have "rd_out pos cpos (e # es) = rd_out pos (cpos + 1) es"
    proof -
      have "nat (pos - cpos) = Suc (nat (pos - (cpos + 1)))" if "cpos \<le> pos" using False that by simp
      then show ?thesis using False by (auto simp: rd_out_def)
    qed
    with False Cons show ?thesis by (auto simp: entries_at_Cons add.commute add.left_commute split: option.split)
  qed
qed (simp add: rd_out_def)

lemma readndir_leaf_scan:
  assumes p: "page_entries p es" and g: "list_all (\<lambda>e. length (snd e) < cap) es" and h: "mem_ok h"
  shows "readndir_leaf d cap pos (p, cpos, h) =
    (case rd_out pos cpos es of
       Some r \<Rightarrow> run_return (Inr (rd_pack (0, snd r) (snd (malloc h))))
     | None \<Rightarrow> if dp_next (dtpage_header_of p) \<noteq> 0
         then run_bind (xRead d (shl_l2bsize d (dp_next (dtpage_header_of p))) sizeof_dtpage h) (\<lambda>(b, h).
           case b of None \<Rightarrow> run_return (Inr (1, None, h))
           | Some dtree \<Rightarrow> run_return (Inl (dtree, cpos + int (length es), h)))
         else run_return (Inr (1, None, h)))"
  using readndir_entries_list [OF h, of p "page_stbl p" 0 es cap pos cpos] p g
  by (auto simp: readndir_leaf_def page_entries_def split: option.splits)

interpretation rd: leaf_walk d "readndir_leaf d cap pos" "\<lambda>e. length (snd e) < cap" "rd_out pos"
    "\<lambda>cpos es. cpos + int (length es)" "\<lambda>_. (1, None)" rd_pack "\<lambda>_. 1" for d cap pos
proof unfold_locales
  fix cpos and es es' :: "dentry list"
  have "nat (pos - cpos) - length es = nat (pos - (cpos + int (length es)))" by simp
  then show "rd_out pos cpos (es @ es') =
      (case rd_out pos cpos es of None \<Rightarrow> rd_out pos (cpos + int (length es)) es' | Some r \<Rightarrow> Some r)"
    by (auto simp: rd_out_def nth_append)
  show "cpos + int (length (es @ es')) = cpos + int (length es) + int (length es')" by simp
next
  fix p es cpos r and h :: heap
  assume p: "page_entries p es" "list_all (\<lambda>e. length (snd e) < cap) es" "mem_ok h" and r: "rd_out pos cpos es = Some r"
  from r have "fst r = 0" by (auto simp: rd_out_def split: if_splits)
  with p(3) r show "\<exists>h'. readndir_leaf d cap pos (p, cpos, h) = run_return (Inr (rd_pack r h')) \<and> mem_ok h'
      \<and> mh_live h' = mh_live h + 1"
    by (auto simp: readndir_leaf_scan [OF p] malloc_live)
next
  fix p es cpos and h :: heap
  assume p: "page_entries p es" "list_all (\<lambda>e. length (snd e) < cap) es" "mem_ok h" and r: "rd_out pos cpos es = None"
  show "\<exists>h'. readndir_leaf d cap pos (p, cpos, h) = run_return (Inr (rd_pack (1, None) h')) \<and> balanced h h'"
    if "dp_next (dtpage_header_of p) = 0"
    using that r by (auto simp: readndir_leaf_scan [OF p])
  show "\<exists>h'. readndir_leaf d cap pos (p, cpos, h) =
      run_return (Inl (leaf_page d (unat (dp_next (dtpage_header_of p))), cpos + int (length es), h')) \<and> balanced h h'"
    if "fs_ok d" "dp_next (dtpage_header_of p) \<noteq> 0" "leaf_mapped d (unat (dp_next (dtpage_header_of p)))"
  proof -
    note t = that
    obtain h1 where "xRead d (shl_l2bsize d (dp_next (dtpage_header_of p))) sizeof_dtpage h =
        run_return (Some (leaf_page d (unat (dp_next (dtpage_header_of p)))), h1)" "balanced h h1"
      using xRead_page [OF t(1,3) p(3)] .
    with t(2) r show ?thesis by (simp add: readndir_leaf_scan [OF p])
  qed
qed

section \<open>The search for a name\<close>

definition ds_out :: "bytes \<Rightarrow> u64 option \<Rightarrow> dentry list \<Rightarrow> u64 option option" where
  "ds_out s g es = map_option (\<lambda>e. Some (ucast (fst e))) (find (name_matches s) es)"

definition ds_adv :: "u64 option \<Rightarrow> dentry list \<Rightarrow> u64 option" where
  "ds_adv g es = (if es = [] then g else Some (- 1))"

definition ds_good :: "bytes \<Rightarrow> dentry \<Rightarrow> bool" where
  "ds_good s e \<longleftrightarrow> 0 \<notin> set s \<and> length s \<le> sizeof_UTF8_Buffer"

lemma directory_entries_list:
  "entries_at slot stbl i es \<Longrightarrow> list_all (ds_good s) es \<Longrightarrow> mem_ok h \<Longrightarrow>
    \<exists>h'. directory_entries slot stbl (s @ rest) (length s) g i (length es) h =
      run_return (case ds_out s g es of None \<Rightarrow> (False, ds_adv g es, h') | Some r \<Rightarrow> (True, r, h'))
    \<and> balanced h h'"
proof (induction es arbitrary: i g h)
  case (Cons e es)
  obtain head where head: "stbl i = Inr head" "entry_at slot head e"
    using Cons.prems(1) by (auto simp: entries_at_Cons)
  have m: "malloc h = (True, snd (malloc h))" using Cons.prems(3) by (simp add: prod_eq_iff)
  define h1 where "h1 = free_block (snd (malloc h))"
  have b: "balanced h h1" unfolding h1_def using balanced_malloc_free(1) [OF m] .
  have s: "0 \<notin> set s" "length s \<le> sizeof_UTF8_Buffer" using Cons.prems(2) by (simp_all add: ds_good_def)
  note pr = print_direntry_entry [OF head(2) m s, of rest g, folded h1_def]
  show ?case
  proof (cases "name_matches s e")
    case True
    with head pr b show ?thesis by (auto simp: ds_out_def)
  next
    case False
    have "entries_at slot stbl (i + 1) es" "list_all (ds_good s) es"
      using Cons.prems(1,2) by (simp_all add: entries_at_Cons)
    from Cons.IH [OF this balanced_mem_ok [OF b Cons.prems(3)], of "Some (- 1)"] obtain h' where
      "directory_entries slot stbl (s @ rest) (length s) (Some (- 1)) (i + 1) (length es) h1 =
        run_return (case ds_out s (Some (- 1)) es of None \<Rightarrow> (False, ds_adv (Some (- 1)) es, h') | Some r \<Rightarrow> (True, r, h'))"
      "balanced h1 h'" by blast
    moreover have "ds_out s g (e # es) = ds_out s (Some (- 1)) es" "ds_adv g (e # es) = ds_adv (Some (- 1)) es"
      using False by (simp_all add: ds_out_def ds_adv_def)
    ultimately show ?thesis
      using False head pr balanced_trans [OF b] by (intro exI [of _ h']) (auto split: option.split)
  qed
qed (auto simp: ds_out_def ds_adv_def)

lemma directory_leaf_scan:
  assumes p: "page_entries p es" and g: "list_all (ds_good s) es" and h: "mem_ok h"
  shows "\<exists>h'. balanced h h' \<and> directory_leaf d (s @ rest) (length s) (p, g, h) =
    (case ds_out s g es of
       Some r \<Rightarrow> run_return (Inr (r, h'))
     | None \<Rightarrow> if dp_next (dtpage_header_of p) \<noteq> 0
         then run_bind (xRead d (shl_l2bsize d (dp_next (dtpage_header_of p))) sizeof_dtpage h') (\<lambda>(b, h).
           case b of None \<Rightarrow> run_return (Inr (ds_adv g es, h))
           | Some dtree \<Rightarrow> run_return (Inl (dtree, ds_adv g es, h)))
         else run_return (Inr (ds_adv g es, h')))"
proof -
  have "entries_at p (page_stbl p) 0 es" using p by (simp add: page_entries_def)
  from directory_entries_list [OF this g h, of rest] obtain h' where
    h': "directory_entries p (page_stbl p) (s @ rest) (length s) g 0 (length es) h =
      run_return (case ds_out s g es of None \<Rightarrow> (False, ds_adv g es, h') | Some r \<Rightarrow> (True, r, h'))"
    "balanced h h'" by blast
  with p show ?thesis
    by (intro exI [of _ h']) (auto simp: directory_leaf_def page_entries_def split: option.split)
qed

interpretation ds: leaf_walk d "directory_leaf d (s @ rest) (length s)" "ds_good s" "ds_out s" ds_adv
    "\<lambda>g. g" "\<lambda>r h. (r, h)" "\<lambda>_. 0" for d s rest
proof unfold_locales
  fix g and es es' :: "dentry list"
  show "ds_out s g (es @ es') = (case ds_out s g es of None \<Rightarrow> ds_out s (ds_adv g es) es' | Some r \<Rightarrow> Some r)"
    by (induction es) (auto simp: ds_out_def split: option.split)
  show "ds_adv g (es @ es') = ds_adv (ds_adv g es) es'" by (simp add: ds_adv_def)
next
  fix p es g r and h :: heap
  assume p: "page_entries p es" "list_all (ds_good s) es" "mem_ok h" and r: "ds_out s g es = Some r"
  with directory_leaf_scan [OF p, of d rest g]
  show "\<exists>h'. directory_leaf d (s @ rest) (length s) (p, g, h) = run_return (Inr (r, h')) \<and> mem_ok h'
      \<and> mh_live h' = mh_live h + 0"
    by (auto simp: balanced_def)
next
  fix p es g and h :: heap
  assume p: "page_entries p es" "list_all (ds_good s) es" "mem_ok h" and r: "ds_out s g es = None"
  obtain h1 where h1: "balanced h h1" "directory_leaf d (s @ rest) (length s) (p, g, h) =
      (if dp_next (dtpage_header_of p) \<noteq> 0
         then run_bind (xRead d (shl_l2bsize d (dp_next (dtpage_header_of p))) sizeof_dtpage h1) (\<lambda>(b, h).
           case b of None \<Rightarrow> run_return (Inr (ds_adv g es, h))
           | Some dtree \<Rightarrow> run_return (Inl (dtree, ds_adv g es, h)))
         else run_return (Inr (ds_adv g es, h1)))"
    using directory_leaf_scan [OF p, of d rest g] r by auto
  show "\<exists>h'. directory_leaf d (s @ rest) (length s) (p, g, h) = run_return (Inr (ds_adv g es, h')) \<and> balanced h h'"
    if "dp_next (dtpage_header_of p) = 0"
    using h1 that by auto
  show "\<exists>h'. directory_leaf d (s @ rest) (length s) (p, g, h) =
      run_return (Inl (leaf_page d (unat (dp_next (dtpage_header_of p))), ds_adv g es, h')) \<and> balanced h h'"
    if "fs_ok d" "dp_next (dtpage_header_of p) \<noteq> 0" "leaf_mapped d (unat (dp_next (dtpage_header_of p)))"
  proof -
    note t = that
    obtain h2 where "xRead d (shl_l2bsize d (dp_next (dtpage_header_of p))) sizeof_dtpage h1 =
        run_return (Some (leaf_page d (unat (dp_next (dtpage_header_of p)))), h2)" "balanced h1 h2"
      using xRead_page [OF t(1,3) balanced_mem_ok [OF h1(1) p(3)]] .
    with t(2) h1 show ?thesis by (auto intro: balanced_trans)
  qed
qed

section \<open>Whole directories\<close>

text \<open>Inode \<open>inum\<close> is a directory with the entries \<open>es\<close>, reached through the inode map \<open>t\<close>.\<close>

definition dir_at :: "fs \<Rightarrow> xtree \<Rightarrow> u32 \<Rightarrow> dentry list \<Rightarrow> bool" where
  "dir_at d t inum es \<longleftrightarrow> imap_ok d FILESYSTEM_I t
     \<and> (\<exists>a. inode_address d t (unat inum) = Some a \<and> a + 512 \<le> dk_size d
          \<and> di_mode (dinode_of (disk_slice d a 512)) AND IFMT = IFDIR
          \<and> dir_root d (di_btroot (dinode_of (disk_slice d a 512))) es)"

lemma dir_inode:
  assumes fs: "fs_ok d" and at: "dir_at d t inum es" and h: "mem_ok h"
  obtains a inode h1 h2 where "find_inode d inum FILESYSTEM_I h = run_return (Some a, h1)"
    and "xRead d a sizeof_dinode h1 = run_return (Some inode, h2)" and "balanced h h2"
    and "di_mode (dinode_of inode) AND IFMT = IFDIR" and "dir_root d (di_btroot (dinode_of inode)) es"
proof -
  obtain n where n: "inode_address d t (unat inum) = Some n" "n + 512 \<le> dk_size d"
    "di_mode (dinode_of (disk_slice d n 512)) AND IFMT = IFDIR"
    "dir_root d (di_btroot (dinode_of (disk_slice d n 512))) es" and im: "imap_ok d FILESYSTEM_I t"
    using at by (auto simp: dir_at_def)
  obtain a h1 where a: "find_inode d inum FILESYSTEM_I h = run_return (Some a, h1)" "unat a = n" "balanced h h1"
    using find_inode_correct [OF fs im, of inum h] n(1) h by auto
  have "unat a + unat sizeof_dinode \<le> dk_size d" using n(2) a(2) by (simp add: sizeof_dinode_def)
  then obtain h2 where r: "xRead d a sizeof_dinode h1 = run_return (Some (disk_slice d n 512), h2)"
    using xRead_returns [OF fs, of a sizeof_dinode h1] balanced_mem_ok [OF a(3) h] a(2)
    by (auto simp: sizeof_dinode_def)
  from that [OF a(1) r balanced_trans [OF a(3) xRead_balanced [OF r]]] n(3,4) show ?thesis by blast
qed

lemma root_nonempty:
  "unat (dr_nextindex (dtroot_header_of root)) = length es \<Longrightarrow> dr_nextindex (dtroot_header_of root) = 0 \<longleftrightarrow> es = []"
  by (metis length_0_conv unat_eq_zero)

lemma readndir_root_found:
  assumes fs: "fs_ok d" and root: "dir_root d root es" and h: "mem_ok h"
    and g: "list_all (\<lambda>e. length (snd e) < cap) es"
  shows "\<exists>h'. readndir_root d pos cap root h =
      run_return (rd_pack (case rd_out pos 0 es of Some r \<Rightarrow> r | None \<Rightarrow> (1, None)) h')
    \<and> mem_ok h' \<and> mh_live h' = mh_live h + (case rd_out pos 0 es of Some r \<Rightarrow> 1 | None \<Rightarrow> 0)"
proof (cases "dr_flag (dtroot_header_of root) AND BT_LEAF = 0")
  case False
  then have r: "unat (dr_nextindex (dtroot_header_of root)) = length es" "entries_at root (root_stbl root) 0 es"
    using root by (simp_all add: dir_root_def)
  have "fst r0 = 0 \<and> es \<noteq> []" if "rd_out pos 0 es = Some r0" for r0
    using that by (auto simp: rd_out_def split: if_splits)
  with False r root_nonempty [OF r(1)] h readndir_entries_list [OF h r(2) g, of pos 0] show ?thesis
    by (cases "rd_out pos 0 es") (auto simp: readndir_root_def malloc_live)
next
  case True
  then obtain e leaf ess where r: "root_first_entry root = run_return e" "leftmost d e leaf"
    "leaves d leaf ess" "es = concat ess" using root by (auto simp: dir_root_def)
  obtain h1 where l: "leftmost_leaf d e h = run_return (Some leaf, h1)" "balanced h h1"
    using leftmost_leaf_found [OF fs r(2) h] by blast
  have "readndir_root d pos cap root h = run_loop (readndir_leaf d cap pos) (leaf, 0, h1)"
    using True r(1) l(1) by (simp add: readndir_root_def)
  with rd.walk [OF fs r(3) _ balanced_mem_ok [OF l(2) h], of cap pos 0] g r(4) l(2) show ?thesis
    by (simp add: balanced_def)
qed

lemma directory_root_found:
  assumes fs: "fs_ok d" and root: "dir_root d root es" and h: "mem_ok h"
    and s: "0 \<notin> set s" "length s \<le> sizeof_UTF8_Buffer"
  shows "\<exists>h'. directory_root d (s @ rest) (length s) g root h =
      run_return (case ds_out s g es of Some r \<Rightarrow> r | None \<Rightarrow> ds_adv g es, h')
    \<and> mem_ok h' \<and> mh_live h' = mh_live h"
proof (cases "dr_flag (dtroot_header_of root) AND BT_LEAF = 0")
  case False
  then have r: "unat (dr_nextindex (dtroot_header_of root)) = length es" "entries_at root (root_stbl root) 0 es"
    using root by (simp_all add: dir_root_def)
  have "list_all (ds_good s) es" using s by (simp add: list_all_iff ds_good_def)
  from directory_entries_list [OF r(2) this h, of rest g] obtain h' where
    "directory_entries root (root_stbl root) (s @ rest) (length s) g 0 (length es) h =
      run_return (case ds_out s g es of None \<Rightarrow> (False, ds_adv g es, h') | Some r \<Rightarrow> (True, r, h'))"
    "balanced h h'" by blast
  with False r(1) root_nonempty [OF r(1)] h show ?thesis
    by (cases "ds_out s g es") (auto simp: directory_root_def balanced_def ds_out_def ds_adv_def)
next
  case True
  then obtain e leaf ess where r: "root_first_entry root = run_return e" "leftmost d e leaf"
    "leaves d leaf ess" "es = concat ess" using root by (auto simp: dir_root_def)
  obtain h1 where l: "leftmost_leaf d e h = run_return (Some leaf, h1)" "balanced h h1"
    using leftmost_leaf_found [OF fs r(2) h] by blast
  have "directory_root d (s @ rest) (length s) g root h = run_loop (directory_leaf d (s @ rest) (length s)) (leaf, g, h1)"
    using True r(1) l(1) by (simp add: directory_root_def)
  moreover have "list_all (ds_good s) (concat ess)" using s by (simp add: list_all_iff ds_good_def)
  ultimately show ?thesis
    using ds.walk [OF fs r(3) _ balanced_mem_ok [OF l(2) h], of s rest g] r(4) l(2)
    by (cases "ds_out s g (concat ess)") (simp_all add: balanced_def)
qed

lemma readndir_entry:
  assumes "fs_ok d" and "dir_at d t (ucast cache_id) es" and "mem_ok h"
    and "list_all (\<lambda>e. length (snd e) < cap) es" and "0 \<le> pos"
  shows "\<exists>h'. readndir d cache_id pos cap h =
      run_return (if nat pos < length es then (0, Some (entry_out (es ! nat pos)), h') else (1, None, h'))
    \<and> mem_ok h' \<and> mh_live h' = mh_live h + (if nat pos < length es then 2 else 1)"
proof -
  obtain h0 where m: "malloc h = (True, h0)" "mem_ok h0" "mh_live h0 = mh_live h + 1"
    using mem_ok_malloc [OF assms(3)] malloc_live [of h] by (cases "malloc h") auto
  obtain a inode h1 h2 where f: "find_inode d (ucast cache_id) FILESYSTEM_I h0 = run_return (Some a, h1)"
    "xRead d a sizeof_dinode h1 = run_return (Some inode, h2)" "balanced h0 h2"
    "di_mode (dinode_of inode) AND IFMT = IFDIR" "dir_root d (di_btroot (dinode_of inode)) es"
    using dir_inode [OF assms(1,2) m(2)] .
  have h2: "mem_ok h2" "mh_live h2 = mh_live h + 1" using f(3) m(2,3) by (simp_all add: balanced_def)
  have "readndir d cache_id pos cap h = readndir_root d pos cap (di_btroot (dinode_of inode)) h2"
    using f m(1) by (simp add: readndir_def FILESYSTEM_I_def)
  with readndir_root_found [OF assms(1) f(5) h2(1) assms(4), of pos] h2 assms(5) show ?thesis
    by (auto simp: rd_out_def nat_less_iff split: if_splits)
qed

lemma directory_finds:
  assumes "fs_ok d" and "dir_at d t (ucast inum) es" and "mem_ok h"
    and "0 \<notin> set s" and "length s \<le> sizeof_UTF8_Buffer"
  shows "\<exists>h'. directory d inum (s @ rest) (length s) g h =
      run_return (case find (name_matches s) es of
          Some e \<Rightarrow> Some (ucast (fst e)) | None \<Rightarrow> if es = [] then g else Some (- 1), h')
    \<and> mem_ok h' \<and> mh_live h' = mh_live h"
proof -
  obtain a inode h1 h2 where f: "find_inode d (ucast inum) FILESYSTEM_I h = run_return (Some a, h1)"
    "xRead d a sizeof_dinode h1 = run_return (Some inode, h2)" "balanced h h2"
    "di_mode (dinode_of inode) AND IFMT = IFDIR" "dir_root d (di_btroot (dinode_of inode)) es"
    using dir_inode [OF assms(1,2,3)] .
  have "directory d inum (s @ rest) (length s) g h =
      directory_root d (s @ rest) (length s) g (di_btroot (dinode_of inode)) h2"
    using f by (simp add: directory_def)
  with directory_root_found [OF assms(1) f(5) balanced_mem_ok [OF f(3) assms(3)] assms(4,5), of rest g] f(3)
  show ?thesis
    by (cases "find (name_matches s) es") (simp_all add: ds_out_def ds_adv_def balanced_def)
qed

text \<open>
  C10: searching a directory. \<^verbatim>\<open>directory\<close> with the \<open>length s\<close> bytes \<open>s\<close> as the name leaves in \<^verbatim>\<open>*gotinum\<close> the inode
  number of the first entry, in the order of the leaves, whose name begins with \<open>s\<close>, provided all its bytes are ASCII: other bytes
  match nothing. It is an entry of exactly
  that name only when no earlier entry has \<open>s\<close> as a proper prefix of its name. When no entry qualifies,
  \<^verbatim>\<open>*gotinum\<close> is all ones, and for a directory with no entries it keeps the caller's value. No memory is leaked.
\<close>

theorem directory_first_prefix:
  assumes "fs_ok d" and "dir_at d t (ucast inum) es" and "mem_ok h"
    and "0 \<notin> set s" and "length s \<le> sizeof_UTF8_Buffer"
  shows "\<exists>h'. directory d inum (s @ rest) (length s) g h =
      run_return (case find (name_matches s) es of
          Some e \<Rightarrow> Some (ucast (fst e)) | None \<Rightarrow> if es = [] then g else Some (- 1), h')
    \<and> mem_ok h' \<and> mh_live h' = mh_live h"
  using directory_finds [OF assms] .

text \<open>
  C33: the array for the name. \<^verbatim>\<open>name_inum\<close> writes a name of \<open>n\<close> units into \<open>n + 1\<close> bytes of the caller's array: on a
  well-formed entry, with memory at hand, it goes out of bounds exactly when the name has at least as many units as
  the array has bytes. The callers' arrays have 100 bytes; JFS names have up to 255 units.
\<close>

theorem name_inum_overflow:
  assumes "entry_at slot head e" and "mem_ok h"
  shows "name_inum slot head cap h = run_fault Out_Of_Bounds \<longleftrightarrow> cap \<le> length (snd e)"
  using name_inum_entry [OF assms(1), of h "snd (malloc h)" cap] mem_ok_malloc [OF assms(2)]
  by (auto simp: prod_eq_iff)

section \<open>Chains of slots that do not end\<close>

lemma UniStrncpy_fills:
  assumes "n \<le> length src" and "n < 2 ^ 32"
  obtains xs where "UniStrncpy n src = Inr xs" and "length xs = n"
proof (rule that [OF UniStrncpy_eq [OF assms]])
  have "length (takeWhile (\<lambda>c. c \<noteq> 0) (take n src)) \<le> n"
    using length_takeWhile_le [of "\<lambda>c. c \<noteq> 0" "take n src"] by simp
  then show "length (takeWhile (\<lambda>c. c \<noteq> 0) (take n src)
      @ replicate (n - length (takeWhile (\<lambda>c. c \<noteq> 0) (take n src))) 0) = n" by simp
qed

lemma name_slot_cycle:
  assumes C: "\<And>k. k \<in> C \<Longrightarrow> 32 * (k + 1) \<le> length slot \<and> (\<exists>k' \<in> C. slot_succ slot k = Some k')"
    and "k \<in> C" and "0 \<le> namlen - len" and "int (length name) = int n + (namlen - len) + 1"
  shows "run_loop (name_slot slot) (name, n, namlen, len, int k) = None"
proof (rule run_loop_diverges [where I = "\<lambda>(name, n, namlen, len, next). \<exists>k \<in> C. next = int k \<and> 0 \<le> namlen - len
    \<and> int (length name) = int n + (namlen - len) + 1"])
  show "case (name, n, namlen, len, int k) of (name, n, namlen, len, next) \<Rightarrow> \<exists>k \<in> C. next = int k \<and> 0 \<le> namlen - len
    \<and> int (length name) = int n + (namlen - len) + 1" using assms by auto
next
  fix s :: "u16 option list \<times> nat \<times> int \<times> int \<times> int"
  assume I: "case s of (name, n, namlen, len, next) \<Rightarrow> \<exists>k \<in> C. next = int k \<and> 0 \<le> namlen - len
    \<and> int (length name) = int n + (namlen - len) + 1"
  obtain name n namlen len "next" where s: "s = (name, n, namlen, len, next)" by (metis prod.exhaust)
  with I obtain k where k: "k \<in> C" "next = int k" "0 \<le> namlen - len" "int (length name) = int n + (namlen - len) + 1"
    by auto
  obtain k' where k': "k' \<in> C" "slot_succ slot k = Some k'" "32 * (k + 1) \<le> length slot" using C [OF k(1)] by blast
  have nx: "sint (slot_next (dtslot_of slot (32 * k))) = int k'"
    using k'(2) by (auto simp: slot_succ_def next_slot_def split: if_splits)
  define m where "m = nat (min (namlen - len) DTSLOTDATALEN)"
  have m: "m \<le> 15" "int m = min (namlen - len) DTSLOTDATALEN" using k(3) by (simp_all add: m_def DTSLOTDATALEN_def)
  obtain xs where xs: "UniStrncpy m (slot_name (dtslot_of slot (32 * k))) = Inr xs" "length xs = m"
    by (rule UniStrncpy_fills [of m "slot_name (dtslot_of slot (32 * k))"]) (use m(1) in simp_all)
  have le: "n + m \<le> length name" using m(2) k(4) by linarith
  then have "name_slot slot s = run_return (Inl (take n name @ map Some xs @ drop (n + m) name, n + m, namlen - len,
      int m, int k'))"
    using k(2) k'(3) xs m(2) nx by (simp add: s name_slot_def slot_at_def Let_def put_units_def m_def [symmetric])
  moreover have "int (length (take n name @ map Some xs @ drop (n + m) name)) = int (n + m) + (namlen - len - int m) + 1"
    using le xs(2) k(4) by simp
  moreover have "0 \<le> namlen - len - int m" using m(2) by simp
  ultimately show "\<exists>s'. name_slot slot s = run_return (Inl s') \<and> (case s' of (name, n, namlen, len, next) \<Rightarrow>
      \<exists>k \<in> C. next = int k \<and> 0 \<le> namlen - len \<and> int (length name) = int n + (namlen - len) + 1)"
    using k'(1) by (intro exI conjI) (assumption, auto)
qed

text \<open>
  C34: a cycle of slots. The loop that assembles a name looks at the links of the slots only, not at how much of
  the name is still missing: when the chain of an entry enters a cycle, \<^verbatim>\<open>name_inum\<close> and \<^verbatim>\<open>print_direntry\<close> never return.
\<close>

theorem name_cycle_diverges:
  assumes "\<And>k. k \<in> C \<Longrightarrow> 32 * (k + 1) \<le> length slot \<and> (\<exists>k' \<in> C. slot_succ slot k = Some k')"
    and "32 * (unat head + 1) \<le> length slot"
    and "next_slot (ld_next (ldtentry_of slot (32 * unat head))) = Some k" and "k \<in> C" and "mem_ok h"
  shows "name_inum slot head cap h = None \<and> print_direntry slot head sname snamelen g h = None"
proof -
  define e where "e = ldtentry_of slot (32 * unat head)"
  define n where "n = unat (ld_namlen e)"
  define m where "m = min n 11"
  have u: "uint (ld_namlen e) = int n" by (simp add: n_def of_nat_unat)
  have m: "min (int n) DTLHDRDATALEN = int m" "m \<le> n" by (simp_all add: m_def DTLHDRDATALEN_def)
  have nx: "sint (ld_next e) = int k" using assms(3) by (auto simp: next_slot_def e_def split: if_splits)
  obtain xs where xs: "UniStrncpy m (ld_name e) = Inr xs" "length xs = m"
    by (rule UniStrncpy_fills [of m "ld_name e"]) (simp_all add: e_def m_def)
  have "run_loop (name_slot slot) (map Some xs @ drop m (replicate n None @ [Some 0]), m, int n, int m, int k) = None"
    by (rule name_slot_cycle [OF assms(1,4)]) (use m(2) xs(2) in simp_all)
  then have "entry_name slot e = None"
    using xs m by (simp add: entry_name_def Let_def u nx put_units_def)
  moreover obtain h' where "malloc h = (True, h')" using mem_ok_malloc [OF assms(5)] by (cases "malloc h") auto
  moreover have "slot_at slot (unat head) = Inr (32 * unat head)" using assms(2) by (simp add: slot_at_def)
  ultimately show ?thesis by (simp add: name_inum_def print_direntry_def e_def [symmetric])
qed

end
