(* ===== verification/Jfs_Dir.thy ===== *)
theory Jfs_Dir
  imports Jfs_Dirread Jfs_Nodes
begin

text \<open>
  The directory operations of the translator, \<^verbatim>\<open>dir.c\<close>: listing (\<^verbatim>\<open>diskfs_get_directs\<close>), looking up a name
  (\<^verbatim>\<open>dirscan\<close>, \<^verbatim>\<open>diskfs_lookup_hard\<close>), file-system statistics and symbolic links. Parameters stand for what
  \<^verbatim>\<open>hurd/diskfs.h\<close> and \<^verbatim>\<open>dirent.h\<close> define: the values of \<^verbatim>\<open>enum lookup_type\<close>, \<^verbatim>\<open>diskfs_nref\<close>, \<^verbatim>\<open>diskfs_nput\<close>, and the layout
  of \<^verbatim>\<open>struct dirent\<close>.
\<close>

section \<open>Listing\<close>

record dirent =
  d_ino :: u64
  d_reclen :: u16
  d_type :: u8
  d_namlen :: u8
  d_name :: bytes

record dirent_layout =
  sizeof_dirent :: nat
  off_d_name :: nat

definition DT_UNKNOWN :: u8 where "DT_UNKNOWN = 0"

definition strlen :: "bytes \<Rightarrow> nat" where
  "strlen s = length (takeWhile (\<lambda>c. c \<noteq> 0) s)"

definition dirent_reclen :: "dirent_layout \<Rightarrow> nat \<Rightarrow> nat" where
  "dirent_reclen ly namelen = (sizeof_dirent ly + namelen + 3) div 4 * 4"

text \<open>
  The loop. Its state: the contents of the block \<open>name\<close> (\<open>None\<close> while never written) and \<open>gotinum\<close>, the position, \<^verbatim>\<open>*amt\<close>,
  the offset of \<open>datap\<close> in the caller's buffer, and the records written so far with their offsets. \<open>ok\<close> says whether
  \<open>name\<close> could be allocated, \<open>space\<close> is the size of the caller's buffer.
\<close>

type_synonym directs =
  "bytes option \<times> u64 option \<times> int \<times> int \<times> nat \<times> (nat \<times> dirent) list \<times> heap"

definition get_directs_step ::
  "fs \<Rightarrow> dirent_layout \<Rightarrow> nat \<Rightarrow> u64 \<Rightarrow> bool \<Rightarrow> directs \<Rightarrow> (directs + int \<times> nat \<times> (nat \<times> dirent) list \<times> heap) run" where
  "get_directs_step d ly space cid ok = (\<lambda>(name, gotinum, pos, amt, datap, out, h).
     run_bind (readndir d cid pos (if ok then 100 else 0) h) (\<lambda>(err, w, h).
       if err \<noteq> 0 then run_return (Inr (amt, datap, out, h))
       else let (name, gotinum) = (case w of None \<Rightarrow> (name, gotinum) | Some (bs, ino) \<Rightarrow> (Some bs, Some ino))
            in run_check ok Null_Deref
                 (case (name, gotinum) of (Some bs, Some ino) \<Rightarrow>
                    let namelen = strlen bs; reclen = dirent_reclen ly namelen;
                        userp = \<lparr>d_ino = ino, d_reclen = of_nat reclen, d_type = DT_UNKNOWN,
                                 d_namlen = of_nat namelen, d_name = take namelen bs @ [0]\<rparr>
                    in run_check (datap + off_d_name ly + namelen + 1 \<le> space) Out_Of_Bounds
                         (if amt + 1 \<ge> 30 then run_return (Inr (amt + 1, datap, out @ [(datap, userp)], h))
                          else run_return (Inl (name, gotinum, pos + 1, amt + 1, datap + reclen,
                                                out @ [(datap, userp)], h)))
                  | _ \<Rightarrow> run_fault Uninit_Read)))"

text \<open>The values of \<^verbatim>\<open>*amt\<close> and \<^verbatim>\<open>*datacnt\<close> and the records; the function always returns 0. Neither \<open>n\<close> nor \<open>bufsiz\<close> is looked at.\<close>

definition diskfs_get_directs ::
  "fs \<Rightarrow> dirent_layout \<Rightarrow> nat \<Rightarrow> u64 \<Rightarrow> int \<Rightarrow> heap \<Rightarrow> (int \<times> nat \<times> (nat \<times> dirent) list \<times> heap) run" where
  "diskfs_get_directs d ly space cid entry h =
     (let (ok, h) = malloc h
      in run_bind (run_loop (get_directs_step d ly space cid ok) (None, None, entry, 0, 0, [], h))
           (\<lambda>(amt, datacnt, out, h). run_return (amt, datacnt, out, if ok then free_block h else h)))"

section \<open>Looking up a name\<close>

text \<open>\<open>name\<close> is the string without its terminating zero. The result code and \<^verbatim>\<open>*gotinum\<close>.\<close>

definition dirscan ::
  "fs \<Rightarrow> u64 \<Rightarrow> bytes \<Rightarrow> nat \<Rightarrow> u64 option \<Rightarrow> heap \<Rightarrow> (int \<times> u64 option \<times> heap) run" where
  "dirscan d dinum name namelen gotinum h =
     run_bind (directory d dinum (name @ [0]) namelen gotinum h) (\<lambda>(gotinum, h).
       if strncmp (name @ [0]) [0x2e] 1 = 0 then run_return (0, gotinum, h)
       else case gotinum of None \<Rightarrow> run_fault Uninit_Read
            | Some v \<Rightarrow> run_return (if v = - 1 then ENOENT else 0, gotinum, h))"

record diskfs_h =
  LOOKUP :: u32
  CREATE :: u32
  REMOVE :: u32
  RENAME :: u32
  SPEC_DOTDOT :: u32
  diskfs_nref :: "nat \<Rightarrow> nodes \<Rightarrow> nodes"
  diskfs_nput :: "nat \<Rightarrow> nodes \<Rightarrow> nodes run"

text \<open>\<open>diskfs_cached_lookup (gotinum, npp)\<close>, where \<open>npp\<close> says whether the pointer is not null.\<close>

definition lookup_into ::
  "fs \<Rightarrow> sys \<Rightarrow> u64 option \<Rightarrow> bool \<Rightarrow> nodes \<Rightarrow> (int \<times> nat option \<times> nodes) run" where
  "lookup_into d s gotinum npp w =
     (case gotinum of None \<Rightarrow> run_fault Uninit_Read
      | Some ino \<Rightarrow> run_check npp Null_Deref (diskfs_cached_lookup d s ino w))"

text \<open>The part after \<^verbatim>\<open>Load the inode\<close>.\<close>

definition lookup_load ::
  "fs \<Rightarrow> sys \<Rightarrow> diskfs_h \<Rightarrow> nat option \<Rightarrow> nat \<Rightarrow> bytes \<Rightarrow> u32 \<Rightarrow> u8 \<Rightarrow> bool \<Rightarrow> nat option \<Rightarrow> u64 option \<Rightarrow> nodes \<Rightarrow>
     (int \<times> nat option \<times> nodes) run" where
  "lookup_load d s lib diskfs_root_node dp name type spec_dotdot npp out gotinum w =
     (let namelen = of_nat (length name) :: u8
      in if namelen = 2 \<and> name ! 0 = 0x2e \<and> name ! 1 = 0x2e
         then if diskfs_root_node = Some dp then run_return (EAGAIN, out, w)
              else if spec_dotdot \<noteq> 0
              then run_check (type = LOOKUP lib) Assert_Failed
                     (run_bind (diskfs_nput lib dp w) (\<lambda>w.
                       run_bind (lookup_into d s gotinum npp w) (\<lambda>(err, np, w). run_return (0, np, w))))
              else run_bind (mutex_unlock dp w) (\<lambda>w.
                     run_bind (lookup_into d s gotinum npp w) (\<lambda>(err, np, w).
                       run_bind (mutex_lock dp w) (\<lambda>w. run_return (0, np, w))))
         else if namelen = 1 \<and> name ! 0 = 0x2e
         then run_check npp Null_Deref (run_return (0, Some dp, diskfs_nref lib dp w))
         else lookup_into d s gotinum npp w)"

text \<open>The result code and \<^verbatim>\<open>*npp\<close>, whose value at the call is \<open>old\<close>.\<close>

definition diskfs_lookup_hard ::
  "fs \<Rightarrow> sys \<Rightarrow> diskfs_h \<Rightarrow> nat option \<Rightarrow> nat \<Rightarrow> bytes \<Rightarrow> u32 \<Rightarrow> bool \<Rightarrow> nat option \<Rightarrow> nodes \<Rightarrow>
     (int \<times> nat option \<times> nodes) run" where
  "diskfs_lookup_hard d s lib diskfs_root_node dp name type npp old w =
     with_node dp (\<lambda>n.
       if type = REMOVE lib \<or> type = RENAME lib then run_check npp Assert_Failed (run_return (EROFS, old, w))
       else let out = (if npp then None else old);
                spec_dotdot = ucast (type AND SPEC_DOTDOT lib) :: u8;
                type = type AND NOT (SPEC_DOTDOT lib)
            in if type = RENAME lib then run_return (EROFS, out, w)
               else run_bind (dirscan d (cache_id n) name (length name) None (mem w)) (\<lambda>(err, gotinum, h).
                 if err \<noteq> 0 then run_return (err, out, w\<lparr>mem := h\<rparr>)
                 else lookup_load d s lib diskfs_root_node dp name type spec_dotdot npp out gotinum (w\<lparr>mem := h\<rparr>))) w"

section \<open>Statistics and symbolic links\<close>

record fsys_statfsbuf =
  f_type :: u32
  f_bsize :: u32
  f_blocks :: u32
  f_bfree :: u32
  f_bavail :: u32
  f_files :: u32
  f_ffree :: u32
  f_fsid :: u32
  f_namelen :: u32

definition diskfs_set_statfs :: "fs \<Rightarrow> sys \<Rightarrow> int \<times> fsys_statfsbuf" where
  "diskfs_set_statfs d s = (0, \<lparr>f_type = JFS_SUPER_MAGIC, f_bsize = s_bsize (jfs_sb d), f_blocks = s_agsize (jfs_sb d),
     f_bfree = 0, f_bavail = 0, f_files = 0, f_ffree = 0, f_fsid = getpid s, f_namelen = 0\<rparr>)"

definition read_symlink_hook :: "nat \<Rightarrow> bytes \<Rightarrow> int \<times> bytes" where
  "read_symlink_hook np buf = (EOPNOTSUPP, buf)"

section \<open>What a listing contains\<close>

definition reclen_for :: "dirent_layout \<Rightarrow> dentry \<Rightarrow> nat" where
  "reclen_for ly e = dirent_reclen ly (strlen (fst (entry_out e)))"

definition dirent_for :: "dirent_layout \<Rightarrow> dentry \<Rightarrow> dirent" where
  "dirent_for ly e = \<lparr>d_ino = ucast (fst e), d_reclen = of_nat (reclen_for ly e), d_type = DT_UNKNOWN,
     d_namlen = of_nat (strlen (fst (entry_out e))),
     d_name = take (strlen (fst (entry_out e))) (fst (entry_out e)) @ [0]\<rparr>"

fun place_recs :: "dirent_layout \<Rightarrow> nat \<Rightarrow> dentry list \<Rightarrow> (nat \<times> dirent) list" where
  "place_recs ly off [] = []"
| "place_recs ly off (e # es) = (off, dirent_for ly e) # place_recs ly (off + reclen_for ly e) es"

definition recs_size :: "dirent_layout \<Rightarrow> dentry list \<Rightarrow> nat" where
  "recs_size ly es = sum_list (map (reclen_for ly) es)"

lemma reclen_room: "off_d_name ly < sizeof_dirent ly \<Longrightarrow> off_d_name ly + strlen (fst (entry_out e)) + 1 \<le> reclen_for ly e"
  unfolding reclen_for_def dirent_reclen_def by linarith

text \<open>One round, when there is an entry at the position and when there is none.\<close>

lemma get_directs_entry:
  assumes at: "fs_ok d" "dir_at d t (ucast cid) es" "list_all (\<lambda>e. length (snd e) < 100) es" and h: "mem_ok h"
    and pos: "0 \<le> pos" "nat pos < length es" and ly: "off_d_name ly < sizeof_dirent ly"
    and e: "e = es ! nat pos" and room: "datap + reclen_for ly e \<le> space"
  obtains h' where "mem_ok h'" and "mh_live h' = mh_live h + 2"
    and "get_directs_step d ly space cid True (name, g, pos, amt, datap, out, h) =
      (if amt + 1 \<ge> 30 then run_return (Inr (amt + 1, datap, out @ [(datap, dirent_for ly e)], h'))
       else run_return (Inl (Some (fst (entry_out e)), Some (snd (entry_out e)), pos + 1, amt + 1,
         datap + reclen_for ly e, out @ [(datap, dirent_for ly e)], h')))"
proof -
  obtain h' where h': "readndir d cid pos 100 h = run_return (0, Some (entry_out e), h')"
    "mem_ok h'" "mh_live h' = mh_live h + 2"
    using readndir_entry [OF at(1,2) h at(3) pos(1)] pos(2) by (auto simp: e)
  obtain bs ino where eo: "entry_out e = (bs, ino)" by (cases "entry_out e")
  have ino: "ucast (fst e) = ino" using eo by (simp add: entry_out_def)
  show ?thesis
    by (rule that [OF h'(2,3)]) (use h'(1) reclen_room [OF ly, of e] room eo in
      \<open>auto simp: get_directs_step_def Let_def dirent_for_def reclen_for_def ino run_check_def\<close>)
qed

lemma get_directs_end:
  assumes at: "fs_ok d" "dir_at d t (ucast cid) es" "list_all (\<lambda>e. length (snd e) < 100) es" and h: "mem_ok h"
    and pos: "0 \<le> pos" "\<not> nat pos < length es"
  obtains h' where "mem_ok h'" and "mh_live h' = mh_live h + 1"
    and "get_directs_step d ly space cid True (name, g, pos, amt, datap, out, h) = run_return (Inr (amt, datap, out, h'))"
proof -
  obtain h' where "readndir d cid pos 100 h = run_return (1, None, h')" "mem_ok h'" "mh_live h' = mh_live h + 1"
    using readndir_entry [OF at(1,2) h at(3) pos(1)] pos(2) by auto
  then show ?thesis by (intro that [of h']) (simp_all add: get_directs_step_def)
qed

lemma take_drop_Cons: "n < length xs \<Longrightarrow> take (Suc k) (drop n xs) = xs ! n # take k (drop (Suc n) xs)"
  by (simp add: Cons_nth_drop_Suc [symmetric])

lemma get_directs_loop:
  assumes at: "fs_ok d" "dir_at d t (ucast cid) es" "list_all (\<lambda>e. length (snd e) < 100) es"
    and ly: "off_d_name ly < sizeof_dirent ly"
  shows "mem_ok h \<Longrightarrow> 0 \<le> pos \<Longrightarrow> amt = 29 - int k \<Longrightarrow> ls = take (Suc k) (drop (nat pos) es) \<Longrightarrow>
    datap + recs_size ly ls \<le> space \<Longrightarrow>
    \<exists>h'. run_loop (get_directs_step d ly space cid True) (name, g, pos, amt, datap, out, h) =
      run_return (amt + int (length ls), datap + recs_size ly (if length ls = Suc k then butlast ls else ls),
        out @ place_recs ly datap ls, h')
    \<and> mem_ok h' \<and> mh_live h' = mh_live h + 2 * int (length ls) + (if length ls = Suc k then 0 else 1)"
proof (induction k arbitrary: name g pos amt datap out h ls)
  case 0
  show ?case
  proof (cases "nat pos < length es")
    case True
    then have ls: "ls = [es ! nat pos]" using 0(4) by (simp add: take_drop_Cons)
    then have "datap + reclen_for ly (es ! nat pos) \<le> space" using 0(5) by (simp add: recs_size_def)
    from get_directs_entry [OF at 0(1,2) True ly refl this, of name g amt out] obtain h' where
      "mem_ok h'" "mh_live h' = mh_live h + 2" "get_directs_step d ly space cid True (name, g, pos, amt, datap, out, h) =
        run_return (Inr (amt + 1, datap, out @ [(datap, dirent_for ly (es ! nat pos))], h'))"
      unfolding 0(3) by simp metis
    then show ?thesis by (simp add: run_loop_done recs_size_def ls)
  next
    case False
    then have "ls = []" using 0(4) by simp
    moreover obtain h' where "mem_ok h'" "mh_live h' = mh_live h + 1"
      "get_directs_step d ly space cid True (name, g, pos, amt, datap, out, h) = run_return (Inr (amt, datap, out, h'))"
      using get_directs_end [OF at 0(1,2) False] .
    ultimately show ?thesis by (simp add: run_loop_done recs_size_def)
  qed
next
  case (Suc k)
  show ?case
  proof (cases "nat pos < length es")
    case True
    define e where "e = es ! nat pos"
    define ls' where "ls' = take (Suc k) (drop (nat (pos + 1)) es)"
    have "nat (pos + 1) = Suc (nat pos)" using Suc.prems(2) by simp
    then have ls: "ls = e # ls'"
      using Suc.prems(4) True take_drop_Cons [of "nat pos" es "Suc k"] by (simp add: e_def ls'_def)
    have room: "datap + reclen_for ly e + recs_size ly ls' \<le> space" using Suc.prems(5) by (simp add: ls recs_size_def)
    then have "datap + reclen_for ly e \<le> space" by simp
    from get_directs_entry [OF at Suc.prems(1,2) True ly e_def this, of name g amt out] obtain h1 where
      h1: "mem_ok h1" "mh_live h1 = mh_live h + 2" and
      step: "get_directs_step d ly space cid True (name, g, pos, amt, datap, out, h) =
        run_return (Inl (Some (fst (entry_out e)), Some (snd (entry_out e)), pos + 1, amt + 1, datap + reclen_for ly e,
          out @ [(datap, dirent_for ly e)], h1))"
      unfolding Suc.prems(3) by simp metis
    have "0 \<le> pos + 1" "amt + 1 = 29 - int k" using Suc.prems(2,3) by simp_all
    from Suc.IH [OF h1(1) this ls'_def room, of "Some (fst (entry_out e))" "Some (snd (entry_out e))"
        "out @ [(datap, dirent_for ly e)]"] show ?thesis
      unfolding run_loop_next [of "get_directs_step d ly space cid True", OF step] h1(2)
      by (cases "length ls' = Suc k") (auto simp: ls recs_size_def add.assoc)
  next
    case False
    then have "ls = []" using Suc.prems(4) by simp
    moreover obtain h' where "mem_ok h'" "mh_live h' = mh_live h + 1"
      "get_directs_step d ly space cid True (name, g, pos, amt, datap, out, h) = run_return (Inr (amt, datap, out, h'))"
      using get_directs_end [OF at Suc.prems(1,2) False] .
    ultimately show ?thesis by (simp add: run_loop_done recs_size_def)
  qed
qed

lemma get_directs_returns:
  assumes "fs_ok d" and "dir_at d t (ucast cid) es" and "list_all (\<lambda>e. length (snd e) < 100) es"
    and "off_d_name ly < sizeof_dirent ly" and "mem_ok h" and "0 \<le> entry"
    and "ls = take 30 (drop (nat entry) es)" and "recs_size ly ls \<le> space"
  shows "\<exists>h'. diskfs_get_directs d ly space cid entry h =
      run_return (int (length ls), recs_size ly (if length ls = 30 then butlast ls else ls), place_recs ly 0 ls, h')
    \<and> mem_ok h' \<and> mh_live h' = mh_live h + 2 * int (length ls) + (if length ls = 30 then 0 else 1)"
proof -
  obtain h0 where m: "malloc h = (True, h0)" "mem_ok h0" "mh_live h0 = mh_live h + 1"
    using mem_ok_malloc [OF assms(5)] malloc_live [of h] by (cases "malloc h") auto
  have "ls = take (Suc 29) (drop (nat entry) es)" using assms(7) by simp
  from get_directs_loop [OF assms(1-4) m(2) assms(6) _ this, of 0 0 space None None "[]"] assms(8) obtain h' where
    "run_loop (get_directs_step d ly space cid True) (None, None, entry, 0, 0, [], h0) =
      run_return (int (length ls), recs_size ly (if length ls = 30 then butlast ls else ls), place_recs ly 0 ls, h')"
    "mem_ok h'" "mh_live h' = mh_live h0 + 2 * int (length ls) + (if length ls = 30 then 0 else 1)" by auto
  then show ?thesis using m by (intro exI [of _ "free_block h'"]) (simp add: diskfs_get_directs_def)
qed

text \<open>
  C14: listing a directory. From entry number \<open>entry\<close> on, \<^verbatim>\<open>diskfs_get_directs\<close> writes one record per directory entry, in
  order and back to back, at most 30 of them, and sets \<^verbatim>\<open>*amt\<close> to their number. \<^verbatim>\<open>*datacnt\<close> is the size of the
  records written, except that with 30 records the last is left out of the count. Every entry read costs two leaked
  blocks, reading past the end one more. The caller's buffer must be large enough for the records: its size is never
  looked at.
\<close>

theorem diskfs_get_directs_lists:
  assumes "fs_ok d" and "dir_at d t (ucast cid) es" and "list_all (\<lambda>e. length (snd e) < 100) es"
    and "off_d_name ly < sizeof_dirent ly" and "mem_ok h" and "0 \<le> entry"
    and "ls = take 30 (drop (nat entry) es)" and "recs_size ly ls \<le> space"
  shows "\<exists>h'. diskfs_get_directs d ly space cid entry h =
      run_return (int (length ls), recs_size ly (if length ls = 30 then butlast ls else ls), place_recs ly 0 ls, h')
    \<and> mh_live h' = mh_live h + 2 * int (length ls) + (if length ls = 30 then 0 else 1)"
  using get_directs_returns [OF assms] by blast

text \<open>The records carry the names and inodes of the entries.\<close>

lemma place_recs_entry: "(off, r) \<in> set (place_recs ly o0 es) \<Longrightarrow> \<exists>e \<in> set es. r = dirent_for ly e"
  by (induction es arbitrary: o0) auto

lemma dirent_name:
  assumes "0 \<notin> set (shown_name (snd e))"
  shows "d_name (dirent_for ly e) = shown_name (snd e) @ [0]"
proof -
  have "takeWhile (\<lambda>c. c \<noteq> 0) (fst (entry_out e)) = shown_name (snd e)"
    unfolding entry_out_def using assms by (cases "length (snd e) - length (shown_name (snd e))") (auto simp: takeWhile_append)
  then have "strlen (fst (entry_out e)) = length (shown_name (snd e))" by (simp add: strlen_def)
  then show ?thesis by (simp add: dirent_for_def entry_out_def)
qed

section \<open>What a lookup finds\<close>

text \<open>The inode number the search leaves, from a variable that was not set.\<close>

definition scan_found :: "bytes \<Rightarrow> dentry list \<Rightarrow> u64 option" where
  "scan_found name es = (case find (name_matches name) es of Some e \<Rightarrow> Some (ucast (fst e))
     | None \<Rightarrow> if es = [] then None else Some (- 1))"

lemma strncmp_dot: "strncmp (name @ [0]) [0x2e] 1 = 0 \<longleftrightarrow> name \<noteq> [] \<and> hd name = 0x2e"
  by (cases name) (auto simp: word_uint_eq_iff)

lemma ucast_not_minus1: "ucast (x :: u32) \<noteq> (- 1 :: u64)"
proof
  assume "ucast x = (- 1 :: u64)"
  then have "bit (ucast x :: u64) 40" by simp
  then have "bit x 40" by (simp add: bit_simps)
  then show False using bit_imp_le_length [of x 40] by simp
qed

lemma dirscan_outcome:
  assumes "fs_ok d" and "dir_at d t (ucast dinum) es" and "mem_ok h" and "0 \<notin> set name"
    and "length name \<le> sizeof_UTF8_Buffer"
  shows "\<exists>h'. mem_ok h' \<and> mh_live h' = mh_live h \<and> dirscan d dinum name (length name) None h =
    (if name \<noteq> [] \<and> hd name = 0x2e then run_return (0, scan_found name es, h')
     else case find (name_matches name) es of
         Some e \<Rightarrow> run_return (0, Some (ucast (fst e)), h')
       | None \<Rightarrow> if es = [] then run_fault Uninit_Read else run_return (ENOENT, Some (- 1), h'))"
proof -
  obtain h' where h': "directory d dinum (name @ [0]) (length name) None h = run_return (scan_found name es, h')"
    "mem_ok h'" "mh_live h' = mh_live h"
    using directory_finds [OF assms, of "[0]" None] by (auto simp: scan_found_def)
  then show ?thesis
    unfolding dirscan_def strncmp_dot
    by (intro exI [of _ h']) (auto simp: scan_found_def ucast_not_minus1 split: option.split)
qed

text \<open>The call up to the point where the inode is loaded, for the types that are not refused.\<close>

definition lookup_type_ok :: "diskfs_h \<Rightarrow> u32 \<Rightarrow> bool" where
  "lookup_type_ok lib type \<longleftrightarrow> type \<noteq> REMOVE lib \<and> type \<noteq> RENAME lib \<and> type AND NOT (SPEC_DOTDOT lib) \<noteq> RENAME lib"

lemma lookup_hard_load:
  assumes "node_at w dp = Some n" and "lookup_type_ok lib type"
    and "dirscan d (cache_id n) name (length name) None (mem w) = run_return (0, g, h')"
  shows "diskfs_lookup_hard d s lib root dp name type True old w =
    lookup_load d s lib root dp name (type AND NOT (SPEC_DOTDOT lib)) (ucast (type AND SPEC_DOTDOT lib)) True None g (w\<lparr>mem := h'\<rparr>)"
  using assms by (simp add: diskfs_lookup_hard_def with_node_def lookup_type_ok_def Let_def)

lemma lookup_hard_finds:
  assumes "fs_ok d" and "node_at w dp = Some n" and "dir_at d t (ucast (cache_id n)) es" and "mem_ok (mem w)"
    and "lookup_type_ok lib type" and "name \<noteq> []" and "hd name \<noteq> 0x2e" and "0 \<notin> set name"
    and "length name \<le> sizeof_UTF8_Buffer"
  shows "\<exists>h'. mem_ok h' \<and> mh_live h' = mh_live (mem w) \<and> diskfs_lookup_hard d s lib root dp name type True old w =
    (case find (name_matches name) es of
       Some e \<Rightarrow> diskfs_cached_lookup d s (ucast (fst e)) (w\<lparr>mem := h'\<rparr>)
     | None \<Rightarrow> if es = [] then run_fault Uninit_Read else run_return (ENOENT, None, w\<lparr>mem := h'\<rparr>))"
proof -
  have dot: "name ! 0 \<noteq> 0x2e" using assms(6,7) by (simp add: hd_conv_nth)
  obtain h' where h': "mem_ok h'" "mh_live h' = mh_live (mem w)"
    "dirscan d (cache_id n) name (length name) None (mem w) =
      (case find (name_matches name) es of
         Some e \<Rightarrow> run_return (0, Some (ucast (fst e)), h')
       | None \<Rightarrow> if es = [] then run_fault Uninit_Read else run_return (ENOENT, Some (- 1), h'))"
    using dirscan_outcome [OF assms(1,3,4,8,9)] assms(7) by auto
  show ?thesis
  proof (cases "find (name_matches name) es")
    case None
    with h' assms(2,5) show ?thesis
      by (intro exI [of _ h'])
        (auto simp: diskfs_lookup_hard_def with_node_def lookup_type_ok_def Let_def ENOENT_def hurd_errno_def)
  next
    case (Some e)
    then have "dirscan d (cache_id n) name (length name) None (mem w) = run_return (0, Some (ucast (fst e)), h')"
      using h'(3) by simp
    from lookup_hard_load [OF assms(2,5) this, of s root old] Some h' dot show ?thesis
      by (intro exI [of _ h']) (auto simp: lookup_load_def lookup_into_def)
  qed
qed

text \<open>
  C15: looking up an ordinary name. For a name that does not begin with a dot, in a directory with at least one entry,
  the outcome is that of the node cache for the first entry whose name begins with the name asked for, and \<^verbatim>\<open>ENOENT\<close> with
  a null node when there is none; a name with bytes above 127 matches no entry. In a directory without entries the variable \<^verbatim>\<open>gotinum\<close> is read before it is set.
\<close>

theorem lookup_hard_name:
  assumes "fs_ok d" and "node_at w dp = Some n" and "dir_at d t (ucast (cache_id n)) es" and "mem_ok (mem w)"
    and "lookup_type_ok lib type" and "name \<noteq> []" and "hd name \<noteq> 0x2e" and "0 \<notin> set name"
    and "length name \<le> sizeof_UTF8_Buffer"
  shows "\<exists>h'. mem_ok h' \<and> mh_live h' = mh_live (mem w) \<and> diskfs_lookup_hard d s lib root dp name type True old w =
    (case find (name_matches name) es of
       Some e \<Rightarrow> diskfs_cached_lookup d s (ucast (fst e)) (w\<lparr>mem := h'\<rparr>)
     | None \<Rightarrow> if es = [] then run_fault Uninit_Read else run_return (ENOENT, None, w\<lparr>mem := h'\<rparr>))"
  using lookup_hard_finds [OF assms] .

text \<open>
  Looking up a dot: the name \<^verbatim>\<open>.\<close> gives the directory itself with a new reference, whatever the search for an entry
  of that name found.
\<close>

lemma lookup_hard_dot:
  assumes "fs_ok d" and "node_at w dp = Some n" and "dir_at d t (ucast (cache_id n)) es" and "mem_ok (mem w)"
    and "lookup_type_ok lib type"
  shows "\<exists>h'. mh_live h' = mh_live (mem w) \<and> diskfs_lookup_hard d s lib root dp [0x2e] type True old w =
    run_return (0, Some dp, diskfs_nref lib dp (w\<lparr>mem := h'\<rparr>))"
proof -
  obtain h' where h': "mh_live h' = mh_live (mem w)"
    "dirscan d (cache_id n) [0x2e] (length [0x2e :: u8]) None (mem w) = run_return (0, scan_found [0x2e] es, h')"
    using dirscan_outcome [OF assms(1,3,4), of "[0x2e]"] by (auto simp: sizeof_UTF8_Buffer_def PATH_MAX_def)
  from lookup_hard_load [OF assms(2,5) h'(2), of s root old] h'(1) show ?thesis
    by (auto simp: lookup_load_def)
qed

text \<open>
  C39: looking up two dots. JFS directories hold no entry of that name; the parent is the field \<^verbatim>\<open>idotdot\<close>, which is not
  used. The root gives \<^verbatim>\<open>EAGAIN\<close>. Elsewhere the inode asked of the node cache is that of the first entry whose name begins with two
  dots and the number all ones when there is none, and the result is 0 whatever the node cache returns; in a directory without entries
  the number is read before it is set. The bit \<^verbatim>\<open>SPEC_DOTDOT\<close> lies above the eight bits of the variable
  it is stored in, so the branch for it is never taken.
\<close>

theorem lookup_hard_dotdot:
  assumes "fs_ok d" and "node_at w dp = Some n" and "dir_at d t (ucast (cache_id n)) es" and "mem_ok (mem w)"
    and "lookup_type_ok lib type" and "ucast (SPEC_DOTDOT lib) = (0 :: u8)"
  shows "\<exists>h'. mh_live h' = mh_live (mem w) \<and> diskfs_lookup_hard d s lib root dp [0x2e, 0x2e] type True old w =
    (if root = Some dp then run_return (EAGAIN, None, w\<lparr>mem := h'\<rparr>)
     else if es = [] then run_fault Uninit_Read
     else run_bind (mutex_unlock dp (w\<lparr>mem := h'\<rparr>)) (\<lambda>w.
       run_bind (diskfs_cached_lookup d s (case find (name_matches [0x2e, 0x2e]) es of Some e \<Rightarrow> ucast (fst e) | None \<Rightarrow> - 1) w) (\<lambda>(err, np, w).
         run_bind (mutex_lock dp w) (\<lambda>w. run_return (0, np, w)))))"
proof -
  have "(ucast (type AND SPEC_DOTDOT lib) :: u8) = ucast type AND ucast (SPEC_DOTDOT lib)"
    by (rule bit_word_eqI) (auto simp: bit_simps)
  then have z: "(ucast (type AND SPEC_DOTDOT lib) :: u8) = 0" using assms(6) by simp
  obtain h' where h': "mh_live h' = mh_live (mem w)"
    "dirscan d (cache_id n) [0x2e, 0x2e] (length [0x2e, 0x2e :: u8]) None (mem w) = run_return (0, scan_found [0x2e, 0x2e] es, h')"
    using dirscan_outcome [OF assms(1,3,4), of "[0x2e, 0x2e]"] by (auto simp: sizeof_UTF8_Buffer_def PATH_MAX_def)
  from lookup_hard_load [OF assms(2,5) h'(2), of s root old] h'(1) assms(2) z show ?thesis
    by (intro exI [of _ h'])
      (auto simp: lookup_load_def lookup_into_def scan_found_def mutex_unlock_def with_node_def split: option.split)
qed

text \<open>
  Read-only. Lookups for removal or renaming are refused with \<^verbatim>\<open>EROFS\<close> and change nothing; with a null node
  pointer the assertion stops the process.
\<close>

lemma lookup_hard_readonly:
  assumes "node_at w dp = Some n" and "type = REMOVE lib \<or> type = RENAME lib"
  shows "diskfs_lookup_hard d s lib root dp name type npp old w =
    (if npp then run_return (EROFS, old, w) else run_fault Assert_Failed)"
  using assms by (auto simp: diskfs_lookup_hard_def with_node_def run_check_def)

lemma lookup_hard_refused:
  assumes "\<not> lookup_type_ok lib type" and "diskfs_lookup_hard d s lib root dp name type npp old w = run_return (err, r, w')"
  shows "err = EROFS \<and> w' = w"
  using assms by (auto simp: diskfs_lookup_hard_def lookup_type_ok_def with_node_def Let_def run_iff split: option.splits if_splits)

lemma lookup_hard_refuses:
  assumes "\<not> lookup_type_ok lib type" and "node_at w dp = Some n"
  shows "\<exists>r. diskfs_lookup_hard d s lib root dp name type True old w = run_return (EROFS, r, w)"
  using assms by (auto simp: diskfs_lookup_hard_def lookup_type_ok_def with_node_def Let_def)

end
