(* ===== verification/Jfs_Main.thy ===== *)
theory Jfs_Main
  imports Jfs_Callbacks Jfs_Dir
begin

text \<open>
  \<^verbatim>\<open>jfs.c\<close>: the start of the translator. \<^verbatim>\<open>diskfs_init_main\<close> is a parameter (the store and the bytes it maps);
  what \<^verbatim>\<open>diskfs_startup_diskfs\<close> does afterwards is outside, so the model ends with the state handed to it.
\<close>

definition JFS_NAME_MAX :: nat where "JFS_NAME_MAX = 255"
definition JFS_LINK_MAX :: nat where "JFS_LINK_MAX = 65535"

record diskfs_settings =
  diskfs_synchronous :: int
  diskfs_link_max :: nat
  diskfs_name_max :: nat
  diskfs_maxsymlinks :: int
  diskfs_shortcut_symlink :: int
  diskfs_readonly :: int
  diskfs_hard_readonly :: int

definition settings :: diskfs_settings where
  "settings = \<lparr>diskfs_synchronous = 0, diskfs_link_max = JFS_LINK_MAX, diskfs_name_max = JFS_NAME_MAX,
     diskfs_maxsymlinks = 8, diskfs_shortcut_symlink = 1, diskfs_readonly = 1, diskfs_hard_readonly = 1\<rparr>"

datatype argp_key = ARGP_KEY_INIT | ARGP_KEY_SUCCESS | Other_key int

definition ARGP_ERR_UNKNOWN :: int where "ARGP_ERR_UNKNOWN = hurd_errno 7"

text \<open>
  The result code and \<^verbatim>\<open>state->child_inputs\<close>, which has one place for each child of the parser. The tables have no options yet
  and one child each, which is in \<^verbatim>\<open>libdiskfs\<close> and here a name.
\<close>

definition parse_opt :: "argp_key \<Rightarrow> 'i \<Rightarrow> 'i option list \<Rightarrow> (int \<times> 'i option list) run" where
  "parse_opt key input child_inputs =
     (case key of
        ARGP_KEY_INIT \<Rightarrow> run_check (0 < length child_inputs) Out_Of_Bounds (run_return (0, child_inputs[0 := Some input]))
      | ARGP_KEY_SUCCESS \<Rightarrow> run_return (0, child_inputs)
      | Other_key _ \<Rightarrow> run_return (ARGP_ERR_UNKNOWN, child_inputs))"

record 'i argp =
  argp_options :: "int list"
  argp_parser :: "argp_key \<Rightarrow> 'i \<Rightarrow> 'i option list \<Rightarrow> (int \<times> 'i option list) run"
  args_doc :: "string option"
  argp_doc :: "string option"
  argp_children :: "string list"

definition options :: "int list" where "options = []"
definition startup_children :: "string list" where "startup_children = [''diskfs_store_startup_argp'']"
definition runtime_children :: "string list" where "runtime_children = [''diskfs_std_runtime_argp'']"

definition startup_argp :: "'i argp" where
  "startup_argp = \<lparr>argp_options = options, argp_parser = parse_opt, args_doc = None, argp_doc = None, argp_children = startup_children\<rparr>"

definition runtime_argp :: "'i argp" where
  "runtime_argp = \<lparr>argp_options = options, argp_parser = parse_opt, args_doc = None, argp_doc = None, argp_children = runtime_children\<rparr>"

text \<open>
  With the inputs of either table's children, the parser stays in bounds: it hands its input to the child, and leaves every
  option to it.
\<close>

lemma argp_parses:
  assumes "a = startup_argp \<or> a = runtime_argp" and "length cs = length (argp_children a)"
  shows "argp_parser a key input cs = run_return
    (if \<exists>k. key = Other_key k then ARGP_ERR_UNKNOWN else 0, if key = ARGP_KEY_INIT then [Some input] else cs)"
  using assms
  by (cases key; cases cs) (auto simp: startup_argp_def runtime_argp_def startup_children_def runtime_children_def parse_opt_def)

text \<open>Without \<^verbatim>\<open>DEBUG\<close>, nothing is printed.\<close>

definition jfs_info :: "string \<Rightarrow> int" where
  "jfs_info fmt = 0"

text \<open>
  With \<^verbatim>\<open>DEBUG\<close> and \<^verbatim>\<open>LOGFILE\<close> defined: whether \<^verbatim>\<open>fopen\<close> gives a file, the text in it, and \<^verbatim>\<open>printf_lock\<close>. What is
  printed for a format, and the number of characters, is what \<^verbatim>\<open>vfprintf\<close> makes of it and its arguments. The result of \<^verbatim>\<open>fopen\<close> is not
  looked at.
\<close>

record log_file =
  fopen_ok :: bool
  log_text :: string
  printf_lock :: bool

definition jfs_info_log :: "(string \<Rightarrow> int \<times> string) \<Rightarrow> string \<Rightarrow> log_file \<Rightarrow> (int \<times> log_file) run" where
  "jfs_info_log vfprintf fmt l =
     (if printf_lock l then None
      else let l = l\<lparr>printf_lock := True\<rparr>
           in run_check (fopen_ok l) Null_Deref
                (case vfprintf fmt of (count, out) \<Rightarrow> run_return (count, l\<lparr>log_text := log_text l @ out, printf_lock := False\<rparr>)))"

text \<open>The checks at the start of \<^verbatim>\<open>main\<close>, as the messages they pass to \<^verbatim>\<open>jfs_info\<close>; \<^verbatim>\<open>sizeof jfs_sb\<close> is the size of a pointer.\<close>

definition main_checks :: "disk \<Rightarrow> sys \<Rightarrow> string list" where
  "main_checks dk s =
     (if dk_size dk < unat SUPER1_OFF + 4 - 1 then [''Error: device too small for superblock (%Ld bytes)''] else [])
     @ (if log2_blocks_per_page s < 0 then [''Device block size (%zu) greater than page size (%zd)''] else [])"

fun log_all :: "(string \<Rightarrow> int \<times> string) \<Rightarrow> string list \<Rightarrow> log_file \<Rightarrow> log_file run" where
  "log_all vfprintf [] l = run_return l"
| "log_all vfprintf (m # ms) l = run_bind (jfs_info_log vfprintf m l) (\<lambda>(_, l). log_all vfprintf ms l)"

text \<open>A log that can be opened gets the texts of all messages in order, and the lock is free again; otherwise the first message is fatal.\<close>

lemma log_all_texts:
  assumes "\<not> printf_lock l"
  shows "log_all vfprintf ms l = (if fopen_ok l \<or> ms = [] then run_return (l\<lparr>log_text := log_text l @ concat (map (snd \<circ> vfprintf) ms)\<rparr>)
    else run_fault Null_Deref)"
  using assms by (induction ms arbitrary: l) (auto simp: jfs_info_log_def Let_def run_check_def split: prod.splits)

text \<open>The checks only report. \<open>dk\<close> is the store as mapped by \<^verbatim>\<open>create_disk_pager\<close>. The result is
  the superblock and disk, \<^verbatim>\<open>diskfs_root_node\<close> and the state; the code of the lookup of the root is dropped.\<close>

definition main_start :: "pager_lib \<Rightarrow> sys \<Rightarrow> disk \<Rightarrow> world \<Rightarrow> (fs \<times> nat option \<times> world) run" where
  "main_start lib s dk w =
     (let reported = map jfs_info (main_checks dk s)
      in run_bind (create_disk_pager lib w) (\<lambda>(u, w).
           run_bind (get_hypermetadata dk) (\<lambda>d.
             let w = w\<lparr>ns := inode_init INOHSZ (ns w)\<rparr>
             in run_bind (diskfs_cached_lookup d s 2 (ns w)) (\<lambda>(err, diskfs_root_node, n).
                  run_return (d, diskfs_root_node, w\<lparr>ns := n\<rparr>)))))"

lemma main_start_up:
  assumes dk: "get_hypermetadata dk = run_return d" and fs: "fs_ok d" and im: "imap_ok d FILESYSTEM_I t"
    and a: "inode_address d t 2 = Some a" "a + 512 \<le> dk_size d"
    and w: "\<And>x. node_at (ns w) x = None" "\<not> refcnt_lock (ns w)" "mem_ok (mem (ns w))"
    and exc: "catch_exception s = 0"
    and mk: "\<And>h. mem_ok h \<Longrightarrow> fst (make_node s h) = Some n0 \<and> mem_ok (snd (make_node s h))"
  shows "\<exists>w' np n. main_start lib s dk w = run_return (d, Some np, w') \<and> cache_ok (ns w')
    \<and> node_map (ns w') = [2 \<mapsto> np] \<and> node_at (ns w') np = Some n \<and> cache_id n = 2
    \<and> \<not> refcnt_lock (ns w') \<and> mem_ok (mem (ns w')) \<and> bufs w' = bufs w \<and> node2pagelock w' = node2pagelock w
    \<and> dn_stat n = fill_stat s 2 (dinode_of (disk_slice d a 512)) (dn_stat n0)"
proof -
  obtain h0 where m: "malloc (mem (ns w)) = (True, h0)" "mem_ok h0"
    using mem_ok_malloc [OF w(3)] by (cases "malloc (mem (ns w))") auto
  then obtain u w1 where w1: "create_disk_pager lib w = run_return (u, w1)" "ns w1 = (ns w)\<lparr>mem := h0\<rparr>"
    "bufs w1 = bufs w" "node2pagelock w1 = node2pagelock w"
    by (simp add: create_disk_pager_def Let_def call_def)
  define N where "N = inode_init INOHSZ (ns w1)"
  have N: "cache_ok N" "node_map N = Map.empty" using inode_init_empty [of "ns w1"] w(1) by (simp_all add: N_def w1(2))
  have Nf: "mem N = h0" "\<not> refcnt_lock N" using w(2) by (simp_all add: N_def inode_init_fields w1(2))
  obtain h1 where h1: "malloc h0 = (True, h1)" "mem_ok h1" using mem_ok_malloc [OF m(2)] by (cases "malloc h0") auto
  then obtain h2 where h2: "make_node s h1 = (Some n0, h2)" "mem_ok h2" using mk [OF h1(2)] by (cases "make_node s h1") auto
  have two: "unat (ucast (2 :: u64) :: u32) = 2" by simp
  have "inode_readable d t 2" using a by (simp add: inode_readable_def two)
  from cached_lookup_new [OF fs im this N(1) Nf(2), of h1 s n0 h2] N(2) Nf(1) h1(1) h2 a(1) exc obtain err w2 n where
    "diskfs_cached_lookup d s 2 N = run_return (err, Some (node_fresh N), w2)" "cache_ok w2"
    "node_map w2 = [2 \<mapsto> node_fresh N]" "node_at w2 (node_fresh N) = Some n"
    "cache_id n = 2" "\<not> refcnt_lock w2" "mem_ok (mem w2)"
    "dn_stat n = fill_stat s 2 (dinode_of (disk_slice d a 512)) (dn_stat n0)"
    by (auto simp: two)
  then show ?thesis by (simp add: main_start_def w1(1,3,4) dk N_def)
qed

text \<open>
  A store too small for the superblock ends the process with an access outside the mapping, and nothing is reported unless it is too
  small for the first three bytes of it.
\<close>

lemma main_start_small:
  assumes "dk_size dk < unat SUPER1_OFF + sizeof_superblock" and "mem_ok (mem (ns w))"
  shows "main_start lib s dk w = run_fault Segv"
    and "0 \<le> log2_blocks_per_page s \<Longrightarrow> main_checks dk s = [] \<longleftrightarrow> unat SUPER1_OFF + 3 \<le> dk_size dk"
proof -
  obtain h0 where "malloc (mem (ns w)) = (True, h0)"
    using mem_ok_malloc [OF assms(2)] by (cases "malloc (mem (ns w))") auto
  then show "main_start lib s dk w = run_fault Segv"
    using assms(1) by (simp add: main_start_def create_disk_pager_def get_hypermetadata_def Let_def)
  show "0 \<le> log2_blocks_per_page s \<Longrightarrow> main_checks dk s = [] \<longleftrightarrow> unat SUPER1_OFF + 3 \<le> dk_size dk"
    by (auto simp: main_checks_def)
qed

text \<open>
  C40: not a JFS store. When the four bytes at the place of the superblock are not the magic string, the process ends
  with exit status 0, which reports success.
\<close>

theorem main_start_not_jfs:
  assumes "unat SUPER1_OFF + sizeof_superblock \<le> dk_size dk" and "disk_slice dk (unat SUPER1_OFF) 4 \<noteq> JFS_MAGIC"
    and "mem_ok (mem (ns w))"
  shows "main_start lib s dk w = run_fault (Exit_Called 0)"
proof -
  obtain h0 where "malloc (mem (ns w)) = (True, h0)"
    using mem_ok_malloc [OF assms(3)] by (cases "malloc (mem (ns w))") auto
  moreover have "get_hypermetadata dk = run_fault (Exit_Called 0)"
    using assms(1,2) get_hypermetadata_returns [of dk "\<lparr>dk_size = dk_size dk, dk_byte = dk_byte dk,
        jfs_sb = superblock_of (disk_slice dk (unat SUPER1_OFF) sizeof_superblock)\<rparr>"]
    by (auto simp: get_hypermetadata_def Let_def split: if_splits)
  ultimately show ?thesis by (simp add: main_start_def create_disk_pager_def Let_def)
qed

end
