(* ===== verification/Jfs_Btree.thy ===== *)
theory Jfs_Btree
  imports Jfs_Layout
begin

text \<open>
  \<^verbatim>\<open>jfs_btree.h\<close>: the head of a B+-tree page, the traversal stack, an array of eight frames with a pointer
  \<open>top\<close> into it, here an index, and the macros that get and give back the page of a frame.
\<close>

section \<open>Pages\<close>

definition BT_TYPE :: u8 where "BT_TYPE = 0x07"
definition BT_RIGHTMOST :: u8 where "BT_RIGHTMOST = 0x10"
definition BT_LEFTMOST :: u8 where "BT_LEFTMOST = 0x20"
definition BT_SWAPPED :: u8 where "BT_SWAPPED = 0x80"

record btpage_t =
  bt_next :: u64
  bt_prev :: u64
  bt_flag :: u8
  bt_rsrvd :: bytes
  bt_self :: u64
  bt_entry :: bytes

definition btpage_of :: "bytes \<Rightarrow> btpage_t" where
  "btpage_of b = \<lparr>bt_next = le64 b 0, bt_prev = le64 b 8, bt_flag = b ! 16, bt_rsrvd = bytes_at b 17 7,
     bt_self = le64 b 24, bt_entry = bytes_at b 32 4064\<rparr>"

section \<open>The stack\<close>

definition MAXTREEHEIGHT :: nat where "MAXTREEHEIGHT = 8"

record btframe_t =
  bf_bn :: u64
  bf_index :: u16
  bf_lastindex :: u16
  bf_mp :: "nat option"

record btstack_t =
  bs_top :: nat
  bs_nsplit :: int
  bs_stack :: "btframe_t list"

definition BT_CLR :: "btstack_t \<Rightarrow> btstack_t" where
  "BT_CLR s = s\<lparr>bs_top := 0\<rparr>"

definition BT_PUSH :: "btstack_t \<Rightarrow> u64 \<Rightarrow> u16 \<Rightarrow> btstack_t run" where
  "BT_PUSH s bn index =
     run_check (bs_top s < MAXTREEHEIGHT) Out_Of_Bounds
       (let s = s\<lparr>bs_stack := (bs_stack s)[bs_top s := (bs_stack s ! bs_top s)\<lparr>bf_bn := bn, bf_index := index\<rparr>],
                  bs_top := bs_top s + 1\<rparr>
        in run_check (bs_top s \<noteq> MAXTREEHEIGHT) Assert_Failed (run_return s))"

text \<open>The frame popped, as its index, and the stack; \<open>None\<close> is the null pointer.\<close>

definition BT_POP :: "btstack_t \<Rightarrow> nat option \<times> btstack_t" where
  "BT_POP s = (if bs_top s = 0 then (None, s) else (Some (bs_top s - 1), s\<lparr>bs_top := bs_top s - 1\<rparr>))"

definition BT_STACK :: "btstack_t \<Rightarrow> nat option" where
  "BT_STACK s = (if bs_top s = 0 then None else Some (bs_top s))"

text \<open>A path: the frames below the top, oldest first.\<close>

definition bt_path :: "btstack_t \<Rightarrow> (u64 \<times> u16) list" where
  "bt_path s = map (\<lambda>f. (bf_bn f, bf_index f)) (take (bs_top s) (bs_stack s))"

definition bt_ok :: "btstack_t \<Rightarrow> bool" where
  "bt_ok s \<longleftrightarrow> length (bs_stack s) = MAXTREEHEIGHT \<and> bs_top s < MAXTREEHEIGHT"

text \<open>Pushing a whole path.\<close>

fun bt_push_all :: "btstack_t \<Rightarrow> (u64 \<times> u16) list \<Rightarrow> btstack_t run" where
  "bt_push_all s [] = run_return s"
| "bt_push_all s ((bn, index) # xs) = run_bind (BT_PUSH s bn index) (\<lambda>s. bt_push_all s xs)"

lemma BT_PUSH_path:
  assumes "bt_ok s"
  shows "if length (bt_path s) < 7
    then \<exists>s'. BT_PUSH s bn i = run_return s' \<and> bt_ok s' \<and> bt_path s' = bt_path s @ [(bn, i)]
    else BT_PUSH s bn i = run_fault Assert_Failed"
proof -
  have l: "length (bt_path s) = bs_top s" using assms by (simp add: bt_path_def bt_ok_def)
  have "take (Suc (bs_top s)) ((bs_stack s)[bs_top s := f]) = take (bs_top s) (bs_stack s) @ [f]" for f
    using assms by (simp add: bt_ok_def take_Suc_conv_app_nth take_update_cancel)
  then show ?thesis
    using assms by (auto simp: l BT_PUSH_def Let_def bt_ok_def bt_path_def MAXTREEHEIGHT_def)
qed

lemma bt_push_all_path:
  "bt_ok s \<Longrightarrow> length (bt_path s) + length xs \<le> 7 \<Longrightarrow>
    \<exists>s'. bt_push_all s xs = run_return s' \<and> bt_ok s' \<and> bt_path s' = bt_path s @ xs"
proof (induction xs arbitrary: s)
  case (Cons x xs)
  obtain bn i where x: "x = (bn, i)" by (cases x)
  from BT_PUSH_path [OF Cons.prems(1), of bn i] Cons.prems(2) obtain s1 where
    s1: "BT_PUSH s bn i = run_return s1" "bt_ok s1" "bt_path s1 = bt_path s @ [(bn, i)]" by auto
  with Cons.IH [OF s1(2)] Cons.prems(2) show ?case by (simp add: x)
qed simp

lemma bt_push_all_overflow:
  "bt_ok s \<Longrightarrow> length (bt_path s) + length xs > 7 \<Longrightarrow> bt_push_all s xs = run_fault Assert_Failed"
proof (induction xs arbitrary: s)
  case Nil
  then have "length (bt_path s) < 8" by (simp add: bt_path_def bt_ok_def MAXTREEHEIGHT_def)
  with Nil show ?case by simp
next
  case (Cons x xs)
  obtain bn i where x: "x = (bn, i)" by (cases x)
  show ?case
  proof (cases "length (bt_path s) < 7")
    case True
    with BT_PUSH_path [OF Cons.prems(1), of bn i] obtain s1 where
      s1: "BT_PUSH s bn i = run_return s1" "bt_ok s1" "bt_path s1 = bt_path s @ [(bn, i)]" by auto
    with Cons.IH [OF s1(2)] Cons.prems(2) show ?thesis by (simp add: x)
  next
    case False
    with BT_PUSH_path [OF Cons.prems(1), of bn i] show ?thesis by (simp add: x)
  qed
qed

text \<open>
  C38: the traversal stack. After it is cleared, a path of at most seven frames can be pushed and is then what the
  stack holds, and one longer stops at the assertion: although the array has eight frames and the constant promises a
  tree of height eight, the eighth frame cannot be used. Popping returns the last frame pushed.
\<close>

theorem bt_stack_path:
  assumes "length (bs_stack s) = MAXTREEHEIGHT"
  shows "(if length xs \<le> 7
     then \<exists>s'. bt_push_all (BT_CLR s) xs = run_return s' \<and> bt_path s' = xs
       \<and> (xs \<noteq> [] \<longrightarrow> fst (BT_POP s') = Some (length xs - 1)
            \<and> (bf_bn (bs_stack s' ! (length xs - 1)), bf_index (bs_stack s' ! (length xs - 1))) = last xs
            \<and> bt_path (snd (BT_POP s')) = butlast xs)
     else bt_push_all (BT_CLR s) xs = run_fault Assert_Failed)"
proof -
  have ok: "bt_ok (BT_CLR s)" "bt_path (BT_CLR s) = []"
    using assms by (simp_all add: bt_ok_def bt_path_def BT_CLR_def MAXTREEHEIGHT_def)
  show ?thesis
  proof (cases "length xs \<le> 7")
    case True
    with bt_push_all_path [OF ok(1), of xs] ok(2) obtain s' where
      s': "bt_push_all (BT_CLR s) xs = run_return s'" "bt_ok s'" "bt_path s' = xs" by auto
    then have top: "bs_top s' = length xs" by (auto simp: bt_path_def bt_ok_def)
    have "last xs = (bf_bn (bs_stack s' ! (length xs - 1)), bf_index (bs_stack s' ! (length xs - 1)))" if "xs \<noteq> []"
      using that s'(2,3) top by (metis (no_types, lifting) bt_path_def bt_ok_def diff_less last_conv_nth length_0_conv
          length_map length_take less_numeral_extra(1) not_gr_zero nth_map nth_take)
    moreover have "bt_path (snd (BT_POP s')) = butlast xs" if "xs \<noteq> []"
    proof -
      have "butlast xs = take (length xs - 1) (bt_path s')" by (simp add: butlast_conv_take s'(3))
      with that top show ?thesis by (simp add: BT_POP_def bt_path_def take_map min_def)
    qed
    ultimately show ?thesis using True s' top by (auto simp: BT_POP_def)
  next
    case False
    with bt_push_all_overflow [OF ok(1), of xs] ok(2) show ?thesis by simp
  qed
qed

section \<open>Page buffers of a search\<close>

text \<open>
  What the macros need of \<^verbatim>\<open>struct metapage\<close> and of the in-core inode, which are not in the repository: the flag that marks a
  buffer of a page outside the inode, the fields \<^verbatim>\<open>xflag\<close> and \<^verbatim>\<open>data\<close> of a buffer. The calls the macros make are recorded in order.
\<close>

record metapage_h =
  COMMIT_PAGE :: u32
  mp_xflag :: "nat \<Rightarrow> u32"
  mp_data :: "nat \<Rightarrow> bytes"

datatype bt_call = Mark_inode_dirty | Mark_metapage_dirty nat | Release_metapage nat

definition BT_IS_ROOT :: "metapage_h \<Rightarrow> nat \<Rightarrow> bool" where
  "BT_IS_ROOT L mp \<longleftrightarrow> mp_xflag L mp AND COMMIT_PAGE L = 0"

definition BT_PAGE :: "metapage_h \<Rightarrow> bytes \<Rightarrow> nat \<Rightarrow> bytes" where
  "BT_PAGE L root mp = (if BT_IS_ROOT L mp then root else mp_data L mp)"

definition BT_MARK_DIRTY :: "metapage_h \<Rightarrow> nat \<Rightarrow> bt_call list \<Rightarrow> bt_call list" where
  "BT_MARK_DIRTY L mp cs = cs @ [if BT_IS_ROOT L mp then Mark_inode_dirty else Mark_metapage_dirty mp]"

definition BT_PUTPAGE :: "metapage_h \<Rightarrow> nat \<Rightarrow> bt_call list \<Rightarrow> bt_call list" where
  "BT_PUTPAGE L mp cs = (if \<not> BT_IS_ROOT L mp then cs @ [Release_metapage mp] else cs)"

text \<open>The block, the buffer, the page and the index of the frame \<open>leaf\<close>.\<close>

definition BT_GETSEARCH :: "metapage_h \<Rightarrow> bytes \<Rightarrow> btframe_t \<Rightarrow> (u64 \<times> nat option \<times> bytes \<times> u16) run" where
  "BT_GETSEARCH L root leaf =
     (if bf_bn leaf \<noteq> 0
      then case bf_mp leaf of None \<Rightarrow> run_fault Null_Deref
           | Some mp \<Rightarrow> run_return (bf_bn leaf, Some mp, mp_data L mp, bf_index leaf)
      else run_return (0, bf_mp leaf, root, bf_index leaf))"

definition BT_PUTSEARCH :: "metapage_h \<Rightarrow> btstack_t \<Rightarrow> bt_call list \<Rightarrow> bt_call list run" where
  "BT_PUTSEARCH L s cs =
     run_check (bs_top s < MAXTREEHEIGHT) Out_Of_Bounds
       (case bf_mp (bs_stack s ! bs_top s) of None \<Rightarrow> run_fault Null_Deref
        | Some mp \<Rightarrow> run_return (if \<not> BT_IS_ROOT L mp then cs @ [Release_metapage mp] else cs))"

text \<open>
  When the buffers of pages outside the inode are the ones with a block number, what a search left in the top frame is
  the page its buffer stands for, and putting the search back releases that buffer exactly when it is not the root's.
\<close>

lemma search_page:
  assumes "bt_ok s" and "bf_mp (bs_stack s ! bs_top s) = Some mp" and "bf_bn (bs_stack s ! bs_top s) = 0 \<longleftrightarrow> BT_IS_ROOT L mp"
  shows "BT_GETSEARCH L root (bs_stack s ! bs_top s) =
      run_return (bf_bn (bs_stack s ! bs_top s), Some mp, BT_PAGE L root mp, bf_index (bs_stack s ! bs_top s))"
    and "BT_PUTSEARCH L s cs = run_return (BT_PUTPAGE L mp cs)"
  using assms by (auto simp: BT_GETSEARCH_def BT_PAGE_def BT_PUTSEARCH_def BT_PUTPAGE_def bt_ok_def)

end
