(* ===== verification/Jfs_Demo.thy ===== *)
theory Jfs_Demo
  imports Jfs_Main Jfs_Btree
begin

text \<open>
  A small file system image, with blocks of 4096 bytes, on which the hypotheses of the theorems about mapped disks hold:
  a superblock, the fileset inode with the map of the first inode group, inode 2 as a directory with the entries
  \<^verbatim>\<open>ab\<close> (inode 4) and \<^verbatim>\<open>b\<close> (inode 5), and inode 4 as a file of 5000 bytes in the blocks 24 and 25.
\<close>

section \<open>The image\<close>

definition demo_bytes :: "(nat \<times> u8) list" where
  "demo_bytes =
    [(32768, 0x4a), (32769, 0x46), (32770, 0x53), (32771, 0x31), (32785, 0x10), (32788, 12),
     (53488, 3), (53490, 3), (53492, 18), (53508, 1), (53512, 1), (53516, 20),
     (84992, 4), (84996, 21),
     (87092, 0xED), (87093, 0x41), (87280, 3), (87281, 2), (87284, 2), (87288, 1), (87289, 2),
     (87296, 4), (87300, 0xFF), (87301, 2), (87302, 0x61), (87304, 0x62),
     (87328, 5), (87332, 0xFF), (87333, 1), (87334, 0x62),
     (88088, 0x88), (88089, 0x13), (88116, 0xA4), (88117, 0x81),
     (88304, 3), (88306, 3), (88308, 18), (88328, 2), (88332, 24), (98304, 0x58)]"

definition demo_byte :: "nat \<Rightarrow> u8" where
  "demo_byte i = (case map_of demo_bytes i of Some b \<Rightarrow> b | None \<Rightarrow> 0)"

definition demo_disk :: disk where
  "demo_disk = \<lparr>dk_size = 131072, dk_byte = demo_byte\<rparr>"

definition demo :: fs where
  "demo = \<lparr>dk_size = 131072, dk_byte = demo_byte,
     jfs_sb = superblock_of (disk_slice demo_disk (unat SUPER1_OFF) sizeof_superblock)\<rparr>"

definition demo_heap :: heap where
  "demo_heap = \<lparr>mh_answers = (\<lambda>_. True), mh_live = 0\<rparr>"

definition demo_iag_xad :: xad_t where
  "demo_iag_xad = \<lparr>xad_flag = 0, xad_rsvrd = 0, xad_off1 = 0, xad_off2 = 1, xad_len = 1, xad_addr1 = 0, xad_addr2 = 20\<rparr>"

definition demo_file_xad :: xad_t where
  "demo_file_xad = \<lparr>xad_flag = 0, xad_rsvrd = 0, xad_off1 = 0, xad_off2 = 0, xad_len = 2, xad_addr1 = 0, xad_addr2 = 24\<rparr>"

abbreviation demo_map :: xtree where "demo_map \<equiv> XLeaf [demo_iag_xad]"
abbreviation demo_file :: xtree where "demo_file \<equiv> XLeaf [demo_file_xad]"

definition demo_entries :: "dentry list" where
  "demo_entries = [(4, [0x61, 0x62]), (5, [0x62])]"

section \<open>It is well formed\<close>

lemma demo_fields [simp]: "dk_size demo = 131072" "dk_byte demo = demo_byte" "dk_size demo_disk = 131072"
  "dk_byte demo_disk = demo_byte"
  by (simp_all add: demo_def demo_disk_def)

lemma demo_mem_ok [simp]: "mem_ok demo_heap"
  by (simp add: mem_ok_def demo_heap_def)

lemmas demo_eval = demo_byte_def demo_bytes_def

lemma demo_sb: "s_l2bsize (jfs_sb demo) = 12" "s_bsize (jfs_sb demo) = 4096"
  by (simp_all add: demo_def superblock_of_def le16_def le32_def sizeof_superblock_def SUPER1_OFF_def demo_eval push_bit_eq_mult)

lemma demo_l2b [simp]: "l2b demo = 12"
  by (simp add: demo_sb)

lemma demo_fs_ok [simp]: "fs_ok demo"
  by (simp add: fs_ok_def sb_ok_def demo_sb push_bit_eq_mult)

lemma demo_xads [simp]:
  "offsetXAD demo_iag_xad = 1" "lengthXAD demo_iag_xad = 1" "addressXAD demo_iag_xad = 20"
  "offsetXAD demo_file_xad = 0" "lengthXAD demo_file_xad = 2" "addressXAD demo_file_xad = 24"
  by (simp_all add: offsetXAD_def lengthXAD_def addressXAD_def demo_iag_xad_def demo_file_xad_def le24_to_cpu_def le32_to_cpu_def)

text \<open>The roots of the two trees.\<close>

lemma demo_entries_count: "xt_nentries (disk_slice demo 53472 288) = 1" "xt_nentries (disk_slice demo 88288 288) = 1"
  by (simp_all add: xt_nentries_def xtheader_of_def le16_def demo_eval XTENTRYSTART_def push_bit_eq_mult)

lemma demo_page_xads:
  "page_xads (disk_slice demo 53472 288) = [demo_iag_xad]" "page_xads (disk_slice demo 88288 288) = [demo_file_xad]"
  by (simp_all add: page_xads_def demo_entries_count xad_of_def le16_def le32_def demo_eval demo_iag_xad_def demo_file_xad_def)

lemma demo_root_flags:
  "xth_flag (xtheader_of (disk_slice demo 53472 288)) = 3" "xth_flag (xtheader_of (disk_slice demo 88288 288)) = 3"
  by (simp_all add: xtheader_of_def demo_eval)

lemma demo_repr:
  "xt_repr demo (disk_slice demo 53472 288) demo_map" "xt_repr demo (disk_slice demo 88288 288) demo_file"
  by (simp_all add: page_ok_def demo_entries_count demo_page_xads demo_root_flags ascending_def BT_LEAF_def BT_INTERNAL_def)

lemma demo_wf: "xt_wf 0 (2 ^ 41) demo_map" "xt_wf 0 (2 ^ 41) demo_file"
  by (simp_all add: ascending_def in_bounds_def)

lemma demo_imap_ok [simp]: "imap_ok demo FILESYSTEM_I demo_map"
  using demo_repr(1) demo_wf(1) by (simp add: imap_ok_def FILESYSTEM_I_def)

lemma demo_find: "xt_find demo_map 1 = Some demo_iag_xad" "xt_find demo_file 0 = Some demo_file_xad"
  "xt_find demo_file 1 = Some demo_file_xad" "xt_find demo_file 2 = None"
  by (simp_all add: xt_find_def covers_def)

lemma demo_iag: "pxd_of (disk_slice demo 81920 4096) 3072 = \<lparr>pxd_len = 4, pxd_addr1 = 0, pxd_addr2 = 21\<rparr>"
  by (simp add: pxd_of_def le32_def demo_eval)

lemma demo_inodes [simp]: "inode_address demo demo_map 2 = Some 87040" "inode_address demo demo_map 4 = Some 88064"
  by (simp_all add: inode_address_def demo_find [unfolded One_nat_def] demo_iag addressPXD_def le32_to_cpu_def)

lemma demo_hyper: "get_hypermetadata demo_disk = run_return demo"
proof -
  have "[0..<4] = [0, 1, 2, 3 :: nat]" by (simp add: upt_rec)
  then show ?thesis
    unfolding get_hypermetadata_returns
    by (simp add: demo_def disk_slice_def SUPER1_OFF_def sizeof_superblock_def JFS_MAGIC_def demo_eval)
qed

section \<open>The directory\<close>

lemma demo_dir_root: "di_btroot (dinode_of (disk_slice demo 87040 512)) = disk_slice demo 87264 288"
  by (simp add: di_btroot_slice)

lemma demo_dir_mode: "di_mode (dinode_of (disk_slice demo 87040 512)) = 0x41ED"
  by (simp add: dinode_of_def le32_def demo_eval push_bit_eq_mult)

lemma demo_dir_header: "dr_flag (dtroot_header_of (disk_slice demo 87264 288)) = 3"
  "dr_nextindex (dtroot_header_of (disk_slice demo 87264 288)) = 2"
  "root_stbl (disk_slice demo 87264 288) 0 = Inr 1" "root_stbl (disk_slice demo 87264 288) 1 = Inr 2"
  by (simp_all add: dtroot_header_of_def root_stbl_def byte_at_def demo_eval)

lemma upt_eleven: "[0..<11] = [0, 1, 2, 3, 4, 5, 6, 7, 8, 9, 10 :: nat]"
  by (simp add: upt_rec)

lemma demo_slots:
  "ldtentry_of (disk_slice demo 87264 288) 32 = \<lparr>ld_inumber = 4, ld_next = 0xFF, ld_namlen = 2,
     ld_name = [0x61, 0x62, 0, 0, 0, 0, 0, 0, 0, 0, 0], ld_index = 0\<rparr>"
  "ldtentry_of (disk_slice demo 87264 288) 64 = \<lparr>ld_inumber = 5, ld_next = 0xFF, ld_namlen = 1,
     ld_name = [0x62, 0, 0, 0, 0, 0, 0, 0, 0, 0, 0], ld_index = 0\<rparr>"
  by (simp_all add: ldtentry_of_def le16_def le32_def upt_eleven demo_eval)

lemma demo_entry_at:
  "entry_at (disk_slice demo 87264 288) 1 (4, [0x61, 0x62])" "entry_at (disk_slice demo 87264 288) 2 (5, [0x62])"
  by (simp_all add: entry_at_def Let_def demo_slots slots_ok_def next_slot_def slot_units_def)

lemma demo_dir: "dir_at demo demo_map 2 demo_entries"
proof -
  have "entries_at (disk_slice demo 87264 288) (root_stbl (disk_slice demo 87264 288)) 0 demo_entries"
    using demo_entry_at demo_dir_header(3,4) by (simp add: demo_entries_def entries_at_Cons) (simp add: entries_at_def)
  then have "dir_root demo (disk_slice demo 87264 288) demo_entries"
    by (simp add: dir_root_def demo_dir_header BT_LEAF_def demo_entries_def)
  then show ?thesis
    by (simp add: dir_at_def demo_dir_root demo_dir_mode IFMT_def IFDIR_def)
qed

lemma demo_shown: "shown_name [0x61, 0x62] = [0x61, 0x62]" "shown_name [0x62] = [0x62]"
  by (simp_all add: shown_name_def utf8_length_def utf8_encode_def)

lemma demo_out: "entry_out (4, [0x61, 0x62]) = ([0x61, 0x62, 0], 4)" "entry_out (5, [0x62]) = ([0x62, 0], 5)"
  by (simp_all add: entry_out_def demo_shown)

section \<open>Descriptors, disk and inodes\<close>

theorem split40_roundtrip_witness:
  "addressXAD (XADoffset id (XADaddress id demo_file_xad 0x123456789A) 7) = 0x123456789A
    \<and> offsetXAD (XADaddress id (XADoffset id demo_file_xad 7) 0x123456789A) = 7"
proof -
  have "take_bit 40 (0x123456789A :: u64) = 0x123456789A" "take_bit 40 (7 :: u64) = 7"
    by (rule take_bit_40_small; simp)+
  then show ?thesis using split40_roundtrip [where ?cpu_to_le32.0 = id and a = "0x123456789A" and x = demo_file_xad and b = 7] by (simp add: le32_to_cpu_def)
qed

theorem xRead_reads_witness:
  "\<exists>h'. xRead demo 32769 3 demo_heap = run_return (Some [0x46, 0x53, 0x31], h') \<and> mh_live h' = 0"
proof -
  have "[0..<3] = [0, 1, 2 :: nat]" by (simp add: upt_rec)
  then have "disk_slice demo 32769 3 = [0x46, 0x53, 0x31]" by (simp add: disk_slice_def demo_eval)
  then show ?thesis
    using xRead_reads [of demo 32769 3 demo_heap] by (auto simp: balanced_def) (simp_all add: demo_heap_def)
qed

theorem find_inode_finds_witness:
  "\<exists>h'. find_inode demo 4 FILESYSTEM_I demo_heap = run_return (Some 88064, h') \<and> mh_live h' = 0"
proof -
  obtain a h' where a: "find_inode demo 4 FILESYSTEM_I demo_heap = run_return (a, h')" "balanced demo_heap h'"
    "map_option unat a = Some 88064"
    using find_inode_finds [of demo FILESYSTEM_I demo_map 4 demo_heap] by auto
  then obtain x where "a = Some x" "unat x = 88064" by auto
  then have "a = Some 88064" by (auto simp: word_unat_eq_iff)
  with a show ?thesis by (auto simp: balanced_def) (simp add: demo_heap_def)
qed

section \<open>Blocks of a file\<close>

definition demo_pool :: bcache where
  "demo_pool = \<lparr>bCachelist = None, b_next = (\<lambda>_. None), b_data = (\<lambda>_. replicate 4096 0), nBuffer = 0, bc_fresh = 0\<rparr>"

lemma demo_pool_idle [simp]: "idle demo_pool"
  by (auto simp: idle_def pool_def demo_pool_def intro: exI [of _ "[]"])

lemma demo_file_root: "di_btroot (dinode_of (disk_slice demo 88064 512)) = disk_slice demo 88288 288"
  by (simp add: di_btroot_slice)

theorem xt_Lookup_correct_witness:
  "\<exists>r c' h'. xt_Lookup demo (dinode_of (disk_slice demo 88064 512)) 1 None 8 demo_pool demo_heap = run_return (r, c', h')
    \<and> xr_rc r = 0 \<and> map_option unat (xr_xaddr r) = Some 25 \<and> unat (xr_xlen r) = 1 \<and> idle c'"
proof -
  have "xt_answer demo_file 1 None 8 r \<Longrightarrow> xr_rc r = 0 \<and> map_option unat (xr_xaddr r) = Some 25 \<and> unat (xr_xlen r) = 1" for r
    by (simp add: xt_answer_def demo_find [unfolded One_nat_def])
  with xt_Lookup_correct [of demo 1 "dinode_of (disk_slice demo 88064 512)" demo_file "2 ^ 41" demo_pool demo_heap None 8]
  show ?thesis using demo_repr(2) demo_wf(2) by (auto simp: demo_file_root)
qed

theorem buffer_take_release_witness:
  "\<exists>b c' h'. bTake demo_pool demo_heap = run_return (b, c', h') \<and> lent c' b \<and> idle (bRelease b c')"
  using buffer_take_release [of demo_pool demo_heap] by auto

text \<open>An inode whose tree has \<^verbatim>\<open>nextindex\<close> 0.\<close>

theorem xt_Lookup_negative_witness:
  "xt_Lookup demo (dinode_of (replicate 512 0)) 5 None 8 demo_pool demo_heap = None"
proof -
  define p where "p = di_btroot (dinode_of (replicate 512 0))"
  have p: "p = replicate 288 0" by (simp add: p_def di_btroot_def dinode_of_def bytes_at_def)
  have "xt_nentries p = -2" by (simp add: p xt_nentries_def xtheader_of_def le16_def XTENTRYSTART_def)
  moreover have "xad_at p 1 = Inr (xad_of p 16)" by (simp add: p xad_at_def)
  moreover have "XT_CMP 5 (xad_of p 16) \<noteq> 0"
    by (simp add: p XT_CMP_def xad_of_def le16_def le32_def offsetXAD_def lengthXAD_def le32_to_cpu_def le24_to_cpu_def Let_def)
  ultimately show ?thesis
    using xt_Lookup_negative [of "dinode_of (replicate 512 0)"] unfolding p_def by blast
qed

end
