(* ===== verification/Jfs_Sections.thy ===== *)
theory Jfs_Sections
  imports Jfs_Prelude
begin

text \<open>
  Calls that several threads make at once, cut into sections. A section is what a thread does between two points at
  which another thread may run; where a thread is in its call is its program counter. Two readings of the same sections:
  one thread alone runs them to the end (\<open>run_sections\<close>), which must be the sequential definition; several threads run them
  in the order of a schedule (\<open>run_schedule\<close>).
\<close>

text \<open>\<open>fin\<close> gives the result when the call is over.\<close>

definition run_sections ::
  "('pc \<Rightarrow> 'r option) \<Rightarrow> ('pc \<Rightarrow> 's \<Rightarrow> ('pc \<times> 's) run) \<Rightarrow> 'pc \<Rightarrow> 's \<Rightarrow> ('r \<times> 's) run" where
  "run_sections fin sec pc s = run_loop (\<lambda>(pc, s). case fin pc of
     Some r \<Rightarrow> run_return (Inr (r, s))
   | None \<Rightarrow> run_bind (sec pc s) (\<lambda>x. run_return (Inl x))) (pc, s)"

lemma run_sections_done: "fin pc = Some r \<Longrightarrow> run_sections fin sec pc s = run_return (r, s)"
  by (simp add: run_sections_def run_loop_done)

lemma run_sections_next:
  "fin pc = None \<Longrightarrow> run_sections fin sec pc s = run_bind (sec pc s) (\<lambda>(pc, s). run_sections fin sec pc s)"
  unfolding run_sections_def by (subst run_loop.simps) (simp add: run_bind_assoc case_prod_unfold)

text \<open>The threads \<open>ts\<close>, one section each, in this order; \<open>sec t\<close> are the sections of the call thread \<open>t\<close> makes.\<close>

fun run_schedule ::
  "('t \<Rightarrow> 'pc \<Rightarrow> 's \<Rightarrow> ('pc \<times> 's) run) \<Rightarrow> 't list \<Rightarrow> 's \<Rightarrow> ('t \<Rightarrow> 'pc) \<Rightarrow> ('s \<times> ('t \<Rightarrow> 'pc)) run" where
  "run_schedule sec [] s T = run_return (s, T)"
| "run_schedule sec (t # ts) s T = run_bind (sec t (T t) s) (\<lambda>(pc, s). run_schedule sec ts s (T(t := pc)))"

lemma run_schedule_append:
  "run_schedule sec (ts @ us) s T = run_bind (run_schedule sec ts s T) (\<lambda>(s, T). run_schedule sec us s T)"
  by (induction ts arbitrary: s T) (simp_all add: run_bind_assoc case_prod_unfold)

text \<open>What every section keeps, every schedule keeps.\<close>

lemma run_schedule_invariant:
  assumes "run_schedule sec ts s T = run_return (s', T')" and "I s T"
    and "\<And>t s T pc s'. I s T \<Longrightarrow> sec t (T t) s = run_return (pc, s') \<Longrightarrow> I s' (T(t := pc))"
  shows "I s' T'"
  using assms(1,2)
proof (induction ts arbitrary: s T)
  case (Cons t ts)
  then obtain pc s1 where "sec t (T t) s = run_return (pc, s1)" "run_schedule sec ts s1 (T(t := pc)) = run_return (s', T')"
    by (auto simp: run_bind_return_iff)
  with Cons.IH assms(3) Cons.prems(2) show ?case by blast
qed simp

end
