(* ===== verification/Jfs_Events.thy ===== *)
theory Jfs_Events
  imports Main
begin

text \<open>
  Systems that take steps, and what holds of all their runs: the contract of an invariant, and of steps that show an event to the
  outside, as locales. Each step relation of the development is an instance.
\<close>

locale invariant_steps =
  fixes step :: "'s \<Rightarrow> 's \<Rightarrow> bool" and ok :: "'s \<Rightarrow> bool"
  assumes step_keeps: "step s s' \<Longrightarrow> ok s \<Longrightarrow> ok s'"
begin

lemma steps_keep: "step\<^sup>*\<^sup>* s s' \<Longrightarrow> ok s \<Longrightarrow> ok s'"
  by (induction rule: rtranclp_induct) (auto intro: step_keeps)

end

text \<open>A run shows the events of its steps in order.\<close>

inductive run_events :: "('s \<Rightarrow> 'e \<Rightarrow> 's \<Rightarrow> bool) \<Rightarrow> 's \<Rightarrow> 'e list \<Rightarrow> 's \<Rightarrow> bool" for step where
  none [intro!]: "run_events step s [] s"
| more [intro]: "step s e s' \<Longrightarrow> run_events step s' es s'' \<Longrightarrow> run_events step s (e # es) s''"

inductive_simps run_events_Nil [simp]: "run_events step s [] s'"
inductive_simps run_events_Cons: "run_events step s (e # es) s'"

lemma run_events_append:
  "run_events step s (es @ fs) s'' \<longleftrightarrow> (\<exists>s'. run_events step s es s' \<and> run_events step s' fs s'')"
  by (induction es arbitrary: s) (auto simp: run_events_Cons)

text \<open>From a good state every step shows an event the specification allows, and leads to a good state.\<close>

locale allowed_events =
  fixes step :: "'s \<Rightarrow> 'e \<Rightarrow> 's \<Rightarrow> bool" and ok :: "'s \<Rightarrow> bool" and allowed :: "'e \<Rightarrow> bool"
  assumes event_allowed: "step s e s' \<Longrightarrow> ok s \<Longrightarrow> allowed e"
    and event_keeps: "step s e s' \<Longrightarrow> ok s \<Longrightarrow> ok s'"
begin

lemma run_allowed: "run_events step s es s' \<Longrightarrow> ok s \<Longrightarrow> ok s' \<and> list_all allowed es"
  by (induction rule: run_events.induct) (auto dest: event_allowed event_keeps)

end

sublocale allowed_events \<subseteq> silent: invariant_steps "\<lambda>s s'. \<exists>e. step s e s'" ok
  by unfold_locales (auto intro: event_keeps)

end
