(* ===== verification/Jfs_Threads.thy ===== *)
theory Jfs_Threads
  imports Jfs_Nodes Jfs_Sections Jfs_Events
begin

text \<open>
  Concurrent lookups in the node cache. \<^verbatim>\<open>libdiskfs\<close> serves requests on many threads, so \<^verbatim>\<open>diskfs_cached_lookup\<close> (\<^verbatim>\<open>dir.c\<close>)
  runs in several of them at once. Here it is cut into the sections between which another thread can run: what it does
  while it holds \<^verbatim>\<open>diskfs_node_refcnt_lock\<close> is one section, and each access to the node outside that lock is one of its own.
  Run to the end by one thread alone, the sections are the sequential definition; interleaved, they keep the table well
  formed and give all threads the same node for the same number. What the missing lock on a new node and the increment
  outside the spin lock cost is shown as well.
\<close>

section \<open>The sections of a lookup\<close>

text \<open>
  Where a thread is: at the beginning; having found a node, before its lock; having entered a new node, before reading its
  inode; with the inode read, before \<^verbatim>\<open>spin_lock\<close> in \<^verbatim>\<open>read_node\<close>; before \<^verbatim>\<open>np->references++\<close>; between its load and its store;
  at the end, with the result code and \<^verbatim>\<open>*npp\<close>.
\<close>

datatype lookup_pc =
    Enter u64 | Await nat | Read_inode nat | Fill nat bytes | Count nat int | Store nat int int | Done int "nat option"

fun node_of :: "lookup_pc \<Rightarrow> nat option" where
  "node_of (Enter i) = None"
| "node_of (Await np) = Some np"
| "node_of (Read_inode np) = Some np"
| "node_of (Fill np bs) = Some np"
| "node_of (Count np err) = Some np"
| "node_of (Store np err v) = Some np"
| "node_of (Done err r) = r"

definition enter_section :: "sys \<Rightarrow> u64 \<Rightarrow> nodes \<Rightarrow> (lookup_pc \<times> nodes) run" where
  "enter_section s inum w =
     run_bind (spin_lock w) (\<lambda>w.
       run_bind (hash_search w inum) (\<lambda>found.
         case found of
           Some np \<Rightarrow> run_return (Await np, spin_unlock (upd_node np (\<lambda>n. n\<lparr>references := references n + 1\<rparr>) w))
         | None \<Rightarrow>
             (let (ok, h) = malloc (mem w); w = w\<lparr>mem := h\<rparr>
              in if \<not> ok then run_return (Done ENOMEM None, spin_unlock w)
                 else let (n, h) = make_node s (mem w); w = w\<lparr>mem := h\<rparr>
                      in case n of
                           None \<Rightarrow> run_return (Done ENOMEM None, spin_unlock (w\<lparr>mem := free_block (mem w)\<rparr>))
                         | Some n \<Rightarrow>
                             let np = node_fresh w
                             in run_bind (hash_insert np inum (place_node n inum w)) (\<lambda>w.
                                  run_return (Read_inode np, spin_unlock w)))))"

fun lookup_section :: "fs \<Rightarrow> sys \<Rightarrow> lookup_pc \<Rightarrow> nodes \<Rightarrow> (lookup_pc \<times> nodes) run" where
  "lookup_section d s (Enter inum) w = enter_section s inum w"
| "lookup_section d s (Await np) w = run_bind (mutex_lock np w) (\<lambda>w. run_return (Done 0 (Some np), w))"
| "lookup_section d s (Read_inode np) w = with_node np (\<lambda>n.
     run_bind (find_inode d (ucast (cache_id n)) 16 (mem w)) (\<lambda>(a, h).
       case a of None \<Rightarrow> run_return (Count np 1, w\<lparr>mem := h\<rparr>)
       | Some address \<Rightarrow>
           run_bind (xRead d address sizeof_dinode h) (\<lambda>(b, h).
             run_return (case b of None \<Rightarrow> Count np 1 | Some bs \<Rightarrow> Fill np bs, w\<lparr>mem := h\<rparr>)))) w"
| "lookup_section d s (Fill np bs) w =
     run_bind (spin_lock w) (\<lambda>w.
       if catch_exception s \<noteq> 0 then run_return (Count np (catch_exception s), w)
       else with_node np (\<lambda>_. run_return (Count np 0, spin_unlock (upd_node np (\<lambda>n. n\<lparr>
              dn_stat := fill_stat s (cache_id n) (dinode_of bs) (dn_stat n), author_tracks_uid := True\<rparr>) w))) w)"
| "lookup_section d s (Count np err) w = with_node np (\<lambda>n. run_return (Store np err (references n), w)) w"
| "lookup_section d s (Store np err v) w = with_node np (\<lambda>_.
     run_return (Done err (Some np), upd_node np (\<lambda>n. n\<lparr>references := v + 1\<rparr>) w)) w"
| "lookup_section d s (Done err r) w = run_return (Done err r, w)"

text \<open>One thread alone.\<close>

fun lookup_result :: "lookup_pc \<Rightarrow> (int \<times> nat option) option" where
  "lookup_result (Done err r) = Some (err, r)"
| "lookup_result _ = None"

definition run_alone :: "fs \<Rightarrow> sys \<Rightarrow> lookup_pc \<Rightarrow> nodes \<Rightarrow> (int \<times> nat option \<times> nodes) run" where
  "run_alone d s pc w = run_bind (run_sections lookup_result (lookup_section d s) pc w) (\<lambda>((err, r), w). run_return (err, r, w))"

lemma run_alone_done [simp]: "run_alone d s (Done err r) w = run_return (err, r, w)"
  by (simp add: run_alone_def run_sections_done)

lemma run_alone_section: "run_alone d s pc w = run_bind (lookup_section d s pc w) (\<lambda>(pc, w). run_alone d s pc w)"
proof (cases "lookup_result pc")
  case None
  then show ?thesis unfolding run_alone_def by (subst run_sections_next) (simp_all add: run_bind_assoc case_prod_unfold)
next
  case (Some r)
  then show ?thesis by (cases pc) simp_all
qed

lemma run_alone_await: "run_alone d s (Await np) w = run_bind (mutex_lock np w) (\<lambda>w. run_return (0, Some np, w))"
  by (subst run_alone_section) (simp add: run_bind_assoc)

lemma run_alone_count:
  "node_at w np = Some n \<Longrightarrow>
    run_alone d s (Count np err) w = run_return (err, Some np, upd_node np (\<lambda>n. n\<lparr>references := references n + 1\<rparr>) w)"
  by (simp add: run_alone_section [of d s "Count np err"] run_alone_section [of d s "Store np err v" for v] with_node_def upd_node_def)

lemma run_alone_fill:
  assumes "node_at w np = Some n"
  shows "run_alone d s (Fill np bs) w = run_bind (spin_lock w) (\<lambda>w.
    if catch_exception s \<noteq> 0
    then run_return (catch_exception s, Some np, upd_node np (\<lambda>n. n\<lparr>references := references n + 1\<rparr>) w)
    else run_return (0, Some np, upd_node np (\<lambda>n. n\<lparr>references := references n + 1\<rparr>)
      (spin_unlock (upd_node np (\<lambda>n. n\<lparr>dn_stat := fill_stat s (cache_id n) (dinode_of bs) (dn_stat n),
        author_tracks_uid := True\<rparr>) w))))"
proof (cases "refcnt_lock w")
  case True
  then show ?thesis by (subst run_alone_section) (simp add: spin_lock_def)
next
  case False
  define f where "f = (\<lambda>n :: node. n\<lparr>dn_stat := fill_stat s (cache_id n) (dinode_of bs) (dn_stat n), author_tracks_uid := True\<rparr>)"
  have "node_at (spin_unlock (upd_node np f (w\<lparr>refcnt_lock := True\<rparr>))) np = Some (f n)"
    using assms by (simp add: spin_unlock_def upd_node_def)
  moreover have "node_at (w\<lparr>refcnt_lock := True\<rparr>) np = Some n" using assms by simp
  ultimately show ?thesis
    using False by (subst run_alone_section) (simp add: spin_lock_def with_node_def run_alone_count f_def [symmetric])
qed

lemma run_alone_read:
  assumes n: "node_at w np = Some n"
  shows "run_alone d s (Read_inode np) w = run_bind (read_node d s np w) (\<lambda>(err, w).
    run_return (err, Some np, upd_node np (\<lambda>n. n\<lparr>references := references n + 1\<rparr>) w))"
proof -
  have live: "node_at (w\<lparr>mem := h\<rparr>) np = Some n" for h using n by simp
  show ?thesis
    using n by (subst run_alone_section)
      (auto simp: read_node_def with_node_def run_bind_assoc case_prod_unfold run_alone_count [OF live]
        run_alone_fill [OF live] intro!: arg_cong [where f = "run_bind _"] ext split: option.split)
qed

lemma upd_node_live [simp]: "node_at (upd_node b f w) a = None \<longleftrightarrow> node_at w a = None"
  by (simp add: upd_node_def)

lemma hash_insert_live: "hash_insert np i w = run_return w' \<Longrightarrow> node_at w' a = None \<longleftrightarrow> node_at w a = None"
  by (auto simp: hash_insert_def Let_def with_node_def run_iff split: option.splits)

lemma entered_alone:
  "run_bind (hash_insert np i (place_node n i w)) (\<lambda>w. run_alone d s (Read_inode np) (spin_unlock w)) =
    run_bind (hash_insert np i (place_node n i w)) (\<lambda>w. run_bind (read_node d s np (spin_unlock w)) (\<lambda>(err, w).
      run_return (err, Some np, upd_node np (\<lambda>n. n\<lparr>references := references n + 1\<rparr>) w)))"
  if "np = node_fresh w" for w np
proof (cases "hash_insert np i (place_node n i w)" rule: run_cases)
  case (returns w')
  have "node_at w' np \<noteq> None" using hash_insert_live [OF returns, of np] that by (simp add: place_node_def)
  then obtain m where "node_at (spin_unlock w') np = Some m" by (auto simp: spin_unlock_def)
  from run_alone_read [OF this] show ?thesis by (simp add: returns)
qed simp_all

text \<open>
  C27: the sections are the lookup. One thread that runs the sections of a lookup without interruption does what
  \<^verbatim>\<open>diskfs_cached_lookup\<close> does, in every state: the same result, the same state, the same fault, and it waits for ever
  exactly when the call does.
\<close>

theorem sections_are_lookup: "run_alone d s (Enter i) w = diskfs_cached_lookup d s i w"
proof -
  have enter: "run_bind (enter_section s i w) (\<lambda>(pc, w). run_alone d s pc w) = diskfs_cached_lookup d s i w"
    unfolding enter_section_def diskfs_cached_lookup_def run_bind_assoc
  proof (intro arg_cong [where f = "run_bind _"] ext, goal_cases)
    case (1 w found)
    obtain ok h where m: "malloc (mem w) = (ok, h)" by (cases "malloc (mem w)")
    obtain n h' where k: "make_node s h = (n, h')" by (cases "make_node s h")
    show ?case
      by (cases found; cases n) (simp_all add: m k Let_def run_bind_assoc run_alone_await entered_alone)
  qed
  then show ?thesis by (subst run_alone_section) simp
qed

section \<open>Interleaving\<close>

text \<open>
  The threads that are in a lookup, each with the number it looks for. A step is: a thread begins a lookup; a thread runs
  its next section, if the locks it needs are free; a thread leaves with its result; a holder of a node releases or takes
  its lock or changes its reference count; or the library ends a node, which it does only while no lookup refers to it and
  nobody is inside a section of the spin lock.
\<close>

type_synonym threads = "nat \<Rightarrow> (u64 \<times> lookup_pc) option"

inductive thread_step :: "fs \<Rightarrow> nodes \<times> threads \<Rightarrow> nodes \<times> threads \<Rightarrow> bool" for d where
  begins: "T t = None \<Longrightarrow> thread_step d (w, T) (w, T(t \<mapsto> (i, Enter i)))"
| runs: "T t = Some (i, pc) \<Longrightarrow> lookup_section d s pc w = run_return (pc', w') \<Longrightarrow>
    thread_step d (w, T) (w', T(t \<mapsto> (i, pc')))"
| leaves: "T t = Some (i, Done err r) \<Longrightarrow> thread_step d (w, T) (w, T(t := None))"
| unlocks: "mutex_unlock np w = run_return w' \<Longrightarrow> thread_step d (w, T) (w', T)"
| locks: "mutex_lock np w = run_return w' \<Longrightarrow> thread_step d (w, T) (w', T)"
| counts: "thread_step d (w, T) (upd_node np (references_update f) w, T)"
| allocates: "thread_step d (w, T) (w\<lparr>mem := h\<rparr>, T)"
| ends: "(\<And>t i pc. T t = Some (i, pc) \<Longrightarrow> node_of pc \<noteq> Some np) \<Longrightarrow> \<not> refcnt_lock w \<Longrightarrow>
    diskfs_node_norefs np w = run_return w' \<Longrightarrow> thread_step d (w, T) (w', T)"

text \<open>Every thread's node is the live node of the number it looks for.\<close>

fun threads_ok :: "nodes \<times> threads \<Rightarrow> bool" where
  "threads_ok (w, T) \<longleftrightarrow> cache_ok w \<and> (\<forall>t i pc. T t = Some (i, pc) \<longrightarrow>
     (\<forall>j. pc = Enter j \<longrightarrow> j = i) \<and> (\<forall>np. node_of pc = Some np \<longrightarrow> node_map w i = Some np))"

lemma enter_section_keeps:
  assumes ok: "cache_ok w" and ret: "enter_section s i w = run_return (pc, w')"
  shows "cache_ok w' \<and> (\<forall>j a. node_map w j = Some a \<longrightarrow> node_map w' j = Some a)
    \<and> (\<forall>j. pc \<noteq> Enter j) \<and> (\<forall>np. node_of pc = Some np \<longrightarrow> node_map w' i = Some np)"
proof -
  obtain w1 where w1: "spin_lock w = run_return w1" using ret by (auto simp: enter_section_def run_bind_return_iff)
  have ok1: "cache_ok w1" "node_map w1 = node_map w" using same_cache_ok [OF spin_lock_same [OF w1]] ok by simp_all
  have hs: "hash_search w1 i = run_return (node_map w i)" using nt.search_map [OF ok1(1)] ok1(2) by simp
  obtain okm h1 where m: "malloc (mem w1) = (okm, h1)" by (cases "malloc (mem w1)")
  obtain n h2 where mk: "make_node s h1 = (n, h2)" by (cases "make_node s h1")
  consider (hit) np where "node_map w i = Some np" | (nomem) "node_map w i = None" "\<not> okm \<or> n = None"
    | (new) n0 where "node_map w i = None" "okm" "n = Some n0"
    by (cases "node_map w i"; cases n) auto
  then show ?thesis
  proof cases
    case hit
    then have "pc = Await np" and w': "w' = spin_unlock (upd_node np (\<lambda>n. n\<lparr>references := references n + 1\<rparr>) w1)"
      using ret hs w1 by (simp_all add: enter_section_def)
    moreover have "same_cache w1 w'" unfolding w' by auto
    ultimately show ?thesis using same_cache_ok [of w1 w'] ok1 hit by simp
  next
    case nomem
    then have "pc = Done ENOMEM None" "same_cache w1 w'"
      using ret hs w1 m mk by (auto simp: enter_section_def Let_def split: if_splits)
    then show ?thesis using same_cache_ok [of w1 w'] ok1 by simp
  next
    case new
    define w2 where "w2 = w1\<lparr>mem := h2\<rparr>"
    have w2: "cache_ok w2" "node_map w2 = node_map w" using same_cache_ok [of w1 w2] ok1 by (simp_all add: w2_def)
    obtain w3 where w3: "hash_insert (node_fresh w2) i (place_node n0 i w2) = run_return w3" "cache_ok w3"
      "node_map w3 = (node_map w2)(i \<mapsto> node_fresh w2)"
      using enter_node_map [OF w2(1), of i n0] w2(2) new(1) by auto
    then have "pc = Read_inode (node_fresh w2)" "w' = spin_unlock w3"
      using ret hs w1 m mk new by (auto simp: enter_section_def Let_def w2_def)
    then show ?thesis using same_cache_ok [of w3 w'] w3(2,3) w2(2) new(1) by auto
  qed
qed

lemma later_section_same:
  assumes "lookup_section d s pc w = run_return (pc', w')" and "\<And>j. pc \<noteq> Enter j"
  shows "same_cache w w' \<and> node_of pc' = node_of pc \<and> (\<forall>j. pc' \<noteq> Enter j)"
proof (cases pc)
  case (Await np)
  with assms(1) mutex_same(1) [of np w] show ?thesis by (auto simp: run_iff)
next
  case (Read_inode np)
  with assms(1) show ?thesis by (auto simp: with_node_def run_iff split: option.splits)
next
  case (Fill np bs)
  with assms(1) obtain w1 where w1: "spin_lock w = run_return w1" by (auto simp: run_iff)
  have "same_cache w1 (upd_node np (\<lambda>n. n\<lparr>dn_stat := f n, author_tracks_uid := True\<rparr>) w1)" for f by auto
  with assms(1) Fill w1 have "same_cache w1 w'" "pc' = Count np (catch_exception s)"
    by (auto simp: with_node_def split: option.splits if_splits)
  with same_cache_trans [OF spin_lock_same [OF w1]] Fill show ?thesis by simp
next
  case (Store np err v)
  with assms(1) show ?thesis by (auto simp: with_node_def split: option.splits)
qed (use assms in \<open>auto simp: with_node_def split: option.splits\<close>)

lemma section_keeps:
  assumes "cache_ok w" and "lookup_section d s pc w = run_return (pc', w')"
    and "\<And>j. pc = Enter j \<Longrightarrow> j = i" and "\<And>np. node_of pc = Some np \<Longrightarrow> node_map w i = Some np"
  shows "cache_ok w' \<and> (\<forall>j a. node_map w j = Some a \<longrightarrow> node_map w' j = Some a)
    \<and> (\<forall>j. pc' \<noteq> Enter j) \<and> (\<forall>np. node_of pc' = Some np \<longrightarrow> node_map w' i = Some np)"
proof (cases "\<exists>j. pc = Enter j")
  case True
  then have "pc = Enter i" using assms(3) by blast
  with assms(2) have "enter_section s i w = run_return (pc', w')" by simp
  from enter_section_keeps [OF assms(1) this] show ?thesis .
next
  case False
  then have "same_cache w w'" "node_of pc' = node_of pc" "\<forall>j. pc' \<noteq> Enter j" using later_section_same [OF assms(2)] by auto
  with same_cache_ok [of w w'] assms(1,4) show ?thesis by simp
qed

lemma threads_ok_same: "threads_ok (w, T) \<Longrightarrow> same_cache w w' \<Longrightarrow> threads_ok (w', T)"
  using same_cache_ok [of w w'] by simp

lemma thread_step_keeps: "thread_step d x y \<Longrightarrow> threads_ok x \<Longrightarrow> threads_ok y"
proof (induction rule: thread_step.induct)
  case (runs T t i pc s w pc' w')
  have ok: "cache_ok w" "\<And>j. pc = Enter j \<Longrightarrow> j = i" "\<And>np. node_of pc = Some np \<Longrightarrow> node_map w i = Some np"
    using runs(1,3) by auto
  note k = section_keeps [OF ok(1) runs(2) ok(2,3)]
  show ?case unfolding threads_ok.simps
  proof (intro conjI allI impI)
    fix t' j pc'' assume "(T(t \<mapsto> (i, pc'))) t' = Some (j, pc'')"
    then have c: "j = i \<and> pc'' = pc' \<or> T t' = Some (j, pc'')" by (auto split: if_splits)
    show "k = j" if "pc'' = Enter k" for k using c that k runs(3) by auto
    show "node_map w' j = Some np" if "node_of pc'' = Some np" for np using c that k runs(3) by auto
  qed (use k in blast)
next
  case (unlocks np w w' T)
  then show ?case by (blast intro: threads_ok_same mutex_same)
next
  case (locks np w w' T)
  then show ?case by (blast intro: threads_ok_same mutex_same)
next
  case (counts w T np f)
  then show ?case by (rule threads_ok_same) auto
next
  case (allocates w T h)
  then show ?case by (rule threads_ok_same) simp
next
  case (ends T np w w')
  then obtain i where i: "cache_ok w'" "node_map w i = Some np" "node_map w' = (node_map w)(i := None)"
    using node_norefs_keeps [of w np w'] by auto
  have "node_map w' j = Some a" if "T t = Some (j, pc)" "node_of pc = Some a" for t j pc a
    using that ends(1) [OF that(1)] ends(4) i(2,3) by auto
  with i(1) ends(4) show ?case by auto
qed auto

interpretation thread_inv: invariant_steps "thread_step d" threads_ok for d
  by unfold_locales (rule thread_step_keeps)

text \<open>
  C5: concurrent lookups agree. From an empty table, let any number of threads look nodes up, their sections interleaved in
  any order with each other, with the library's locking and counting and with the ends of unused nodes, on any disk and
  with any failures. Then the node each thread refers to is live and has the number the thread looks for; two threads
  that look for the same number refer to the same node; every search of the table ends.
\<close>

theorem concurrent_lookups_agree:
  assumes "\<And>a. node_at w0 a = None" and "(thread_step d)\<^sup>*\<^sup>* (inode_init INOHSZ w0, Map.empty) (w, T)"
  shows "(\<forall>t i pc np. T t = Some (i, pc) \<and> node_of pc = Some np \<longrightarrow> cached w i np)
    \<and> (\<forall>t u i pc pc' np nq. T t = Some (i, pc) \<and> T u = Some (i, pc') \<and> node_of pc = Some np \<and> node_of pc' = Some nq \<longrightarrow> np = nq)
    \<and> (\<forall>i. \<exists>r. hash_search w i = run_return r)"
proof -
  have "threads_ok (w, T)"
    by (rule thread_inv.steps_keep [OF assms(2)]) (use inode_init_empty [OF assms(1)] in auto)
  then have ok: "cache_ok w" and at: "\<And>t i pc np. T t = Some (i, pc) \<Longrightarrow> node_of pc = Some np \<Longrightarrow> node_map w i = Some np" by auto
  then show ?thesis using nt.search_map [OF ok] by (auto simp: node_map_Some [OF ok]) (metis at option.inject)
qed

section \<open>Races\<close>

lemma enter_new:
  assumes "cache_ok w" and "\<not> refcnt_lock w" and "node_map w i = None"
    and m: "malloc (mem w) = (True, h1)" "make_node s h1 = (Some n0, h2)"
  obtains u n where "enter_section s i w = run_return (Read_inode (node_fresh w), u)"
    and "cache_ok u" and "node_map u = (node_map w)(i \<mapsto> node_fresh w)" and "mem u = h2" and "\<not> refcnt_lock u"
    and "node_at u (node_fresh w) = Some n" and "cache_id n = i" and "references n = references n0"
    and "node_lock n = node_lock n0" and "dn_stat n = dn_stat n0"
proof -
  obtain u n where u: "spin_lock w = run_return (w\<lparr>refcnt_lock := True\<rparr>)" "hash_search (w\<lparr>refcnt_lock := True\<rparr>) i = run_return None"
    "hash_insert (node_fresh w) i (place_node n0 i (w\<lparr>refcnt_lock := True, mem := h2\<rparr>)) = run_return u"
    and n: "cache_ok (spin_unlock u)" "node_map (spin_unlock u) = (node_map w)(i \<mapsto> node_fresh w)" "mem (spin_unlock u) = h2"
    "\<not> refcnt_lock (spin_unlock u)" "node_at (spin_unlock u) (node_fresh w) = Some n" "cache_id n = i"
    "references n = references n0" "node_lock n = node_lock n0" "dn_stat n = dn_stat n0"
    by (rule new_node_entered [OF assms(1-3)])
  have "enter_section s i w = run_return (Read_inode (node_fresh w), spin_unlock u)"
    using u by (simp add: enter_section_def m Let_def)
  from that [OF this n] show ?thesis .
qed

lemma enter_hit:
  assumes "cache_ok w" and "\<not> refcnt_lock w" and "node_map w i = Some np"
  shows "enter_section s i w = run_return (Await np, upd_node np (\<lambda>n. n\<lparr>references := references n + 1\<rparr>) w)"
proof -
  have "hash_search (w\<lparr>refcnt_lock := True\<rparr>) i = run_return (Some np)"
    using nt.search_map [of "w\<lparr>refcnt_lock := True\<rparr>" i] cache_cong [of "w\<lparr>refcnt_lock := True\<rparr>" w] assms(1,3) by simp
  with assms(2) show ?thesis by (simp add: enter_section_def spin_lock_def spin_unlock_def upd_node_def)
qed

text \<open>The sections of \<^verbatim>\<open>read_node\<close>, one after the other.\<close>

lemma read_node_steps:
  assumes "T t = Some (i, Read_inode np)" and "node_at w np = Some n" and "read_node d s np w = run_return (err, w')"
  shows "(thread_step d)\<^sup>*\<^sup>* (w, T) (w', T(t \<mapsto> (i, Count np err)))"
proof -
  obtain a h where a: "find_inode d (ucast (cache_id n)) 16 (mem w) = run_return (a, h)"
    using assms(2,3) by (auto simp: read_node_def with_node_def run_bind_return_iff)
  have "(\<exists>h'. lookup_section d s (Read_inode np) w = run_return (Count np err, w\<lparr>mem := h'\<rparr>) \<and> w' = w\<lparr>mem := h'\<rparr>)
      \<or> (\<exists>bs h'. lookup_section d s (Read_inode np) w = run_return (Fill np bs, w\<lparr>mem := h'\<rparr>)
        \<and> lookup_section d s (Fill np bs) (w\<lparr>mem := h'\<rparr>) = run_return (Count np err, w'))"
  proof (cases a)
    case None
    with assms(2,3) a show ?thesis by (auto simp: read_node_def with_node_def)
  next
    case (Some address)
    with assms(2,3) a obtain b h' where b: "xRead d address sizeof_dinode h = run_return (b, h')"
      by (auto simp: read_node_def with_node_def run_bind_return_iff)
    show ?thesis
    proof (cases b)
      case None
      with assms(2,3) a Some b show ?thesis by (auto simp: read_node_def with_node_def)
    next
      case (Some bs)
      with assms(2,3) a b \<open>a = Some address\<close> have "lookup_section d s (Read_inode np) w = run_return (Fill np bs, w\<lparr>mem := h'\<rparr>)"
        "lookup_section d s (Fill np bs) (w\<lparr>mem := h'\<rparr>) = run_return (Count np err, w')"
        by (simp_all add: read_node_def with_node_def run_iff spin_lock_def split: if_splits)
      then show ?thesis by blast
    qed
  qed
  then consider (unread) h' where "lookup_section d s (Read_inode np) w = run_return (Count np err, w\<lparr>mem := h'\<rparr>)" "w' = w\<lparr>mem := h'\<rparr>"
    | (filled) bs h' where "lookup_section d s (Read_inode np) w = run_return (Fill np bs, w\<lparr>mem := h'\<rparr>)"
        "lookup_section d s (Fill np bs) (w\<lparr>mem := h'\<rparr>) = run_return (Count np err, w')" by blast
  then show ?thesis
  proof cases
    case unread
    then show ?thesis using thread_step.runs [where T = T and t = t, OF assms(1) unread(1)] by blast
  next
    case filled
    define T1 where "T1 = T(t \<mapsto> (i, Fill np bs))"
    have "thread_step d (w, T) (w\<lparr>mem := h'\<rparr>, T1)" unfolding T1_def by (rule thread_step.runs [where T = T and t = t, OF assms(1) filled(1)])
    moreover have "thread_step d (w\<lparr>mem := h'\<rparr>, T1) (w', T1(t \<mapsto> (i, Count np err)))"
      by (rule thread_step.runs [OF _ filled(2)]) (simp add: T1_def)
    ultimately show ?thesis by (simp add: T1_def)
  qed
qed

text \<open>
  C28: a half-made node can be had. A new node is put into the table without its lock (the call that takes it is commented
  out), and its inode is read after the spin lock is released. So when two threads look for a number that is not cached,
  the second can return with success and the node before the first has read anything: the attributes it then holds are
  those \<^verbatim>\<open>diskfs_make_node\<close> left.
\<close>

theorem lookup_race_unfilled:
  fixes s :: sys
  assumes ok: "cache_ok w" "\<not> refcnt_lock w" "node_map w i = None"
    and m: "malloc (mem w) = (True, h1)" "make_node s h1 = (Some n0, h2)" "\<not> node_lock n0"
    and T: "T t = Some (i, Enter i)" "T u = Some (i, Enter i)" "t \<noteq> u"
  shows "\<exists>w' T' n. (thread_step d)\<^sup>*\<^sup>* (w, T) (w', T') \<and> T' u = Some (i, Done 0 (Some (node_fresh w)))
    \<and> T' t = Some (i, Read_inode (node_fresh w)) \<and> node_at w' (node_fresh w) = Some n \<and> dn_stat n = dn_stat n0"
proof -
  define np where "np = node_fresh w"
  obtain w1 n where e: "enter_section s i w = run_return (Read_inode np, w1)"
    and w1: "cache_ok w1" "node_map w1 = (node_map w)(i \<mapsto> np)" "\<not> refcnt_lock w1" "node_at w1 np = Some n"
    and n: "node_lock n = node_lock n0" "dn_stat n = dn_stat n0"
    using enter_new [OF ok m(1,2)] unfolding np_def by metis
  define T1 where "T1 = T(t \<mapsto> (i, Read_inode np))"
  define w2 where "w2 = upd_node np (\<lambda>n. n\<lparr>references := references n + 1\<rparr>) w1"
  define w3 where "w3 = upd_node np (node_lock_update (\<lambda>_. True)) w2"
  have "thread_step d (w, T) (w1, T1)" unfolding T1_def by (rule thread_step.runs [where T = T and t = t and s = s, OF T(1)]) (simp add: e)
  moreover have "thread_step d (w1, T1) (w2, T1(u \<mapsto> (i, Await np)))"
    by (rule thread_step.runs [where s = s and pc = "Enter i"]) (use T enter_hit [OF w1(1,3), of i np s] w1(2) in \<open>simp_all add: T1_def w2_def\<close>)
  moreover have "thread_step d (w2, T1(u \<mapsto> (i, Await np))) (w3, T1(u \<mapsto> (i, Await np), u \<mapsto> (i, Done 0 (Some np))))"
    by (rule thread_step.runs [where s = s and pc = "Await np"]) (use w1(4) n m(3) in \<open>simp_all add: w2_def w3_def mutex_lock_def with_node_def upd_node_def\<close>)
  ultimately have "(thread_step d)\<^sup>*\<^sup>* (w, T) (w3, T1(u \<mapsto> (i, Done 0 (Some np))))" by simp
  moreover have "\<exists>n'. node_at w3 np = Some n' \<and> dn_stat n' = dn_stat n0"
    using w1(4) n(2) by (simp add: w3_def w2_def upd_node_def)
  ultimately show ?thesis using T(3) unfolding np_def [symmetric] by (force simp: T1_def)
qed

text \<open>
  C29: a reference can be lost. The count of a new node is incremented without the spin lock. So when two threads look for
  a number that is not cached, both can return with the node while only one of their two references is counted.
\<close>

theorem lookup_race_reference:
  fixes s :: sys
  assumes fs: "fs_ok d" "imap_ok d FILESYSTEM_I tr" "inode_readable d tr i" "catch_exception s = 0"
    and ok: "cache_ok w" "\<not> refcnt_lock w" "node_map w i = None"
    and m: "malloc (mem w) = (True, h1)" "make_node s h1 = (Some n0, h2)" "mem_ok h2" "\<not> node_lock n0"
    and T: "T t = Some (i, Enter i)" "T u = Some (i, Enter i)" "t \<noteq> u"
  shows "\<exists>w' T' err n. (thread_step d)\<^sup>*\<^sup>* (w, T) (w', T') \<and> T' t = Some (i, Done err (Some (node_fresh w)))
    \<and> T' u = Some (i, Done 0 (Some (node_fresh w))) \<and> node_at w' (node_fresh w) = Some n \<and> references n = references n0 + 1"
proof -
  define np where "np = node_fresh w"
  obtain w1 n where e: "enter_section s i w = run_return (Read_inode np, w1)"
    and w1: "cache_ok w1" "node_map w1 = (node_map w)(i \<mapsto> np)" "mem w1 = h2" "\<not> refcnt_lock w1" "node_at w1 np = Some n"
    and n: "cache_id n = i" "references n = references n0" "node_lock n = node_lock n0"
    using enter_new [OF ok m(1,2)] unfolding np_def by metis
  obtain err w2 n2 where r: "read_node d s np w1 = run_return (err, w2)" and w2: "\<not> refcnt_lock w2"
    "node_at w2 np = Some n2" "references n2 = references n0" "node_lock n2 = node_lock n0"
    using read_node_outcome [OF fs(1,2) w1(5), of s] fs(3,4) w1(3,4,5) m(3) n by (auto split: option.splits)
  note same = same_cache_ok [OF read_node_same [OF r]]
  have w2': "cache_ok w2" "node_map w2 i = Some np" using same w1(1,2) by simp_all
  define w3 where "w3 = upd_node np (\<lambda>n. n\<lparr>references := references n + 1\<rparr>) w2"
  define w4 where "w4 = upd_node np (\<lambda>n. n\<lparr>references := references n0 + 1\<rparr>) w3"
  define w5 where "w5 = upd_node np (node_lock_update (\<lambda>_. True)) w4"
  define T1 where "T1 = T(t \<mapsto> (i, Read_inode np))"
  define T2 where "T2 = T1(t \<mapsto> (i, Count np err))"
  define T3 where "T3 = T2(t \<mapsto> (i, Store np err (references n0)))"
  define T4 where "T4 = T3(u \<mapsto> (i, Await np))"
  define T5 where "T5 = T4(t \<mapsto> (i, Done err (Some np)))"
  define T6 where "T6 = T5(u \<mapsto> (i, Done 0 (Some np)))"
  note Ts = T1_def T2_def T3_def T4_def T5_def T6_def
  have "thread_step d (w, T) (w1, T1)" unfolding T1_def by (rule thread_step.runs [where T = T and t = t and s = s, OF T(1)]) (simp add: e)
  also have "(thread_step d)\<^sup>*\<^sup>* (w1, T1) (w2, T2)" unfolding T2_def by (rule read_node_steps [OF _ w1(5) r]) (simp add: T1_def)
  also have "thread_step d (w2, T2) (w2, T3)"
    unfolding T3_def by (rule thread_step.runs [where s = s and pc = "Count np err"]) (use w2 in \<open>simp_all add: T2_def with_node_def\<close>)
  also have "thread_step d (w2, T3) (w3, T4)"
    unfolding T4_def by (rule thread_step.runs [where s = s and pc = "Enter i"]) (use T enter_hit [OF w2'(1) w2(1) w2'(2), of s] in \<open>simp_all add: Ts w3_def\<close>)
  also have "thread_step d (w3, T4) (w4, T5)"
    unfolding T5_def by (rule thread_step.runs [where s = s and pc = "Store np err (references n0)"]) (use T w2(2) in \<open>simp_all add: Ts with_node_def w3_def w4_def upd_node_def\<close>)
  also have "thread_step d (w4, T5) (w5, T6)"
    unfolding T6_def by (rule thread_step.runs [where s = s and pc = "Await np"])
      (use T w2(2,4) m(4) in \<open>simp_all add: Ts with_node_def mutex_lock_def w3_def w4_def w5_def upd_node_def\<close>)
  finally have "(thread_step d)\<^sup>*\<^sup>* (w, T) (w5, T6)" .
  moreover have "\<exists>n'. node_at w5 np = Some n' \<and> references n' = references n0 + 1"
    using w2(2) by (simp add: w5_def w4_def w3_def upd_node_def)
  ultimately show ?thesis using T(3) unfolding np_def [symmetric] by (force simp: Ts)
qed

end
