(* ===== verification/Jfs_System.thy ===== *)
theory Jfs_System
  imports Jfs_Main Jfs_Events
begin

text \<open>
  The translator over time: every request the libraries make, as a step of the state of the process, and the invariants that hold
  after start-up and any sequence of requests that returned, whatever the disk holds and whatever fails.
\<close>

section \<open>The buffer pool over a lookup\<close>

lemma bRead_lends:
  assumes "idle c" and "bRead d a l bp c h = run_return (rc, bp', c', h')"
  shows "\<exists>b. bp' = Some b \<and> lent c' b"
proof -
  obtain b c1 h1 where t: "bTake c h = run_return (b, c1, h1)"
    using assms(2) by (auto simp: bRead_def run_bind_return_iff)
  have l: "lent c1 b" using bpool.take_lends [OF assms(1) t] .
  define n where "n = unat (push_bit (s_l2b d) l)"
  define x where "x = disk_slice d (unat (push_bit (s_l2b d) a)) n"
  have "n \<le> 4096 \<and> bp' = Some b \<and> c' = c1\<lparr>b_data := (b_data c1)(b := x @ drop n (b_data c1 b))\<rparr>"
    using assms(2) by (auto simp: x_def bRead_def t run_iff Let_def ujfs_read_diskblocks_def n_def PAGESIZE_def split: if_splits)
  moreover have "length x = n" by (simp add: x_def)
  ultimately show ?thesis using l lent_pages [OF l, of b] by (auto intro!: lent_data)
qed

lemma xt_descend_lends:
  assumes "holds bp c" and "xt_descend d index m p bp c h = run_return x"
  shows "\<exists>q b m' c' h'. x = Inl (q, Some b, m', c', h') \<and> lent c' b"
proof -
  define c1 where "c1 = (case bp of None \<Rightarrow> c | Some b \<Rightarrow> bRelease b c)"
  have i: "idle c1" unfolding c1_def by (rule bpool.put_opt_idles [OF assms(1)])
  obtain a rc bp' c' h' where r: "bRead d (addressXAD a) (drop_bit (s_l2b d) PAGESIZE) bp c1 h = run_return (rc, bp', c', h')"
    and x: "(case bp' of None \<Rightarrow> run_fault Null_Deref | Some b \<Rightarrow> run_return (Inl (b_data c' b, bp', m, c', h'))) = run_return x"
    using assms(2) by (auto simp: xt_descend_def Let_def run_iff c1_def [symmetric])
  from bRead_lends [OF i r] x show ?thesis by auto
qed

lemma xt_Lookup_page_holds:
  assumes "holds bp c" and "xt_Lookup_page d xoff xaddr xlen (p, bp, m, c, h) = run_return x"
  shows "(\<exists>q b m' c' h'. x = Inl (q, Some b, m', c', h') \<and> lent c' b) \<or> (\<exists>r c' h'. x = Inr (r, c', h') \<and> idle c')"
proof -
  obtain r where "xt_search (page_cmp p xoff) XTENTRYSTART (xt_nentries p) m = run_return r"
    using assms(2) by (auto simp: xt_Lookup_page_def run_bind_return_iff)
  with assms(2) show ?thesis
    using xt_descend_lends [OF assms(1), of d _ _ p h x] bpool.put_opt_idles [OF assms(1)]
    by (cases r) (auto simp: xt_Lookup_page_def xt_out_def Let_def run_iff split: if_splits)
qed

text \<open>However damaged the tree, a lookup that returns has given its buffers back.\<close>

lemma xt_Lookup_idle:
  assumes "idle c" and "xt_Lookup d dip xoff xaddr xlen c h = run_return (r, c', h')"
  shows "idle c'"
proof -
  have "run_loop (xt_Lookup_page d xoff xaddr xlen) (di_btroot dip, None, 1, c, h) = run_return (r, c', h')"
    using assms(2) by (simp add: xt_Lookup_def)
  then have "case (r, c', h') of (r, c, h) \<Rightarrow> idle c"
  proof (rule run_loop_invariant [where I = "\<lambda>(p, bp, m, c, h). holds bp c"])
    show "case (di_btroot dip, None, 1 :: int, c, h) of (p, bp, m, c, h) \<Rightarrow> holds bp c" using assms(1) by simp
  next
    fix s s'
    assume "case s of (p, bp, m, c, h) \<Rightarrow> holds bp c" "xt_Lookup_page d xoff xaddr xlen s = run_return (Inl s')"
    then show "case s' of (p, bp, m, c, h) \<Rightarrow> holds bp c" using xt_Lookup_page_holds by (cases s) fastforce
  next
    fix s r
    assume "case s of (p, bp, m, c, h) \<Rightarrow> holds bp c" "xt_Lookup_page d xoff xaddr xlen s = run_return (Inr r)"
    then show "case r of (r, c, h) \<Rightarrow> idle c" using xt_Lookup_page_holds by (cases s) fastforce
  qed
  then show ?thesis by simp
qed

section \<open>What each request keeps\<close>

lemma fileinfo_pager: "fileinfo_of w = pager_of (ns w)"
  by (auto simp: fileinfo_of_def pager_of_def fun_eq_iff split: option.split)

text \<open>The table of nodes and the pool are as before.\<close>

definition same_tables :: "world \<Rightarrow> world \<Rightarrow> bool" where
  "same_tables w w' \<longleftrightarrow> links_of (ns w') = links_of (ns w) \<and> nodehash (ns w') = nodehash (ns w)
     \<and> node_fresh (ns w') = node_fresh (ns w) \<and> bufs w' = bufs w"

lemma same_tables_cache: "same_tables w w' \<Longrightarrow> cache_ok (ns w') = cache_ok (ns w) \<and> bufs w' = bufs w"
  using cache_cong(1) [of "ns w'" "ns w"] by (simp add: same_tables_def)

lemma links_set_fileinfo: "links_of (ns (set_fileinfo np v w)) = links_of (ns w)"
  unfolding set_fileinfo_def by (simp add: upd_node_links)

lemma same_tables_simps [simp]:
  "same_tables w w" "same_tables w (call c w') = same_tables w w'" "same_tables w (page_unlock w') = same_tables w w'"
  "same_tables w (set_fileinfo np v w') = same_tables w w'" "same_tables w (w'\<lparr>upi_at := x\<rparr>) = same_tables w w'"
  "same_tables w (w'\<lparr>upi_fresh := y\<rparr>) = same_tables w w'" "same_tables w (w'\<lparr>node2pagelock := l\<rparr>) = same_tables w w'"
  "same_tables w (w'\<lparr>ns := (ns w')\<lparr>mem := h\<rparr>\<rparr>) = same_tables w w'"
  by (simp_all add: same_tables_def links_set_fileinfo)
    (simp_all add: call_def page_unlock_def set_fileinfo_def upd_node_def)

lemma bufs_fields [simp]: "bufs (call c w) = bufs w" "bufs (page_unlock w) = bufs w" "bufs (set_fileinfo np v w) = bufs w"
  by (simp_all add: call_def page_unlock_def set_fileinfo_def)

lemma same_tables_mem [simp]: "same_tables w (w'\<lparr>ns := (ns w)\<lparr>mem := h\<rparr>\<rparr>) \<longleftrightarrow> bufs w' = bufs w"
  by (simp add: same_tables_def)

lemma same_tables_trans: "same_tables w w' \<Longrightarrow> same_tables w' w'' \<Longrightarrow> same_tables w w''"
  by (simp add: same_tables_def)

lemma filemap_round_same:
  assumes "get_filemap_round lib np w = run_return x"
  shows "case x of Inl w' \<Rightarrow> same_tables w w' | Inr (r, w') \<Rightarrow> same_tables w w'"
proof -
  obtain n where n: "node_at (ns w) np = Some n"
    using assms by (cases "node_at (ns w) np") (simp_all add: get_filemap_round_def with_node_def)
  obtain ok h where m: "malloc (mem (ns w)) = (ok, h)" by (cases "malloc (mem (ns w))")
  show ?thesis
  proof (cases "fileinfo (dn n)")
    case None
    with assms n show ?thesis
      by (auto simp: get_filemap_round_def with_node_def m Let_def run_iff split: option.splits)
  next
    case (Some u)
    with assms n show ?thesis
      by (auto simp: get_filemap_round_def with_node_def with_upi_def deref_def split: option.splits)
  qed
qed

lemma get_filemap_same:
  assumes "diskfs_get_filemap lib np w = run_return (r, w')"
  shows "same_tables w w'"
proof -
  have "run_loop (get_filemap_round lib np) (w\<lparr>node2pagelock := True\<rparr>) = run_return (r, w')"
    using assms by (auto simp: diskfs_get_filemap_def with_node_def page_lock_def run_iff split: option.splits if_splits)
  then have "case (r, w') of (r, w') \<Rightarrow> same_tables w w'"
  proof (rule run_loop_invariant [where I = "same_tables w"])
    fix v v' assume "same_tables w v" "get_filemap_round lib np v = run_return (Inl v')"
    then show "same_tables w v'" using filemap_round_same [of lib np v "Inl v'"] by (auto intro: same_tables_trans)
  next
    fix v y assume "same_tables w v" "get_filemap_round lib np v = run_return (Inr y)"
    then show "case y of (r, v') \<Rightarrow> same_tables w v'"
      using filemap_round_same [of lib np v "Inr y"] by (auto intro: same_tables_trans)
  qed simp
  then show ?thesis by simp
qed

text \<open>What holds between two requests.\<close>

definition world_ok :: "world \<Rightarrow> bool" where
  "world_ok w \<longleftrightarrow> cache_ok (ns w) \<and> pagers_ok w \<and> idle (bufs w) \<and> \<not> node2pagelock w"

lemma get_filemap_keeps: "world_ok w \<Longrightarrow> diskfs_get_filemap lib np w = run_return (r, w') \<Longrightarrow> world_ok w'"
  using get_filemap_done [of w lib np r w'] same_tables_cache [OF get_filemap_same [of lib np w r w']]
  by (simp add: world_ok_def filemap_done_def)

lemma clear_user_data_keeps:
  assumes ok: "world_ok w" and ret: "pager_clear_user_data u w = run_return w'"
  shows "world_ok w'"
proof -
  obtain i where i: "upi_at w u = Some i"
    using ret by (auto simp: pager_clear_user_data_def with_upi_def split: option.splits)
  have p: "pagers_ok w" "\<not> node2pagelock w" using ok by (simp_all add: world_ok_def)
  have own: "upi_type i = FILE_DATA \<and> upi_np i = Some q" if "fileinfo_of w q = Some u" for q
    using that p(1) i unfolding pagers_ok_alt by fastforce
  obtain v where v: "w' = v\<lparr>upi_at := (upi_at v)(u := None), ns := (ns v)\<lparr>mem := free_block (mem (ns v))\<rparr>\<rparr>"
    "same_tables w v" "\<not> node2pagelock v" "upi_at v = upi_at w" "upi_fresh v = upi_fresh w"
    "\<And>q a. fileinfo_of v q = Some a \<Longrightarrow> fileinfo_of w q = Some a \<and> a \<noteq> u"
  proof (cases "upi_type i = FILE_DATA")
    case False
    with ret i have "w' = w\<lparr>upi_at := (upi_at w)(u := None), ns := (ns w)\<lparr>mem := free_block (mem (ns w))\<rparr>\<rparr>"
      by (simp add: pager_clear_user_data_def with_upi_def)
    from that [OF this] False own p(2) show ?thesis by auto
  next
    case True
    with ret i p(2) obtain np n where n: "upi_np i = Some np" "node_at (ns w) np = Some n"
      by (auto simp: pager_clear_user_data_def with_upi_def page_lock_def deref_def with_node_def run_iff split: option.splits)
    define v where "v = call (Nrele_light np) (page_unlock
      (if fileinfo (dn n) = Some u then set_fileinfo np None (w\<lparr>node2pagelock := True\<rparr>) else w\<lparr>node2pagelock := True\<rparr>))"
    have "w' = v\<lparr>upi_at := (upi_at v)(u := None), ns := (ns v)\<lparr>mem := free_block (mem (ns v))\<rparr>\<rparr>"
      using ret i p(2) n True by (simp add: pager_clear_user_data_def with_upi_def page_lock_def deref_def with_node_def v_def)
    moreover have "same_tables w v" "\<not> node2pagelock v" "upi_at v = upi_at w" "upi_fresh v = upi_fresh w"
      by (simp_all add: v_def)
    moreover have "fileinfo_of w q = Some a \<and> a \<noteq> u" if "fileinfo_of v q = Some a" for q a
    proof -
      have "fileinfo_of w np = fileinfo (dn n)" by (simp add: fileinfo_of_def n(2))
      then show ?thesis using that own [of q] n by (auto simp: v_def split: if_splits)
    qed
    ultimately show ?thesis by (rule that)
  qed
  have "pagers_ok w'"
    using p(1) v(6) unfolding pagers_ok_alt by (fastforce simp: v(1,4,5))
  moreover have "same_tables w w'" "\<not> node2pagelock w'" using v(2,3) by (simp_all add: v(1) same_tables_def)
  ultimately show ?thesis using same_tables_cache ok by (simp add: world_ok_def)
qed

lemma change_softrefs_keeps:
  assumes "world_ok w" and "change_softrefs b np w = run_return w'"
  shows "world_ok w'"
proof -
  have "same_tables w w' \<and> fileinfo_of w' = fileinfo_of w \<and> upi_at w' = upi_at w \<and> upi_fresh w' = upi_fresh w \<and> \<not> node2pagelock w'"
    using assms by (auto simp: world_ok_def change_softrefs_def page_lock_def with_node_def with_upi_def deref_def
        split: option.splits)
  then show ?thesis using assms(1) same_tables_cache [of w w'] by (simp add: world_ok_def pagers_ok_alt)
qed

lemma create_disk_pager_keeps:
  assumes "world_ok w" and "create_disk_pager lib w = run_return (u, w')"
  shows "world_ok w'"
proof -
  obtain h where "malloc (mem (ns w)) = (True, h)"
    using assms(2) by (cases "malloc (mem (ns w))") (auto simp: create_disk_pager_def Let_def run_iff)
  then have w': "same_tables w w'" "fileinfo_of w' = fileinfo_of w" "upi_fresh w' = upi_fresh w + 1" "node2pagelock w' = node2pagelock w"
    "upi_at w' = (upi_at w)(upi_fresh w \<mapsto> \<lparr>upi_np = None, upi_type = DISK, upi_p = Some (diskfs_disk_pager lib)\<rparr>)"
    using assms(2) by (auto simp: create_disk_pager_def Let_def)
  then have "pagers_ok w'" using assms(1) unfolding world_ok_def pagers_ok_alt by (fastforce simp: w')
  with w' show ?thesis using assms(1) same_tables_cache [of w w'] by (simp add: world_ok_def)
qed

lemma read_file_page_idle:
  assumes "idle c" and "read_file_page d s st n inode page c h = run_return (rc, buf, c', h')"
  shows "idle c'"
proof -
  obtain r c1 h1 where "xt_Lookup d inode (ucast (page div 4096)) None (vm_page_size s) c h = run_return (r, c1, h1)" "c' = c1"
    using assms(2) by (auto simp: read_file_page_def Let_def run_bind_return_iff split: if_splits option.splits prod.splits)
  with xt_Lookup_idle [OF assms(1)] show ?thesis by blast
qed

lemma world_ok_mem: "world_ok w \<Longrightarrow> idle c \<Longrightarrow> world_ok (w\<lparr>bufs := c, ns := (ns w)\<lparr>mem := h\<rparr>\<rparr>)"
  using cache_cong(1) [of "(ns w)\<lparr>mem := h\<rparr>" "ns w"] by (simp add: world_ok_def pagers_ok_def)

lemma pager_read_page_keeps:
  assumes ok: "world_ok w" and ret: "pager_read_page d s st u page w = run_return (rc, wl, buf, w')"
  shows "world_ok w'"
proof -
  have i: "idle (bufs w)" using ok by (simp add: world_ok_def)
  have "\<exists>c h. w' = w \<or> idle c \<and> w' = w\<lparr>bufs := c, ns := (ns w)\<lparr>mem := h\<rparr>\<rparr>"
  proof -
    obtain j where j: "upi_at w u = Some j" using ret by (auto simp: pager_read_page_def with_upi_def split: option.splits)
    show ?thesis
    proof (cases "upi_type j")
      case DISK
      with ret j show ?thesis by (auto simp: pager_read_page_def with_upi_def split: prod.splits)
    next
      case FILE_DATA
      with ret j obtain np n a h where n: "upi_np j = Some np" "node_at (ns w) np = Some n"
        "find_inode d (ucast (cache_id n)) 16 (mem (ns w)) = run_return (a, h)"
        by (auto simp: pager_read_page_def with_upi_def deref_def with_node_def run_bind_return_iff split: option.splits)
      have same: "w\<lparr>ns := (ns w)\<lparr>mem := k\<rparr>\<rparr> = w\<lparr>bufs := bufs w, ns := (ns w)\<lparr>mem := k\<rparr>\<rparr>" for k by simp
      show ?thesis
      proof (cases a)
        case None
        with ret j FILE_DATA n have "w' = w\<lparr>ns := (ns w)\<lparr>mem := h\<rparr>\<rparr>"
          by (simp add: pager_read_page_def with_upi_def deref_def with_node_def)
        then show ?thesis using i same by metis
      next
        case (Some address)
        with ret j FILE_DATA n obtain b h2 where b: "xRead d address sizeof_dinode h = run_return (b, h2)"
          by (auto simp: pager_read_page_def with_upi_def deref_def with_node_def run_bind_return_iff)
        show ?thesis
        proof (cases b)
          case None
          with ret j FILE_DATA n Some b have "w' = w\<lparr>ns := (ns w)\<lparr>mem := h2\<rparr>\<rparr>"
            by (simp add: pager_read_page_def with_upi_def deref_def with_node_def)
          then show ?thesis using i same by metis
        next
          case b': (Some inode)
          with ret j FILE_DATA n Some b obtain c h3 rc' buf' where
            "read_file_page d s st n (dinode_of inode) page (bufs w) h2 = run_return (rc', buf', c, h3)"
            "w' = w\<lparr>bufs := c, ns := (ns w)\<lparr>mem := h3\<rparr>\<rparr>"
            by (auto simp: pager_read_page_def with_upi_def deref_def with_node_def run_bind_return_iff)
          then show ?thesis using read_file_page_idle [OF i] by blast
        qed
      qed
    qed
  qed
  with ok world_ok_mem show ?thesis by blast
qed

text \<open>Turning caching on and off only makes calls.\<close>

lemma world_ok_calls: "world_ok (w\<lparr>calls := cs\<rparr>) = world_ok w"
  by (simp add: world_ok_def pagers_ok_def)

lemma bucket_iterate_calls:
  assumes "\<And>p v v'. f p v = run_return v' \<Longrightarrow> \<exists>cs. v' = v\<lparr>calls := cs\<rparr>"
  shows "bucket_iterate f ps w = run_return w' \<Longrightarrow> \<exists>cs. w' = w\<lparr>calls := cs\<rparr>"
proof (induction ps arbitrary: w)
  case Nil
  then show ?case by (auto intro: exI [of _ "calls w"])
next
  case (Cons p ps)
  then obtain v where v: "f p w = run_return v" "bucket_iterate f ps v = run_return w'" by (auto simp: run_bind_return_iff)
  from assms [OF v(1)] Cons.IH [OF v(2)] show ?case by auto
qed

lemma pager_users_calls:
  assumes "diskfs_pager_users lib w = run_return (r, w')"
  shows "\<exists>cs. w' = w\<lparr>calls := cs\<rparr>"
proof -
  have blk: "\<exists>cs. v' = v\<lparr>calls := cs\<rparr>" if "block_caching lib v = run_return v'" for v v'
    using that unfolding block_caching_def by (rule bucket_iterate_calls [rotated]) (auto simp: block_cache_def call_def)
  have en: "\<exists>cs. v' = v\<lparr>calls := cs\<rparr>" if "enable_caching lib v = run_return v'" for v v'
    using that unfolding enable_caching_def
    by (rule bucket_iterate_calls [rotated])
      (auto simp: enable_cache_def with_upi_def deref_def call_def Let_def split: option.splits if_splits)
  show ?thesis
    using assms by (auto simp: diskfs_pager_users_def Let_def run_bind_return_iff call_def split: if_splits
        intro: exI [of _ "calls w"] dest!: blk en)
qed

lemma pager_users_keeps: "world_ok w \<Longrightarrow> diskfs_pager_users lib w = run_return (r, w') \<Longrightarrow> world_ok w'"
  by (auto simp: world_ok_calls dest!: pager_users_calls)

lemma modify_run_keeps: "modify_run m w = run_return (e, w') \<Longrightarrow> w' = w"
  by (cases m) (simp_all add: modify_defs)

section \<open>Requests as steps\<close>

text \<open>What the libraries do to the nodes, one call after another.\<close>

interpretation cache_inv: invariant_steps "cache_step d" "\<lambda>n'. cache_ok n' \<and> (\<forall>a u. pager_of n' a = Some u \<longrightarrow> pager_of n a = Some u)" for d n
  by unfold_locales (use cache_step_keeps in blast)

lemma cache_steps_keep:
  "(cache_step d)\<^sup>*\<^sup>* n n' \<Longrightarrow> cache_ok n \<Longrightarrow>
    cache_ok n' \<and> (\<forall>a u. pager_of n' a = Some u \<longrightarrow> pager_of n a = Some u)"
  by (rule cache_inv.steps_keep) auto

lemma world_ok_nodes:
  assumes "world_ok w" and "(cache_step d)\<^sup>*\<^sup>* (ns w) n'"
  shows "world_ok (w\<lparr>ns := n'\<rparr>)"
  using cache_steps_keep [OF assms(2)] assms(1) by (auto simp: world_ok_def pagers_ok_alt fileinfo_pager)

text \<open>The two calls of a lookup into \<^verbatim>\<open>libdiskfs\<close> take and give back references and locks and end nodes nobody uses.\<close>

definition lib_steps :: "fs \<Rightarrow> diskfs_h \<Rightarrow> bool" where
  "lib_steps d lib \<longleftrightarrow> (\<forall>np n. (cache_step d)\<^sup>*\<^sup>* n (diskfs_nref lib np n))
     \<and> (\<forall>np n n'. diskfs_nput lib np n = run_return n' \<longrightarrow> (cache_step d)\<^sup>*\<^sup>* n n')"

lemma lookup_into_steps: "lookup_into d s gotinum npp n = run_return (err, r, n') \<Longrightarrow> cache_step d n n'"
  by (auto simp: lookup_into_def run_iff split: option.splits intro: cache_step.lookup)

lemma lookup_load_steps:
  assumes "lib_steps d lib" and "lookup_load d s lib root dp name type spec npp out gotinum n = run_return (err, r, n')"
  shows "(cache_step d)\<^sup>*\<^sup>* n n'"
proof -
  have put: "(cache_step d)\<^sup>*\<^sup>* n n''" if "diskfs_nput lib dp n = run_return m" "cache_step d m n''" for m n''
    using assms(1) that unfolding lib_steps_def by (blast intro: rtranclp.rtrancl_into_rtrancl)
  show ?thesis
    using assms unfolding lib_steps_def lookup_load_def
    by (auto simp: Let_def run_iff run_bind_return_iff split: if_splits
        dest!: lookup_into_steps cache_step.lock [of _ _ _ d] cache_step.unlock [of _ _ _ d] intro: put
        converse_rtranclp_into_rtranclp)
qed

lemma lookup_hard_steps:
  assumes "lib_steps d lib" and "diskfs_lookup_hard d s lib root dp name type npp old n = run_return (err, r, n')"
  shows "(cache_step d)\<^sup>*\<^sup>* n n'"
proof -
  have "n' = n \<or> (\<exists>h. n' = n\<lparr>mem := h\<rparr>) \<or> (\<exists>h ty sp out g.
      lookup_load d s lib root dp name ty sp npp out g (n\<lparr>mem := h\<rparr>) = run_return (err, r, n'))"
    using assms(2) by (auto simp: diskfs_lookup_hard_def with_node_def Let_def run_iff run_bind_return_iff
        split: option.splits if_splits)
  then show ?thesis
    using converse_rtranclp_into_rtranclp [of "cache_step d", OF cache_step.heap lookup_load_steps [OF assms(1)]]
    by (blast intro: cache_step.heap)
qed

text \<open>
  A request that returned: what the libraries do with nodes on their own, a lookup of a name, the pager of a file, its end,
  its softness, a page-in, the count of the users of pagers, and the requests that would modify something.
\<close>

inductive world_step :: "fs \<Rightarrow> world \<Rightarrow> world \<Rightarrow> bool" for d where
  nodes: "cache_step d (ns w) n' \<Longrightarrow> world_step d w (w\<lparr>ns := n'\<rparr>)"
| lookup: "lib_steps d lib \<Longrightarrow> diskfs_lookup_hard d s lib root dp name type npp old (ns w) = run_return (err, r, n') \<Longrightarrow>
    world_step d w (w\<lparr>ns := n'\<rparr>)"
| filemap: "diskfs_get_filemap plib np w = run_return (right, w') \<Longrightarrow> world_step d w w'"
| clear: "pager_clear_user_data u w = run_return w' \<Longrightarrow> world_step d w w'"
| softrefs: "change_softrefs b np w = run_return w' \<Longrightarrow> world_step d w w'"
| read: "pager_read_page d s st u page w = run_return (rc, wl, buf, w') \<Longrightarrow> world_step d w w'"
| users: "diskfs_pager_users plib w = run_return (n, w') \<Longrightarrow> world_step d w w'"
| modify: "modify_run m w = run_return (e, w') \<Longrightarrow> world_step d w w'"

lemma world_step_keeps: "world_step d w w' \<Longrightarrow> world_ok w \<Longrightarrow> world_ok w'"
proof (induction rule: world_step.induct)
  case (nodes w n')
  then show ?case by (blast intro: world_ok_nodes)
next
  case (lookup lib s root dp name type npp old w err r n')
  then show ?case by (blast intro: world_ok_nodes lookup_hard_steps)
next
  case (modify m w e w')
  then show ?case using modify_run_keeps [of m w e w'] by simp
qed (rule get_filemap_keeps clear_user_data_keeps change_softrefs_keeps pager_read_page_keeps pager_users_keeps; assumption)+

interpretation world_inv: invariant_steps "world_step d" world_ok for d
  by unfold_locales (rule world_step_keeps)

lemma main_start_keeps:
  assumes fresh: "\<And>a. node_at (ns w0) a = None" "\<And>u. upi_fresh w0 \<le> u \<Longrightarrow> upi_at w0 u = None"
    and free: "idle (bufs w0)" "\<not> node2pagelock w0"
    and ret: "main_start lib s dk w0 = run_return (d, root, w)"
  shows "world_ok w"
proof -
  obtain u w1 where w1: "create_disk_pager lib w0 = run_return (u, w1)"
    using ret by (auto simp: main_start_def run_bind_return_iff)
  obtain h where h: "ns w1 = (ns w0)\<lparr>mem := h\<rparr>" "bufs w1 = bufs w0" "node2pagelock w1 = node2pagelock w0"
    and up: "\<And>u. upi_fresh w1 \<le> u \<Longrightarrow> upi_at w1 u = None"
    using w1 fresh(2) by (auto simp: create_disk_pager_def Let_def call_def run_iff split: prod.splits)
  define N where "N = inode_init INOHSZ (ns w1)"
  have no: "\<And>a. node_at (ns w1) a = None" using fresh(1) by (simp add: h)
  have "pager_of N a = None" for a by (simp add: pager_of_def N_def inode_init_table no)
  then have "world_ok (w1\<lparr>ns := N\<rparr>)"
    using inode_init_empty [OF no] free up by (simp add: world_ok_def N_def h pagers_ok_alt fileinfo_pager)
  moreover obtain err n where "diskfs_cached_lookup d s 2 N = run_return (err, root, n)" "w = w1\<lparr>ns := n\<rparr>"
    using ret w1 by (auto simp: main_start_def run_bind_return_iff N_def Let_def)
  ultimately show ?thesis using world_step_keeps [OF world_step.nodes [OF cache_step.lookup], of d s 2 "w1\<lparr>ns := N\<rparr>"] by simp
qed

text \<open>
  C4: the translator over time. Start it on any store, with any library behaviour, and let any sequence of requests
  return; whatever the disk holds and whichever allocations and reads fail, afterwards every search of the node table ends
  and finds exactly the live node of that number, every node that has a pager points to a live structure of type
  \<^verbatim>\<open>FILE_DATA\<close> that points back to it, so that no two nodes share one, every page buffer is back on the free list,
  and \<^verbatim>\<open>node2pagelock\<close> is free.
\<close>

theorem translator_invariant:
  assumes fresh: "\<And>a. node_at (ns w0) a = None" "\<And>u. upi_fresh w0 \<le> u \<Longrightarrow> upi_at w0 u = None"
    and free: "idle (bufs w0)" "\<not> node2pagelock w0"
    and start: "main_start lib s dk w0 = run_return (d, root, w1)" and run: "(world_step d)\<^sup>*\<^sup>* w1 w"
  shows "(\<exists>r. hash_search (ns w) i = run_return r \<and> (\<forall>a. r = Some a \<longleftrightarrow> cached (ns w) i a))
    \<and> pagers_ok w \<and> (\<forall>np nq. fileinfo_of w np \<noteq> None \<and> fileinfo_of w np = fileinfo_of w nq \<longrightarrow> np = nq)
    \<and> idle (bufs w) \<and> \<not> node2pagelock w"
proof -
  have ok: "world_ok w"
    using run main_start_keeps [OF fresh free start] by (rule world_inv.steps_keep)
  then have "np = nq" if "fileinfo_of w np = Some u" "fileinfo_of w nq = Some u" for np nq u
    using that unfolding world_ok_def pagers_ok_alt by (metis option.inject user_pager_info.ext_inject)
  then have "\<forall>np nq. fileinfo_of w np \<noteq> None \<and> fileinfo_of w np = fileinfo_of w nq \<longrightarrow> np = nq" by (metis option.exhaust)
  with ok show ?thesis unfolding world_ok_def by (auto simp: nt.search_map node_map_Some simp del: not_None_eq)
qed

end
