(* ===== verification/Jfs_Clear.thy ===== *)
theory Jfs_Clear
  imports Jfs_Sections Jfs_System
begin

text \<open>
  The end of a pager while nodes are mapped again. \<^verbatim>\<open>libpager\<close> calls \<^verbatim>\<open>pager_clear_user_data\<close> (\<^verbatim>\<open>pager.c\<close>) on a thread of its own when
  the last reference to a pager goes away; meanwhile \<^verbatim>\<open>diskfs_get_filemap\<close> may find the dying pager, detach it and attach a
  new one, as its comment explains. The call is cut where \<^verbatim>\<open>node2pagelock\<close> is released; \<^verbatim>\<open>diskfs_get_filemap\<close> holds that lock
  all the time and is one step.
\<close>

section \<open>The sections of a clear\<close>

text \<open>At the beginning; detached, before the light reference is given back; before the structure is freed; done.\<close>

datatype clear_pc = Detach | Unref | Free | Cleared

fun clear_section :: "nat \<Rightarrow> clear_pc \<Rightarrow> world \<Rightarrow> (clear_pc \<times> world) run" where
  "clear_section u Detach w = with_upi u (\<lambda>i.
     if upi_type i = FILE_DATA
     then run_bind (page_lock w) (\<lambda>w. deref (upi_np i) (\<lambda>np. with_node np (\<lambda>n.
       run_return (Unref, page_unlock (if fileinfo (dn n) = Some u then set_fileinfo np None w else w))) (ns w)))
     else run_return (Free, w)) w"
| "clear_section u Unref w = with_upi u (\<lambda>i. deref (upi_np i) (\<lambda>np. run_return (Free, call (Nrele_light np) w))) w"
| "clear_section u Free w = run_return (Cleared, w\<lparr>upi_at := (upi_at w)(u := None), ns := (ns w)\<lparr>mem := free_block (mem (ns w))\<rparr>\<rparr>)"
| "clear_section u Cleared w = run_return (Cleared, w)"

fun clear_result :: "clear_pc \<Rightarrow> unit option" where
  "clear_result Cleared = Some ()"
| "clear_result _ = None"

text \<open>One thread alone makes the call.\<close>

lemma clear_sections_alone:
  "run_bind (run_sections clear_result (clear_section u) Detach w) (\<lambda>(_, w). run_return w) = pager_clear_user_data u w"
proof -
  let ?R = "run_sections clear_result (clear_section u)"
  have free: "?R Free w = run_return ((), w\<lparr>upi_at := (upi_at w)(u := None), ns := (ns w)\<lparr>mem := free_block (mem (ns w))\<rparr>\<rparr>)" for w
    by (subst run_sections_next) (simp_all add: run_sections_done)
  have unref: "?R Unref w = run_bind (with_upi u (\<lambda>i. deref (upi_np i) (\<lambda>np. run_return (call (Nrele_light np) w))) w) (?R Free)" for w
    by (subst run_sections_next) (simp_all add: with_upi_def deref_def split: option.split)
  show ?thesis
    unfolding pager_clear_user_data_def
    by (subst run_sections_next)
      (auto simp: with_upi_def deref_def with_node_def page_lock_def unref free run_bind_assoc split: option.split)
qed

section \<open>What mapping a node leaves alone\<close>

text \<open>Older structures and the nodes stay; a node gets at most a new structure, whose node is live.\<close>

definition map_frame :: "world \<Rightarrow> world \<Rightarrow> bool" where
  "map_frame w w' \<longleftrightarrow> upi_fresh w \<le> upi_fresh w' \<and> (\<forall>u < upi_fresh w. upi_at w' u = upi_at w u)
     \<and> (\<forall>a. node_at (ns w') a = None \<longleftrightarrow> node_at (ns w) a = None)
     \<and> (\<forall>q u. fileinfo_of w' q = Some u \<longrightarrow> fileinfo_of w q = Some u \<or> upi_fresh w \<le> u)
     \<and> (\<forall>u i. upi_fresh w \<le> u \<longrightarrow> upi_at w' u = Some i \<longrightarrow>
          upi_at w u = Some i \<or> upi_type i = FILE_DATA \<and> (\<exists>np. upi_np i = Some np \<and> node_at (ns w) np \<noteq> None))"

lemma map_frame_refl [simp]: "map_frame w w"
  by (simp add: map_frame_def)

lemma map_frame_trans: "map_frame w w' \<Longrightarrow> map_frame w' w'' \<Longrightarrow> map_frame w w''"
proof -
  assume a: "map_frame w w'" and b: "map_frame w' w''"
  have le: "upi_fresh w \<le> upi_fresh w'" "upi_fresh w' \<le> upi_fresh w''" using a b by (simp_all add: map_frame_def)
  have old: "upi_at w'' u = upi_at w u" if "u < upi_fresh w" for u
    using a b that le(1) less_le_trans [OF that le(1)] by (simp add: map_frame_def)
  have live: "node_at (ns w'') q = None \<longleftrightarrow> node_at (ns w) q = None" for q using a b by (simp add: map_frame_def)
  have info: "fileinfo_of w q = Some u \<or> upi_fresh w \<le> u" if "fileinfo_of w'' q = Some u" for q u
    using a b that le(1) unfolding map_frame_def by (meson le_trans)
  have new: "upi_at w u = Some i \<or> upi_type i = FILE_DATA \<and> (\<exists>np. upi_np i = Some np \<and> node_at (ns w) np \<noteq> None)"
    if "upi_fresh w \<le> u" "upi_at w'' u = Some i" for u i
  proof (cases "upi_fresh w' \<le> u")
    case True
    then have "upi_at w' u = Some i \<or> upi_type i = FILE_DATA \<and> (\<exists>np. upi_np i = Some np \<and> node_at (ns w') np \<noteq> None)"
      using b that(2) unfolding map_frame_def by blast
    moreover have "node_at (ns w') q = None \<longleftrightarrow> node_at (ns w) q = None" for q using a by (simp add: map_frame_def)
    ultimately show ?thesis using a that(1) unfolding map_frame_def by auto
  next
    case False
    with b that(2) have "upi_at w' u = Some i" by (simp add: map_frame_def)
    with a that(1) show ?thesis unfolding map_frame_def by blast
  qed
  show "map_frame w w''" unfolding map_frame_def using le old live info new by (blast intro: le_trans)
qed

lemma live_set_fileinfo [simp]: "node_at (ns (set_fileinfo np v w)) a = None \<longleftrightarrow> node_at (ns w) a = None"
  by (simp add: set_fileinfo_def upd_node_def)

lemma map_round_frame:
  assumes "get_filemap_round lib np w = run_return x"
  shows "case x of Inl w' \<Rightarrow> map_frame w w' | Inr (r, w') \<Rightarrow> map_frame w w'"
proof -
  obtain n where n: "node_at (ns w) np = Some n"
    using assms by (cases "node_at (ns w) np") (simp_all add: get_filemap_round_def with_node_def)
  obtain ok h where m: "malloc (mem (ns w)) = (ok, h)" by (cases "malloc (mem (ns w))")
  show ?thesis
  proof (cases "fileinfo (dn n)")
    case None
    with assms n show ?thesis
      by (auto simp: get_filemap_round_def with_node_def m Let_def run_iff map_frame_def split: option.splits if_splits)
  next
    case (Some u)
    with assms n show ?thesis
      by (auto simp: get_filemap_round_def with_node_def with_upi_def deref_def map_frame_def split: option.splits if_splits)
  qed
qed

lemma get_filemap_frame:
  assumes "diskfs_get_filemap lib np w = run_return (r, w')"
  shows "map_frame w w'"
proof -
  have start: "map_frame w (w\<lparr>node2pagelock := True\<rparr>)" by (simp add: map_frame_def)
  have "run_loop (get_filemap_round lib np) (w\<lparr>node2pagelock := True\<rparr>) = run_return (r, w')"
    using assms by (auto simp: diskfs_get_filemap_def with_node_def page_lock_def run_iff split: option.splits if_splits)
  then have "case (r, w') of (r, w') \<Rightarrow> map_frame w w'"
  proof (rule run_loop_invariant [where I = "map_frame w", OF _ start])
    fix v v' assume "map_frame w v" "get_filemap_round lib np v = run_return (Inl v')"
    then show "map_frame w v'" using map_round_frame [of lib np v "Inl v'"] by (auto intro: map_frame_trans)
  next
    fix v y assume "map_frame w v" "get_filemap_round lib np v = run_return (Inr y)"
    then show "case y of (r, v') \<Rightarrow> map_frame w v'"
      using map_round_frame [of lib np v "Inr y"] by (auto intro: map_frame_trans)
  qed
  then show ?thesis by simp
qed

section \<open>Interleaving\<close>

text \<open>
  The structures whose clear is in progress, with where it is. Steps: a node is mapped; \<^verbatim>\<open>libpager\<close> begins to clear the data of a
  pager, once; a clear goes on; the library works on nodes, where the light reference a structure holds keeps its node until
  the clear gives it back.
\<close>

type_synonym clears = "nat \<Rightarrow> clear_pc option"

inductive clear_step :: "fs \<Rightarrow> world \<times> clears \<Rightarrow> world \<times> clears \<Rightarrow> bool" for d where
  maps: "diskfs_get_filemap lib np w = run_return (right, w') \<Longrightarrow> clear_step d (w, P) (w', P)"
| begins: "P u = None \<Longrightarrow> upi_at w u \<noteq> None \<Longrightarrow> clear_step d (w, P) (w, P(u \<mapsto> Detach))"
| goes_on: "P u = Some pc \<Longrightarrow> clear_section u pc w = run_return (pc', w') \<Longrightarrow>
    clear_step d (w, P) (w', P(u := if pc' = Cleared then None else Some pc'))"
| nodes: "cache_step d (ns w) n' \<Longrightarrow>
    (\<And>u i np. upi_at w u = Some i \<Longrightarrow> P u \<noteq> Some Free \<Longrightarrow> upi_np i = Some np \<Longrightarrow> node_at (ns w) np \<noteq> None \<Longrightarrow>
       node_at n' np \<noteq> None) \<Longrightarrow>
    clear_step d (w, P) (w\<lparr>ns := n'\<rparr>, P)"

definition nodes_held :: "world \<Rightarrow> clears \<Rightarrow> bool" where
  "nodes_held w P \<longleftrightarrow> (\<forall>u i. upi_at w u = Some i \<longrightarrow> P u \<noteq> Some Free \<longrightarrow> upi_type i = FILE_DATA \<longrightarrow>
     (\<exists>np. upi_np i = Some np \<and> node_at (ns w) np \<noteq> None))"

definition clears_held :: "world \<Rightarrow> clears \<Rightarrow> bool" where
  "clears_held w P \<longleftrightarrow> (\<forall>u pc. P u = Some pc \<longrightarrow> pc \<noteq> Cleared
     \<and> (\<exists>i. upi_at w u = Some i \<and> (pc = Unref \<longrightarrow> upi_type i = FILE_DATA))
     \<and> (pc = Detach \<or> (\<forall>np. fileinfo_of w np \<noteq> Some u)))"

definition clear_ok :: "world \<times> clears \<Rightarrow> bool" where
  "clear_ok = (\<lambda>(w, P). cache_ok (ns w) \<and> pagers_ok w \<and> \<not> node2pagelock w \<and> nodes_held w P \<and> clears_held w P)"

lemma clear_ok_maps:
  assumes ok: "clear_ok (w, P)" and ret: "diskfs_get_filemap lib np w = run_return (right, w')"
  shows "clear_ok (w', P)"
proof -
  note f = get_filemap_frame [OF ret]
  have p: "cache_ok (ns w)" "pagers_ok w" "nodes_held w P" "clears_held w P" using ok by (simp_all add: clear_ok_def)
  have fin: "pagers_ok w'" "\<not> node2pagelock w'" using get_filemap_done [OF p(2) ret] by (simp_all add: filemap_done_def)
  have cache: "cache_ok (ns w')" using same_tables_cache [OF get_filemap_same [OF ret]] p(1) by simp
  have fresh: "u < upi_fresh w" if "upi_at w u = Some i" for u i
    using p(2) that by (metis pagers_ok_def not_le option.distinct(1))
  have held: "nodes_held w' P"
    unfolding nodes_held_def
  proof (intro allI impI)
    fix u i assume u: "upi_at w' u = Some i" "P u \<noteq> Some Free" "upi_type i = FILE_DATA"
    have "upi_at w u = Some i \<or> (\<exists>np. upi_np i = Some np \<and> node_at (ns w) np \<noteq> None)"
      using f u(1) unfolding map_frame_def by (cases "upi_fresh w \<le> u") (auto simp: not_le)
    moreover have "node_at (ns w') q = None \<longleftrightarrow> node_at (ns w) q = None" for q using f by (simp add: map_frame_def)
    ultimately show "\<exists>np. upi_np i = Some np \<and> node_at (ns w') np \<noteq> None"
      using p(3) u(2,3) unfolding nodes_held_def by auto
  qed
  have "clears_held w' P"
    unfolding clears_held_def
  proof (intro allI impI)
    fix u pc assume u: "P u = Some pc"
    with p(4) obtain i where i: "pc \<noteq> Cleared" "upi_at w u = Some i" "pc = Unref \<longrightarrow> upi_type i = FILE_DATA"
      "pc = Detach \<or> (\<forall>np. fileinfo_of w np \<noteq> Some u)" unfolding clears_held_def by blast
    note lt = fresh [OF i(2)]
    have "upi_at w' u = Some i" using f lt i(2) by (simp add: map_frame_def)
    moreover have "fileinfo_of w q = Some u" if "fileinfo_of w' q = Some u" for q
      using f that lt unfolding map_frame_def by (meson not_le)
    ultimately show "pc \<noteq> Cleared \<and> (\<exists>i. upi_at w' u = Some i \<and> (pc = Unref \<longrightarrow> upi_type i = FILE_DATA))
      \<and> (pc = Detach \<or> (\<forall>np. fileinfo_of w' np \<noteq> Some u))" using i by blast
  qed
  with fin cache held show ?thesis by (simp add: clear_ok_def)
qed

text \<open>A section of a clear returns, and leaves everything but its own structure as it was.\<close>

lemma owned:
  assumes "pagers_ok w" and "fileinfo_of w q = Some u" and "upi_at w u = Some i"
  shows "upi_type i = FILE_DATA \<and> upi_np i = Some q"
  using assms unfolding pagers_ok_alt by fastforce

lemma clear_section_effect:
  assumes ok: "clear_ok (w, P)" and u: "P u = Some pc"
  obtains pc' w' where "clear_section u pc w = run_return (pc', w')" and "same_tables w w'" and "\<not> node2pagelock w'"
    and "upi_fresh w' = upi_fresh w" and "\<forall>a. node_at (ns w') a = None \<longleftrightarrow> node_at (ns w) a = None"
    and "upi_at w' = (if pc' = Cleared then (upi_at w)(u := None) else upi_at w)"
    and "\<forall>q a. fileinfo_of w' q = Some a \<longrightarrow> fileinfo_of w q = Some a \<and> a \<noteq> u"
    and "pc' = Unref \<longrightarrow> (\<exists>i. upi_at w u = Some i \<and> upi_type i = FILE_DATA)" and "pc' \<noteq> Detach"
proof -
  have p: "pagers_ok w" "\<not> node2pagelock w" "nodes_held w P" "clears_held w P" using ok by (simp_all add: clear_ok_def)
  obtain i where i: "upi_at w u = Some i" "pc \<noteq> Cleared" "pc = Unref \<longrightarrow> upi_type i = FILE_DATA"
    "pc = Detach \<or> (\<forall>np. fileinfo_of w np \<noteq> Some u)" using p(4) u unfolding clears_held_def by blast
  have np: "\<exists>np n. upi_np i = Some np \<and> node_at (ns w) np = Some n" if "upi_type i = FILE_DATA" "pc \<noteq> Free"
    using p(3) i(1) that u by (auto simp: nodes_held_def)
  show ?thesis
  proof (cases pc)
    case Detach
    show ?thesis
    proof (cases "upi_type i = FILE_DATA")
      case True
      then obtain np n where n: "upi_np i = Some np" "node_at (ns w) np = Some n" using np Detach by blast
      define v where "v = (if fileinfo (dn n) = Some u then set_fileinfo np None (w\<lparr>node2pagelock := True\<rparr>) else w\<lparr>node2pagelock := True\<rparr>)"
      have sec: "clear_section u pc w = run_return (Unref, page_unlock v)"
        using Detach True i(1) n p(2) by (simp add: with_upi_def page_lock_def deref_def with_node_def v_def)
      have f: "fileinfo_of w np = fileinfo (dn n)" using n(2) by (simp add: fileinfo_of_def)
      have "fileinfo_of w q = Some a \<and> a \<noteq> u" if "fileinfo_of (page_unlock v) q = Some a" for q a
        using that owned [OF p(1) _ i(1), of q] n f by (auto simp: v_def split: if_splits)
      then show ?thesis by (intro that [OF sec]) (use True i(1) in \<open>auto simp: v_def\<close>)
    next
      case False
      have sec: "clear_section u pc w = run_return (Free, w)" using Detach False i(1) by (simp add: with_upi_def)
      have "fileinfo_of w q \<noteq> Some u" for q using owned [OF p(1) _ i(1), of q] False by blast
      then show ?thesis by (intro that [OF sec]) (use p(2) in auto)
    qed
  next
    case Unref
    then obtain np n where n: "upi_np i = Some np" "node_at (ns w) np = Some n" using np i(3) by blast
    have sec: "clear_section u pc w = run_return (Free, call (Nrele_light np) w)"
      using Unref n i(1) by (simp add: with_upi_def deref_def)
    show ?thesis by (rule that [OF sec]) (use Unref i(4) p(2) in auto)
  next
    case Free
    show ?thesis
      by (rule that [of Cleared "w\<lparr>upi_at := (upi_at w)(u := None), ns := (ns w)\<lparr>mem := free_block (mem (ns w))\<rparr>\<rparr>"])
        (use Free i(4) p(2) in auto)
  qed (use i(2) in simp)
qed

lemma clear_ok_goes_on:
  assumes ok: "clear_ok (w, P)" and u: "P u = Some pc" and ret: "clear_section u pc w = run_return (pc', w')"
  shows "clear_ok (w', P(u := if pc' = Cleared then None else Some pc'))"
proof -
  have p: "cache_ok (ns w)" "pagers_ok w" "nodes_held w P" "clears_held w P" using ok by (simp_all add: clear_ok_def)
  obtain pc1 w1 where ret1: "clear_section u pc w = run_return (pc1, w1)" and e1: "same_tables w w1" "\<not> node2pagelock w1" "upi_fresh w1 = upi_fresh w"
    "\<forall>a. node_at (ns w1) a = None \<longleftrightarrow> node_at (ns w) a = None"
    "upi_at w1 = (if pc1 = Cleared then (upi_at w)(u := None) else upi_at w)"
    "\<forall>q a. fileinfo_of w1 q = Some a \<longrightarrow> fileinfo_of w q = Some a \<and> a \<noteq> u"
    "pc1 = Unref \<longrightarrow> (\<exists>i. upi_at w u = Some i \<and> upi_type i = FILE_DATA)" "pc1 \<noteq> Detach"
    by (rule clear_section_effect [OF ok u])
  have "pc1 = pc'" "w1 = w'" using ret ret1 by simp_all
  note e = e1 [unfolded this]
  have free: "pc' = Cleared" if "pc = Free" using ret that by auto
  let ?Q = "P(u := if pc' = Cleared then None else Some pc')"
  have "pagers_ok w'" using p(2) e(5,6) unfolding pagers_ok_alt e(3) by (fastforce split: if_splits)
  moreover have "nodes_held w' ?Q"
    unfolding nodes_held_def
  proof (intro allI impI)
    fix v i assume v: "upi_at w' v = Some i" "?Q v \<noteq> Some Free" "upi_type i = FILE_DATA"
    have "upi_at w v = Some i" "P v \<noteq> Some Free" using v e(5) free u by (auto split: if_splits)
    with p(3) v(3) show "\<exists>np. upi_np i = Some np \<and> node_at (ns w') np \<noteq> None" unfolding nodes_held_def by (simp add: e(4))
  qed
  moreover have "clears_held w' (P(u := if pc' = Cleared then None else Some pc'))"
    unfolding clears_held_def
  proof (intro allI impI)
    fix v pc'' assume v: "(P(u := if pc' = Cleared then None else Some pc')) v = Some pc''"
    show "pc'' \<noteq> Cleared \<and> (\<exists>i. upi_at w' v = Some i \<and> (pc'' = Unref \<longrightarrow> upi_type i = FILE_DATA))
      \<and> (pc'' = Detach \<or> (\<forall>np. fileinfo_of w' np \<noteq> Some v))"
    proof (cases "v = u")
      case True
      then have "pc'' = pc'" "pc' \<noteq> Cleared" using v by (auto split: if_splits)
      moreover have "\<exists>i. upi_at w u = Some i" using p(4) u unfolding clears_held_def by blast
      ultimately show ?thesis using e(5-7) True by auto
    next
      case False
      then have "P v = Some pc''" using v by simp
      with p(4) have "pc'' \<noteq> Cleared \<and> (\<exists>i. upi_at w v = Some i \<and> (pc'' = Unref \<longrightarrow> upi_type i = FILE_DATA))
        \<and> (pc'' = Detach \<or> (\<forall>np. fileinfo_of w np \<noteq> Some v))" unfolding clears_held_def by blast
      with e(5,6) False show ?thesis by auto
    qed
  qed
  ultimately show ?thesis using same_tables_cache [OF e(1)] p(1) e(2) by (simp add: clear_ok_def)
qed

lemma clear_ok_begins: "clear_ok (w, P) \<Longrightarrow> P u = None \<Longrightarrow> upi_at w u \<noteq> None \<Longrightarrow> clear_ok (w, P(u \<mapsto> Detach))"
  by (auto simp: clear_ok_def nodes_held_def clears_held_def split: if_splits)

lemma clear_ok_nodes:
  assumes ok: "clear_ok (w, P)" and st: "cache_step d (ns w) n'"
    and kept: "\<And>u i np. upi_at w u = Some i \<Longrightarrow> P u \<noteq> Some Free \<Longrightarrow> upi_np i = Some np \<Longrightarrow> node_at (ns w) np \<noteq> None \<Longrightarrow>
      node_at n' np \<noteq> None"
  shows "clear_ok (w\<lparr>ns := n'\<rparr>, P)"
proof -
  have p: "cache_ok (ns w)" "pagers_ok w" "nodes_held w P" "clears_held w P" using ok by (simp_all add: clear_ok_def)
  have c: "cache_ok n'" "\<And>q u. fileinfo_of (w\<lparr>ns := n'\<rparr>) q = Some u \<Longrightarrow> fileinfo_of w q = Some u"
    using cache_step_keeps [OF st p(1)] by (simp_all add: fileinfo_pager)
  have "pagers_ok (w\<lparr>ns := n'\<rparr>)" using p(2) c(2) unfolding pagers_ok_alt by auto
  moreover have "nodes_held (w\<lparr>ns := n'\<rparr>) P" using p(3) kept unfolding nodes_held_def by (simp, blast)
  moreover have "clears_held (w\<lparr>ns := n'\<rparr>) P" using p(4) c(2) unfolding clears_held_def by (simp, blast)
  ultimately show ?thesis using ok c(1) by (simp add: clear_ok_def)
qed

lemma clear_step_keeps: "clear_step d s s' \<Longrightarrow> clear_ok s \<Longrightarrow> clear_ok s'"
proof (induction rule: clear_step.induct)
  case (maps lib np w right w' P)
  from clear_ok_maps [OF maps(2,1)] show ?case .
next
  case (begins P u w)
  from clear_ok_begins [OF begins(3,1,2)] show ?case .
next
  case (goes_on P u pc w pc' w')
  from clear_ok_goes_on [OF goes_on(3,1,2)] show ?case .
next
  case (nodes w n' P)
  from clear_ok_nodes [OF nodes(3,1,2)] show ?case by simp
qed

interpretation clear_inv: invariant_steps "clear_step d" clear_ok for d
  by unfold_locales (rule clear_step_keeps)

text \<open>
  C6: ending pagers while others begin. From any state between two requests whose pagers hold their nodes, with no clear in progress, let
  nodes be mapped, pagers end and the library work on nodes in any order, the clears cut anywhere they hold no lock. Then the
  lock is free and the pagers well-formed between any two sections, so no node points to a structure that was freed; every clear
  in progress can go on and no other step can take its structure away; and once a clear has detached its structure no node gets it back.
\<close>

theorem clears_interleaved:
  assumes "world_ok w" and "nodes_held w Map.empty" and "(clear_step d)\<^sup>*\<^sup>* (w, Map.empty) (w', P)"
  shows "pagers_ok w' \<and> \<not> node2pagelock w'
    \<and> (\<forall>u pc. P u = Some pc \<longrightarrow> upi_at w' u \<noteq> None \<and> (\<exists>pc' v. clear_section u pc w' = run_return (pc', v) \<and> pagers_ok v)
         \<and> (pc = Detach \<or> (\<forall>np. fileinfo_of w' np \<noteq> Some u)))"
proof -
  have "clear_ok (w, Map.empty)" using assms(1,2) by (simp add: world_ok_def clear_ok_def clears_held_def)
  with assms(3) have ok: "clear_ok (w', P)" by (rule clear_inv.steps_keep)
  have "upi_at w' u \<noteq> None \<and> (\<exists>pc' v. clear_section u pc w' = run_return (pc', v) \<and> pagers_ok v)
         \<and> (pc = Detach \<or> (\<forall>np. fileinfo_of w' np \<noteq> Some u))" if u: "P u = Some pc" for u pc
  proof -
    obtain pc' v where v: "clear_section u pc w' = run_return (pc', v)" by (rule clear_section_effect [OF ok u])
    from clear_ok_goes_on [OF ok u v] have "pagers_ok v" by (simp add: clear_ok_def)
    moreover have "clears_held w' P" using ok by (simp add: clear_ok_def)
    ultimately show ?thesis using v u unfolding clears_held_def by blast
  qed
  with ok show ?thesis by (simp add: clear_ok_def)
qed

end
