(* ===== verification/Jfs_Races.thy ===== *)
theory Jfs_Races
  imports Jfs_Sections Jfs_Fileread Jfs_Dirread
begin

text \<open>
  Two pieces of global state that no lock protects: the list of page buffers (\<^verbatim>\<open>bCachelist\<close>, \<^verbatim>\<open>jfs_fileread.c\<close>), used by every
  page-in, and the conversion buffer (\<^verbatim>\<open>UTF8_Buffer\<close>, \<^verbatim>\<open>jfs_dirread.c\<close>), used by every search of a directory. \<^verbatim>\<open>libpager\<close> and
  \<^verbatim>\<open>libdiskfs\<close> call on many threads, and what they lock is a node, not these. The functions are cut at their accesses to the
  shared state; alone they are the sequential definitions, and schedules of two threads show what can happen.
\<close>

section \<open>Page buffers\<close>

text \<open>
  \<^verbatim>\<open>bRead\<close>: before the test of the list, before \<^verbatim>\<open>bp = bCachelist\<close>, before \<^verbatim>\<open>bCachelist = bp->b_next\<close> with the pointer loaded,
  before the read into the buffer, and the end with the result code and \<^verbatim>\<open>*bpp\<close>.
\<close>

datatype bread_pc = Test | Load | Unlink "nat option" | Fill_page nat | Have u32 "nat option"

fun bread_section ::
  "fs \<Rightarrow> u64 \<Rightarrow> u32 \<Rightarrow> nat option \<Rightarrow> bread_pc \<Rightarrow> bcache \<times> heap \<Rightarrow> (bread_pc \<times> bcache \<times> heap) run" where
  "bread_section d xaddr xlen bpp Test (c, h) =
     run_bind (if bCachelist c = None then bAllocate c h else run_return (c, h)) (\<lambda>(c, h). run_return (Load, c, h))"
| "bread_section d xaddr xlen bpp Load (c, h) = run_return (Unlink (bCachelist c), c, h)"
| "bread_section d xaddr xlen bpp (Unlink None) (c, h) = run_fault Null_Deref"
| "bread_section d xaddr xlen bpp (Unlink (Some bp)) (c, h) = run_return (Fill_page bp, c\<lparr>bCachelist := b_next c bp\<rparr>, h)"
| "bread_section d xaddr xlen bpp (Fill_page bp) (c, h) =
     (let off = push_bit (s_l2b d) xaddr; len = push_bit (s_l2b d) xlen
      in run_check (unat len \<le> unat PAGESIZE) Out_Of_Bounds
           (run_bind (ujfs_read_diskblocks d off len) (\<lambda>(rc, b).
              let c1 = c\<lparr>b_data := (b_data c)(bp := b @ drop (unat len) (b_data c bp))\<rparr>
              in if rc = 0 then run_return (Have rc (Some bp), c1, h)
                 else run_return (Have rc bpp, bRelease bp c1, h))))"
| "bread_section d xaddr xlen bpp (Have rc r) (c, h) = run_return (Have rc r, c, h)"

fun bread_result :: "bread_pc \<Rightarrow> (u32 \<times> nat option) option" where
  "bread_result (Have rc r) = Some (rc, r)"
| "bread_result _ = None"

text \<open>
  The sections are the call. A thread that runs the sections of \<^verbatim>\<open>bRead\<close> without interruption does what \<^verbatim>\<open>bRead\<close> does, in
  every state of the pool and of memory, faults included.
\<close>

lemma bread_sections_alone:
  "run_bind (run_sections bread_result (bread_section d xaddr xlen bpp) Test (c, h)) (\<lambda>((rc, r), c, h). run_return (rc, r, c, h)) =
    bRead d xaddr xlen bpp c h"
proof -
  let ?R = "run_sections bread_result (bread_section d xaddr xlen bpp)"
  define k where "k = (\<lambda>((rc :: u32, r :: nat option), c :: bcache, h :: heap). run_return (rc, r, c, h))"
  define F where "F = (\<lambda>bp (c :: bcache) h. let off = push_bit (s_l2b d) xaddr; len = push_bit (s_l2b d) xlen
       in run_check (unat len \<le> unat PAGESIZE) Out_Of_Bounds
            (run_bind (ujfs_read_diskblocks d off len) (\<lambda>(rc, b).
               let c1 = c\<lparr>b_data := (b_data c)(bp := b @ drop (unat len) (b_data c bp))\<rparr>
               in if rc = 0 then run_return (rc, Some bp, c1, h :: heap)
                  else run_return (rc, bpp, bRelease bp c1, h))))"
  have fill: "run_bind (?R (Fill_page bp) (c, h)) k = F bp c h" for bp c h
    by (subst run_sections_next)
      (simp_all add: F_def Let_def run_check_def run_bind_assoc run_sections_done k_def case_prod_unfold
        if_distrib [of "\<lambda>m. run_bind m _"] cong: if_cong)
  have load: "run_bind (?R Load (c, h)) k = (case bCachelist c of None \<Rightarrow> run_fault Null_Deref
      | Some bp \<Rightarrow> F bp (c\<lparr>bCachelist := b_next c bp\<rparr>) h)" for c h
    by (cases "bCachelist c") (simp_all add: run_sections_next [of bread_result Load] run_sections_next [of bread_result "Unlink p" for p] fill)
  have "run_bind (?R Test (c, h)) k =
      run_bind (if bCachelist c = None then bAllocate c h else run_return (c, h)) (\<lambda>(c, h). run_bind (?R Load (c, h)) k)"
    by (subst run_sections_next) (simp_all add: run_bind_assoc case_prod_unfold)
  also have "\<dots> = run_bind (bTake c h) (\<lambda>(bp, c, h). F bp c h)"
    unfolding bTake_def run_bind_assoc load
    by (auto simp: case_prod_unfold intro!: arg_cong [where f = "run_bind _"] ext split: option.split)
  also have "\<dots> = bRead d xaddr xlen bpp c h" by (simp add: bRead_def F_def)
  finally have "run_bind (?R Test (c, h)) k = bRead d xaddr xlen bpp c h" .
  then show ?thesis by (simp add: k_def)
qed

text \<open>Reading the page of an extent into a buffer.\<close>

lemma fill_section:
  assumes fs: "fs_ok d" and x: "xa x * 2 ^ l2b d + 4096 \<le> dk_size d" and c: "length (b_data c b) = 4096"
  shows "bread_section d (addressXAD x) (drop_bit (s_l2b d) PAGESIZE) bpp (Fill_page b) (c, h) =
    run_return (Have 0 (Some b), c\<lparr>b_data := (b_data c)(b := disk_slice d (xa x * 2 ^ l2b d) 4096)\<rparr>, h)"
proof -
  have off: "unat (push_bit (s_l2b d) (addressXAD x)) = xa x * 2 ^ l2b d"
    using unat_shl_l2bsize [OF fs, of "addressXAD x"] xaddr.fetch_bound [of x]
    by (simp add: shl_l2bsize_def l2bsize_def s_l2b_def)
  have "unat PAGESIZE = 4096" by (simp add: PAGESIZE_def)
  then show ?thesis using x c by (simp add: Let_def page_blocks [OF fs] ujfs_read_diskblocks_def off)
qed

text \<open>
  C30: two page-ins can share a buffer. When two threads descend extent trees at the same time and both load the head of
  the list before either unlinks it, both have the same buffer: the page the first goes on to search is the one the second
  has read, of another file's tree. When both have released it, the buffer is its own successor on the free list: the other
  buffers are lost, and every later lookup that holds one buffer leaves the same one to be taken again.
\<close>

theorem buffers_shared:
  assumes fs: "fs_ok d" and c: "idle c" "bCachelist c = Some b"
    and x: "xa x * 2 ^ l2b d + 4096 \<le> dk_size d" and y: "xa y * 2 ^ l2b d + 4096 \<le> dk_size d"
  shows "\<exists>c' T. run_schedule (\<lambda>t. bread_section d (addressXAD (if t = 0 then x else y)) (drop_bit (s_l2b d) PAGESIZE) None)
      [0, 0, 1, 1, 0, 0, 1, 1 :: nat] (c, h) (\<lambda>_. Test) = run_return ((c', h), T)
    \<and> T 0 = Have 0 (Some b) \<and> T 1 = Have 0 (Some b) \<and> b_data c' b = disk_slice d (xa y * 2 ^ l2b d) 4096
    \<and> b_next (bRelease b (bRelease b c')) b = Some b \<and> bCachelist (bRelease b (bRelease b c')) = Some b"
proof -
  have l: "length (b_data c b) = 4096" using c(1) by (auto simp: idle_def pool_def)
  show ?thesis
    by (simp add: c(2) fill_section [OF fs x] fill_section [OF fs y] l bRelease_def del: bread_section.simps(5))
qed

section \<open>The conversion buffer\<close>

text \<open>
  \<^verbatim>\<open>print_direntry\<close>: up to the conversion of the entry's name into \<^verbatim>\<open>UTF8_Buffer\<close>; the comparison of that buffer with the name
  looked for; the end. The shared state is the buffer and the allocator.
\<close>

datatype direntry_pc = Convert | Compare u32 | Answer int "u64 option"

fun direntry_section ::
  "bytes \<Rightarrow> u8 \<Rightarrow> bytes \<Rightarrow> nat \<Rightarrow> u64 option \<Rightarrow> direntry_pc \<Rightarrow> bytes \<times> heap \<Rightarrow> (direntry_pc \<times> bytes \<times> heap) run" where
  "direntry_section slot head_index sname snamelen gotinum Convert (buf, h) =
     run_bind (run_lift (slot_at slot (unat head_index))) (\<lambda>p.
       let entry = ldtentry_of slot p; (ok, h) = malloc h
       in if \<not> ok then run_return (Answer 1 gotinum, buf, h)
          else run_bind (entry_name slot entry) (\<lambda>name.
            run_bind (run_lift (Unicode_String_to_UTF8_String name (uint (ld_namlen entry)))) (\<lambda>bs.
              run_return (Compare (ld_inumber entry), UTF8_Buffer bs, h))))"
| "direntry_section slot head_index sname snamelen gotinum (Compare inumber) (buf, h) =
     run_bind (direntry_matches buf sname snamelen) (\<lambda>eq.
       if eq then run_return (Answer 0 (Some (ucast inumber)), buf, free_block h)
       else run_return (Answer 1 (Some (- 1)), buf, free_block h))"
| "direntry_section slot head_index sname snamelen gotinum (Answer rc g) (buf, h) = run_return (Answer rc g, buf, h)"

fun direntry_result :: "direntry_pc \<Rightarrow> (int \<times> u64 option) option" where
  "direntry_result (Answer rc g) = Some (rc, g)"
| "direntry_result _ = None"

lemma direntry_sections_alone:
  "run_bind (run_sections direntry_result (direntry_section slot head sname n g) Convert (buf, h)) (\<lambda>((rc, g), buf, h). run_return (rc, g, h)) =
    print_direntry slot head sname n g h"
proof -
  let ?R = "run_sections direntry_result (direntry_section slot head sname n g)"
  define k where "k = (\<lambda>((rc :: int, g :: u64 option), buf :: bytes, h :: heap). run_return (rc, g, h))"
  have k: "k ((rc, g), buf, h) = run_return (rc, g, h)" for rc g buf h by (simp add: k_def)
  have cmp: "run_bind (?R (Compare i) (buf, h)) k = run_bind (direntry_matches buf sname n) (\<lambda>eq.
      if eq then run_return (0, Some (ucast i), free_block h) else run_return (1, Some (- 1), free_block h))" for i buf h
    by (subst run_sections_next)
      (auto simp: run_bind_assoc run_sections_done k_def intro!: arg_cong [where f = "run_bind _"] ext)
  have "run_bind (?R Convert (buf, h)) k = print_direntry slot head sname n g h"
    unfolding print_direntry_def
    by (subst run_sections_next)
      (auto simp: run_bind_assoc Let_def case_prod_unfold cmp run_sections_done k intro!: arg_cong [where f = "run_bind _"] ext)
  then show ?thesis by (simp add: k_def)
qed

text \<open>What the two sections do on an entry of a directory.\<close>

lemma convert_section:
  assumes e: "entry_at slot head e" and m: "malloc h = (True, h')"
  shows "direntry_section slot head s n g Convert (buf, h) = run_return (Compare (fst e), UTF8_Buffer (shown_name (snd e)), h')"
proof -
  obtain ino us where eq: "e = (ino, us)" by (cases e)
  note n = entry_at_name [OF e [unfolded eq]]
  have "uint (ld_namlen (ldtentry_of slot (32 * unat head))) = int (length us)" by (simp add: n(3) of_nat_unat)
  then show ?thesis using convert_name [OF n(5)] n(1,2,4) by (simp add: m eq)
qed

text \<open>
  C31: a search can answer with another name's inode. Thread 0 looks for the name \<open>s\<close> and has converted an entry that does
  not match; before it compares, thread 1, searching another directory, converts an entry that does. Thread 0 then
  compares the other thread's name and reports success with the inode of its own entry, where alone it would have reported none.
\<close>

theorem conversion_shared:
  assumes e: "entry_at slot head e" "\<not> name_matches s e" and f: "entry_at slot' head' f" "name_matches s f"
    and s: "0 \<notin> set s" "length s \<le> sizeof_UTF8_Buffer" and h: "mem_ok h"
  shows "\<exists>buf' h' T. run_schedule (\<lambda>t. if t = 0 then direntry_section slot head (s @ [0]) (length s) g
        else direntry_section slot' head' sname n g')
      [0, 1, 0 :: nat] (buf, h) (\<lambda>_. Convert) = run_return ((buf', h'), T)
    \<and> T 0 = Answer 0 (Some (ucast (fst e)))
    \<and> (\<exists>h''. print_direntry slot head (s @ [0]) (length s) g h = run_return (1, Some (- 1), h''))"
proof -
  obtain h1 where h1: "malloc h = (True, h1)" "mem_ok h1" using mem_ok_malloc [OF h] by (cases "malloc h") auto
  obtain h2 where h2: "malloc h1 = (True, h2)" using mem_ok_malloc [OF h1(2)] by (cases "malloc h1") auto
  show ?thesis
    using print_direntry_entry [OF e(1) h1(1) s, of "[0]" g] e(2) f(2) converted_matches [OF f(1) s, of "[0]"]
    by (simp add: convert_section [OF e(1) h1(1)] convert_section [OF f(1) h2] del: direntry_section.simps(1))
qed

end
