(* ===== verification/Jfs_Ctypes.thy ===== *)
theory Jfs_Ctypes
  imports Jfs_Btree
begin

text \<open>
  The C types of the structures on disk, as they are declared in the headers, and the rules by which a C compiler lays
  them out. The decoders of \<^verbatim>\<open>Jfs_Layout\<close> are written with offsets; here the offsets are computed from the declarations,
  and a value read by the rules of C is the value the decoder gives. Whether a 64-bit integer is aligned to 4 bytes (the
  i386 convention) or to 8 is a parameter, as the two conventions must agree on a disk.
\<close>

section \<open>Layout\<close>

text \<open>The alignment of a 64-bit integer in a structure.\<close>

datatype abi = I386 | Natural

fun align64 :: "abi \<Rightarrow> nat" where
  "align64 I386 = 4"
| "align64 Natural = 8"

text \<open>An integer of so many bytes, a 32-bit unit of bit-fields with these widths, arrays, structures and unions.\<close>

datatype ctype = CInt nat | CBits "nat list" | CArr ctype nat | CStruct cfields | CUnion cfields
  and cfields = FNil | FCons string ctype cfields

fun fields :: "(string \<times> ctype) list \<Rightarrow> cfields" where
  "fields [] = FNil"
| "fields ((x, t) # fs) = FCons x t (fields fs)"

definition align_up :: "nat \<Rightarrow> nat \<Rightarrow> nat" where
  "align_up n a = (n + (a - 1)) div a * a"

fun calign :: "abi \<Rightarrow> ctype \<Rightarrow> nat" and calign_fields :: "abi \<Rightarrow> cfields \<Rightarrow> nat" where
  "calign a (CInt n) = (if n = 8 then align64 a else n)"
| "calign a (CBits ws) = 4"
| "calign a (CArr t n) = calign a t"
| "calign a (CStruct fs) = calign_fields a fs"
| "calign a (CUnion fs) = calign_fields a fs"
| "calign_fields a FNil = 1"
| "calign_fields a (FCons x t fs) = max (calign a t) (calign_fields a fs)"

text \<open>The end of the last member of a structure, and the size of the largest member of a union.\<close>

fun csize :: "abi \<Rightarrow> ctype \<Rightarrow> nat" and cend :: "abi \<Rightarrow> cfields \<Rightarrow> nat \<Rightarrow> nat" and clargest :: "abi \<Rightarrow> cfields \<Rightarrow> nat" where
  "csize a (CInt n) = n"
| "csize a (CBits ws) = 4"
| "csize a (CArr t n) = n * csize a t"
| "csize a (CStruct fs) = align_up (cend a fs 0) (calign_fields a fs)"
| "csize a (CUnion fs) = align_up (clargest a fs) (calign_fields a fs)"
| "cend a FNil off = off"
| "cend a (FCons x t fs) off = cend a fs (align_up off (calign a t) + csize a t)"
| "clargest a FNil = 0"
| "clargest a (FCons x t fs) = max (csize a t) (clargest a fs)"

text \<open>The offset and the type of a member of a structure or union.\<close>

fun cfind :: "abi \<Rightarrow> bool \<Rightarrow> cfields \<Rightarrow> string \<Rightarrow> nat \<Rightarrow> (nat \<times> ctype) option" where
  "cfind a un FNil y off = None"
| "cfind a un (FCons x t fs) y off =
     (let p = (if un then 0 else align_up off (calign a t))
      in if x = y then Some (p, t) else cfind a un fs y (p + csize a t))"

fun cmember :: "abi \<Rightarrow> ctype \<Rightarrow> string \<Rightarrow> (nat \<times> ctype) option" where
  "cmember a (CStruct fs) y = cfind a False fs y 0"
| "cmember a (CUnion fs) y = cfind a True fs y 0"
| "cmember a _ y = None"

fun cpath :: "abi \<Rightarrow> ctype \<Rightarrow> string list \<Rightarrow> (nat \<times> ctype) option" where
  "cpath a t [] = Some (0, t)"
| "cpath a t (y # ys) = (case cmember a t y of None \<Rightarrow> None
     | Some (p, u) \<Rightarrow> (case cpath a u ys of None \<Rightarrow> None | Some (q, v) \<Rightarrow> Some (p + q, v)))"

section \<open>Values\<close>

datatype cval = VInt nat | VList "cval list"

primrec le_nat :: "bytes \<Rightarrow> nat \<Rightarrow> nat \<Rightarrow> nat" where
  "le_nat b p 0 = 0"
| "le_nat b p (Suc n) = unat (b ! p) + 256 * le_nat b (p + 1) n"

fun cbits :: "nat list \<Rightarrow> nat \<Rightarrow> cval list" where
  "cbits [] v = []"
| "cbits (n # ns) v = VInt (v mod 2 ^ n) # cbits ns (v div 2 ^ n)"

fun cread :: "abi \<Rightarrow> ctype \<Rightarrow> bytes \<Rightarrow> nat \<Rightarrow> cval" and creads :: "abi \<Rightarrow> cfields \<Rightarrow> bytes \<Rightarrow> nat \<Rightarrow> nat \<Rightarrow> cval list"
  and creadu :: "abi \<Rightarrow> cfields \<Rightarrow> bytes \<Rightarrow> nat \<Rightarrow> cval list" where
  "cread a (CInt n) b p = VInt (le_nat b p n)"
| "cread a (CBits ws) b p = VList (cbits ws (le_nat b p 4))"
| "cread a (CArr t n) b p = VList (map (\<lambda>i. cread a t b (p + csize a t * i)) [0..<n])"
| "cread a (CStruct fs) b p = VList (creads a fs b p 0)"
| "cread a (CUnion fs) b p = VList (creadu a fs b p)"
| "creads a FNil b p off = []"
| "creads a (FCons x t fs) b p off =
     cread a t b (p + align_up off (calign a t)) # creads a fs b p (align_up off (calign a t) + csize a t)"
| "creadu a FNil b p = []"
| "creadu a (FCons x t fs) b p = cread a t b p # creadu a fs b p"

section \<open>The declarations\<close>

abbreviation c8 :: ctype where "c8 \<equiv> CInt 1"
abbreviation c16 :: ctype where "c16 \<equiv> CInt 2"
abbreviation c32 :: ctype where "c32 \<equiv> CInt 4"
abbreviation c64 :: ctype where "c64 \<equiv> CInt 8"

definition ct_timestruc :: ctype where
  "ct_timestruc = CStruct (fields [(''tv_sec'', c32), (''tv_nsec'', c32)])"

text \<open>The bit-fields \<^verbatim>\<open>len:24\<close> and \<^verbatim>\<open>addr1:8\<close> share a unit.\<close>

definition ct_pxd :: ctype where
  "ct_pxd = CStruct (fields [(''len, addr1'', CBits [24, 8]), (''addr2'', c32)])"

definition ct_lxd :: ctype where
  "ct_lxd = CStruct (fields [(''len, off1'', CBits [24, 8]), (''off2'', c32)])"

definition ct_dxd :: ctype where
  "ct_dxd = CStruct (fields [(''flag, rsrvd'', CBits [8, 24]), (''size'', c32), (''len, addr1'', CBits [24, 8]), (''addr2'', c32)])"

definition ct_xad :: ctype where
  "ct_xad = CStruct (fields [(''flag, rsvrd, off1'', CBits [8, 16, 8]), (''off2'', c32), (''len, addr1'', CBits [24, 8]), (''addr2'', c32)])"

definition ct_dasd :: ctype where
  "ct_dasd = CStruct (fields [(''thresh'', c8), (''delta'', c8), (''rsrvd1'', c8), (''limit_hi'', c8), (''limit_lo'', c32),
     (''rsrvd2'', CArr c8 3), (''used_hi'', c8), (''used_lo'', c32)])"

text \<open>The descriptor lists; a pointer has 4 bytes.\<close>

definition ct_lxdlist :: ctype where
  "ct_lxdlist = CStruct (fields [(''maxnlxd'', c16), (''nlxd'', c16), (''lxd'', c32)])"

definition ct_pxdlist :: ctype where
  "ct_pxdlist = CStruct (fields [(''maxnpxd'', c16), (''npxd'', c16), (''pxd'', CArr ct_pxd 8)])"

definition ct_xadlist :: ctype where
  "ct_xadlist = CStruct (fields [(''maxnxad'', c16), (''nxad'', c16), (''xad'', c32)])"

definition ct_component :: ctype where
  "ct_component = CStruct (fields [(''namlen'', c32), (''name'', c32)])"

definition ct_superblock :: ctype where
  "ct_superblock = CStruct (fields [(''s_magic'', CArr c8 4), (''s_version'', c32), (''s_size'', c64), (''s_bsize'', c32),
     (''s_l2bsize'', c16), (''s_l2bfactor'', c16), (''s_pbsize'', c32), (''s_l2pbsize'', c16), (''pad'', c16), (''s_agsize'', c32),
     (''s_flag'', c32), (''s_state'', c32), (''s_compress'', c32), (''s_ait2'', ct_pxd), (''s_aim2'', ct_pxd), (''s_logdev'', c32),
     (''s_logserial'', c32), (''s_logpxd'', ct_pxd), (''s_fsckpxd'', ct_pxd), (''s_time'', ct_timestruc), (''s_fsckloglen'', c32),
     (''s_fscklog'', c8), (''s_fpack'', CArr c8 11), (''s_xsize'', c64), (''s_xfsckpxd'', ct_pxd), (''s_xlogpxd'', ct_pxd),
     (''s_uuid'', CArr c8 16), (''s_label'', CArr c8 16), (''s_loguuid'', CArr c8 16)])"

definition SMAPSZ :: nat where "SMAPSZ = 4"
definition EXTSPERIAG :: nat where "EXTSPERIAG = 128"
definition MAXAG :: nat where "MAXAG = 128"

definition ct_iag :: ctype where
  "ct_iag = CStruct (fields [(''agstart'', c64), (''iagnum'', c32), (''inofreefwd'', c32), (''inofreeback'', c32), (''extfreefwd'', c32),
     (''extfreeback'', c32), (''iagfree'', c32), (''inosmap'', CArr c32 SMAPSZ), (''extsmap'', CArr c32 SMAPSZ), (''nfreeinos'', c32),
     (''nfreeexts'', c32), (''pad'', CArr c8 1976), (''wmap'', CArr c32 EXTSPERIAG), (''pmap'', CArr c32 EXTSPERIAG),
     (''inoext'', CArr ct_pxd EXTSPERIAG)])"

definition ct_iagctl :: ctype where
  "ct_iagctl = CStruct (fields [(''inofree'', c32), (''extfree'', c32), (''numinos'', c32), (''numfree'', c32)])"

definition ct_dinomap :: ctype where
  "ct_dinomap = CStruct (fields [(''in_freeiag'', c32), (''in_nextiag'', c32), (''in_numinos'', c32), (''in_numfree'', c32),
     (''in_nbperiext'', c32), (''in_l2nbperiext'', c32), (''in_diskblock'', c32), (''in_maxag'', c32), (''pad'', CArr c8 2016),
     (''in_agctl'', CArr ct_iagctl MAXAG)])"

definition XTROOTMAXSLOT :: nat where "XTROOTMAXSLOT = 18"

definition ct_xtheader :: ctype where
  "ct_xtheader = CStruct (fields [(''next'', c64), (''prev'', c64), (''flag'', c8), (''rsrvd1'', c8), (''nextindex'', c16),
     (''maxentry'', c16), (''rsrvd2'', c16), (''self'', ct_pxd)])"

definition ct_xtpage :: ctype where
  "ct_xtpage = CUnion (fields [(''header'', ct_xtheader), (''xad'', CArr ct_xad XTROOTMAXSLOT)])"

definition ct_dtslot :: ctype where
  "ct_dtslot = CStruct (fields [(''next'', c8), (''cnt'', c8), (''name'', CArr c16 15)])"

definition ct_ldtentry :: ctype where
  "ct_ldtentry = CStruct (fields [(''inumber'', c32), (''next'', c8), (''namlen'', c8), (''name'', CArr c16 11), (''index'', c32)])"

text \<open>The names of \<^verbatim>\<open>idtentry_t\<close> are declared with \<^verbatim>\<open>wchar_t\<close>, which has 4 bytes.\<close>

definition ct_idtentry :: ctype where
  "ct_idtentry = CStruct (fields [(''xd'', ct_pxd), (''next'', c8), (''namlen'', c8), (''name'', CArr c32 11)])"

definition ct_dir_table_slot :: ctype where
  "ct_dir_table_slot = CStruct (fields [(''rsrvd'', c8), (''flag'', c8), (''slot'', c8), (''addr1'', c8), (''addr2'', c32)])"

definition ct_dtroot_header :: ctype where
  "ct_dtroot_header = CStruct (fields [(''DASD'', ct_dasd), (''flag'', c8), (''nextindex'', c8), (''freecnt'', c8), (''freelist'', c8),
     (''idotdot'', c32), (''stbl'', CArr c8 8)])"

definition ct_dtroot :: ctype where
  "ct_dtroot = CUnion (fields [(''header'', ct_dtroot_header), (''slot'', CArr ct_dtslot 9)])"

definition ct_dtpage_header :: ctype where
  "ct_dtpage_header = CStruct (fields [(''next'', c64), (''prev'', c64), (''flag'', c8), (''nextindex'', c8), (''freecnt'', c8),
     (''freelist'', c8), (''maxslot'', c8), (''stblindex'', c8), (''rsrvd'', CArr c8 2), (''self'', ct_pxd)])"

definition ct_dtpage :: ctype where
  "ct_dtpage = CUnion (fields [(''header'', ct_dtpage_header), (''slot'', CArr ct_dtslot 128)])"

definition ct_btpage :: ctype where
  "ct_btpage = CStruct (fields [(''next'', c64), (''prev'', c64), (''flag'', c8), (''rsrvd'', CArr c8 7), (''self'', c64),
     (''entry'', CArr c8 4064)])"

text \<open>The inode: a base area and the union of the two uses of the rest.\<close>

definition ct_dinode_u :: ctype where
  "ct_dinode_u = CUnion (fields [
     (''_dir'', CStruct (fields [(''_table'', CArr ct_dir_table_slot 12), (''_dtroot'', ct_dtroot)])),
     (''_file'', CStruct (fields [
        (''_u1'', CUnion (fields [(''_data'', CArr c8 96), (''_imap'', CStruct (fields [(''_imap'', c32), (''_gengen'', c32)]))])),
        (''_u2'', CUnion (fields [(''_xtroot'', ct_xtpage),
           (''_special'', CStruct (fields [(''unused'', CArr c8 16), (''_dxd'', ct_dxd),
              (''_u'', CUnion (fields [(''_rdev'', c32), (''_fastsymlink'', CArr c8 128)])), (''_inlineea'', CArr c8 128)]))]))]))])"

definition ct_dinode :: ctype where
  "ct_dinode = CStruct (fields [(''di_inostamp'', c32), (''di_fileset'', c32), (''di_number'', c32), (''di_gen'', c32),
     (''di_ixpxd'', ct_pxd), (''di_size'', c64), (''di_nblocks'', c64), (''di_nlink'', c32), (''di_uid'', c32), (''di_gid'', c32),
     (''di_mode'', c32), (''di_atime'', ct_timestruc), (''di_ctime'', ct_timestruc), (''di_mtime'', ct_timestruc),
     (''di_otime'', ct_timestruc), (''di_acl'', ct_dxd), (''di_ea'', ct_dxd), (''di_next_index'', c32), (''di_acltype'', c32),
     (''u'', ct_dinode_u)])"

text \<open>The members the macros \<^verbatim>\<open>di_xtroot\<close>, \<^verbatim>\<open>di_dtroot\<close> and \<^verbatim>\<open>di_parent\<close> name.\<close>

definition di_xtroot_path :: "string list" where "di_xtroot_path = [''u'', ''_file'', ''_u2'', ''_xtroot'']"
definition di_dtroot_path :: "string list" where "di_dtroot_path = [''u'', ''_dir'', ''_dtroot'']"
definition di_parent_path :: "string list" where "di_parent_path = di_dtroot_path @ [''header'', ''idotdot'']"

section \<open>Sizes\<close>

named_theorems ct_simps

lemma align_up_simps [ct_simps]:
  "align_up n (Suc 0) = n" "align_up n 2 = (n + 1) div 2 * 2" "align_up n 4 = (n + 3) div 4 * 4" "align_up n 8 = (n + 7) div 8 * 8"
  "align_up n (Suc (Suc 0)) = (n + 1) div 2 * 2"
  by (simp_all add: align_up_def numeral_2_eq_2 [symmetric])

lemma ct_descriptor_sizes [ct_simps]:
  "csize a ct_timestruc = 8" "csize a ct_pxd = 8" "csize a ct_dxd = 16" "csize a ct_xad = 16" "csize a ct_dasd = 16"
  "csize a ct_dir_table_slot = 8" "csize a ct_iagctl = 16"
  "calign a ct_timestruc = 4" "calign a ct_pxd = 4" "calign a ct_dxd = 4" "calign a ct_xad = 4" "calign a ct_dasd = 4"
  "calign a ct_dir_table_slot = 4" "calign a ct_iagctl = 4"
  by (simp_all add: ct_simps ct_timestruc_def ct_pxd_def ct_dxd_def ct_xad_def ct_dasd_def ct_dir_table_slot_def ct_iagctl_def)

lemma ct_slot_sizes [ct_simps]:
  "csize a ct_dtslot = 32" "csize a ct_ldtentry = 32" "csize a ct_idtentry = 56" "csize a ct_dtroot_header = 32" "csize a ct_dtroot = 288"
  "calign a ct_dtslot = 2" "calign a ct_ldtentry = 4" "calign a ct_dtroot_header = 4" "calign a ct_dtroot = 4"
  by (simp_all add: ct_simps ct_dtslot_def ct_ldtentry_def ct_idtentry_def ct_dtroot_header_def ct_dtroot_def)

lemma ct_header_sizes:
  "csize a ct_xtheader = 32" "csize a ct_dtpage_header = 32" "calign a ct_xtheader = align64 a" "calign a ct_dtpage_header = align64 a"
  by (cases a; simp add: ct_simps ct_xtheader_def ct_dtpage_header_def)+

lemma ct_page_sizes:
  "csize a ct_xtpage = 288" "calign a ct_xtpage = align64 a" "csize a ct_dtpage = 4096" "csize a ct_btpage = 4096"
  by (cases a; simp add: ct_simps ct_header_sizes ct_xtpage_def ct_dtpage_def ct_btpage_def XTROOTMAXSLOT_def)+

lemma ct_superblock_size:
  "csize a ct_superblock = 184"
  by (cases a; simp add: ct_superblock_def ct_simps)+

lemma ct_imap_sizes:
  "csize a ct_iag = 4096" "csize a ct_dinomap = 4096"
  by (cases a; simp add: ct_simps ct_iag_def ct_dinomap_def SMAPSZ_def EXTSPERIAG_def MAXAG_def)+

lemma ct_dinode_u_size:
  "csize a ct_dinode_u = 384" "calign a ct_dinode_u = align64 a"
  by (cases a; simp add: ct_simps ct_page_sizes ct_dinode_u_def)+

lemma ct_dinode_size:
  "csize a ct_dinode = 512" "cmember a ct_dinode ''u'' = Some (128, ct_dinode_u)"
  by (cases a; simp add: ct_simps ct_dinode_u_size ct_dinode_def)+

lemma cpath_append: "cpath a t (xs @ ys) =
    (case cpath a t xs of None \<Rightarrow> None | Some (p, u) \<Rightarrow> map_option (\<lambda>(q, v). (p + q, v)) (cpath a u ys))"
  by (induction xs arbitrary: t) (auto simp: option.map_id split: option.splits)

lemma ct_dinode_u_members:
  "cpath a ct_dinode_u [''_file'', ''_u2'', ''_xtroot''] = Some (96, ct_xtpage)"
    "cpath a ct_dinode_u [''_dir'', ''_dtroot''] = Some (96, ct_dtroot)"
    "cpath a ct_dtroot [''header'', ''idotdot''] = Some (20, c32)"
  by (cases a; simp add: ct_simps ct_page_sizes ct_dinode_u_def ct_dtroot_def ct_dtroot_header_def)+

lemma xtroot_at: "cpath a ct_dinode di_xtroot_path = Some (224, ct_xtpage)"
  unfolding di_xtroot_path_def cpath.simps(2) [of a ct_dinode] ct_dinode_size using ct_dinode_u_members(1) [of a] by simp

lemma dtroot_at: "cpath a ct_dinode di_dtroot_path = Some (224, ct_dtroot)"
  unfolding di_dtroot_path_def cpath.simps(2) [of a ct_dinode] ct_dinode_size using ct_dinode_u_members(2) [of a] by simp

section \<open>Layout without padding\<close>

text \<open>
  The reference: members back to back, at offsets that no alignment enters. \<open>cbytes\<close> is the size of a type, \<open>packed_path\<close> the place
  and the type a path of member names leads to.
\<close>

fun cbytes :: "ctype \<Rightarrow> nat" and cbytes_sum :: "cfields \<Rightarrow> nat" and cbytes_max :: "cfields \<Rightarrow> nat" where
  "cbytes (CInt n) = n"
| "cbytes (CBits ws) = 4"
| "cbytes (CArr t n) = n * cbytes t"
| "cbytes (CStruct fs) = cbytes_sum fs"
| "cbytes (CUnion fs) = cbytes_max fs"
| "cbytes_sum FNil = 0"
| "cbytes_sum (FCons x t fs) = cbytes t + cbytes_sum fs"
| "cbytes_max FNil = 0"
| "cbytes_max (FCons x t fs) = max (cbytes t) (cbytes_max fs)"

fun packed_find :: "bool \<Rightarrow> cfields \<Rightarrow> string \<Rightarrow> nat \<Rightarrow> (nat \<times> ctype) option" where
  "packed_find un FNil y off = None"
| "packed_find un (FCons x t fs) y off = (if x = y then Some (off, t) else packed_find un fs y (if un then off else off + cbytes t))"

fun packed_member :: "ctype \<Rightarrow> string \<Rightarrow> (nat \<times> ctype) option" where
  "packed_member (CStruct fs) y = packed_find False fs y 0"
| "packed_member (CUnion fs) y = packed_find True fs y 0"
| "packed_member _ y = None"

fun packed_path :: "ctype \<Rightarrow> string list \<Rightarrow> (nat \<times> ctype) option" where
  "packed_path t [] = Some (0, t)"
| "packed_path t (y # ys) = (case packed_member t y of None \<Rightarrow> None
     | Some (p, u) \<Rightarrow> (case packed_path u ys of None \<Rightarrow> None | Some (q, v) \<Rightarrow> Some (p + q, v)))"

text \<open>Every member, at any depth, falls on a multiple of its alignment by itself, and so does the end of every structure and union.\<close>

fun tight :: "abi \<Rightarrow> ctype \<Rightarrow> bool" and tights :: "abi \<Rightarrow> cfields \<Rightarrow> nat \<Rightarrow> bool" and tightu :: "abi \<Rightarrow> cfields \<Rightarrow> bool" where
  "tight a (CInt n) \<longleftrightarrow> True"
| "tight a (CBits ws) \<longleftrightarrow> True"
| "tight a (CArr t n) \<longleftrightarrow> tight a t"
| "tight a (CStruct fs) \<longleftrightarrow> tights a fs 0 \<and> calign_fields a fs dvd cbytes_sum fs"
| "tight a (CUnion fs) \<longleftrightarrow> tightu a fs \<and> calign_fields a fs dvd cbytes_max fs"
| "tights a FNil off \<longleftrightarrow> True"
| "tights a (FCons x t fs) off \<longleftrightarrow> tight a t \<and> calign a t dvd off \<and> tights a fs (off + cbytes t)"
| "tightu a FNil \<longleftrightarrow> True"
| "tightu a (FCons x t fs) \<longleftrightarrow> tight a t \<and> tightu a fs"

lemma align_up_dvd:
  assumes "k dvd n"
  shows "align_up n k = n"
proof (cases "k = 0")
  case False
  then have "(n + (k - 1)) div k = n div k" using div_plus_div_distrib_dvd_left [OF assms, of "k - 1"] by simp
  with assms show ?thesis by (simp add: align_up_def)
qed (use assms in \<open>simp add: align_up_def\<close>)

lemma tight_size:
  "tight a t \<Longrightarrow> csize a t = cbytes t"
  "tights a fs off \<Longrightarrow> cend a fs off = off + cbytes_sum fs"
  "tightu a fs \<Longrightarrow> clargest a fs = cbytes_max fs"
  by (induction a t and a fs off and a fs rule: tight_tights_tightu.induct) (simp_all add: align_up_dvd)

lemma tights_find: "tights a fs off \<Longrightarrow> cfind a False fs y off = packed_find False fs y off"
  by (induction a False fs y off rule: cfind.induct) (auto simp: align_up_dvd tight_size)

lemma tightu_find: "cfind a True fs y n = packed_find True fs y 0"
  by (induction a True fs y n rule: cfind.induct) auto

lemma tights_found: "tights a fs off \<Longrightarrow> packed_find False fs y off = Some (p, u) \<Longrightarrow> tight a u"
  by (induction False fs y off rule: packed_find.induct) (auto split: if_splits)

lemma tightu_found: "tightu a fs \<Longrightarrow> packed_find True fs y off = Some (p, u) \<Longrightarrow> tight a u"
  by (induction True fs y off rule: packed_find.induct) (auto split: if_splits)

lemma tight_member: "tight a t \<Longrightarrow> cmember a t y = packed_member t y"
  by (cases t) (simp_all add: tights_find tightu_find)

lemma tight_member_tight: "tight a t \<Longrightarrow> packed_member t y = Some (p, u) \<Longrightarrow> tight a u"
  by (cases t) (auto dest: tights_found tightu_found)

text \<open>The layout of a tight type does not depend on the alignments at all.\<close>

lemma tight_path: "tight a t \<Longrightarrow> cpath a t ys = packed_path t ys"
proof (induction ys arbitrary: t)
  case (Cons y ys)
  then show ?case by (auto simp: tight_member dest: tight_member_tight split: option.split)
qed simp

named_theorems tight_simps

lemma tight_parts [tight_simps]:
  "tight a ct_timestruc" "tight a ct_pxd" "tight a ct_lxd" "tight a ct_dxd" "tight a ct_xad" "tight a ct_dasd" "tight a ct_iagctl"
  "tight a ct_dir_table_slot" "tight a ct_dtslot" "tight a ct_ldtentry" "tight a ct_dtroot_header" "tight a ct_component"
  by (simp_all add: ct_simps ct_timestruc_def ct_pxd_def ct_lxd_def ct_dxd_def ct_xad_def ct_dasd_def ct_iagctl_def ct_dir_table_slot_def
      ct_dtslot_def ct_ldtentry_def ct_dtroot_header_def ct_component_def numeral_2_eq_2 [symmetric])

lemma tight_heads [tight_simps]:
  "tight a ct_xtheader" "tight a ct_dtpage_header" "tight a ct_btpage"
  by (cases a; simp add: ct_simps tight_simps ct_xtheader_def ct_dtpage_header_def ct_btpage_def ct_pxd_def numeral_2_eq_2 [symmetric])+

lemma cbytes_parts:
  "cbytes ct_timestruc = 8" "cbytes ct_pxd = 8" "cbytes ct_dxd = 16" "cbytes ct_xad = 16" "cbytes ct_iagctl = 16" "cbytes ct_dir_table_slot = 8"
  "cbytes ct_dtslot = 32" "cbytes ct_dtroot_header = 32" "cbytes ct_xtheader = 32" "cbytes ct_dtpage_header = 32" "cbytes ct_dasd = 16"
  by (simp_all add: ct_timestruc_def ct_pxd_def ct_dxd_def ct_xad_def ct_iagctl_def ct_dir_table_slot_def ct_dtslot_def
      ct_dtroot_header_def ct_xtheader_def ct_dtpage_header_def ct_dasd_def)

lemma tight_unions [tight_simps]:
  "tight a ct_xtpage" "tight a ct_dtroot" "tight a ct_dtpage"
  by (cases a; simp add: ct_simps tight_simps cbytes_parts ct_header_sizes ct_xtpage_def ct_dtroot_def ct_dtpage_def XTROOTMAXSLOT_def)+

lemma cbytes_unions: "cbytes ct_xtpage = 288" "cbytes ct_dtroot = 288" "cbytes ct_dtpage = 4096"
  by (simp_all add: cbytes_parts ct_xtpage_def ct_dtroot_def ct_dtpage_def XTROOTMAXSLOT_def)

lemma tight_iag [tight_simps]: "tight a ct_iag" "tight a ct_dinomap"
  by (cases a; simp add: ct_simps tight_simps cbytes_parts ct_iag_def ct_dinomap_def SMAPSZ_def EXTSPERIAG_def MAXAG_def)+

lemma tight_superblock [tight_simps]: "tight a ct_superblock"
  by (cases a; simp add: ct_simps tight_simps cbytes_parts ct_superblock_def)+

lemma tight_dinode_u: "tight a ct_dinode_u" "cbytes ct_dinode_u = 384"
  by (cases a; simp add: ct_simps tight_simps cbytes_parts cbytes_unions ct_page_sizes ct_dinode_u_def)+

lemma tight_dinode [tight_simps]: "tight a ct_dinode"
  by (cases a; simp add: ct_simps tight_simps tight_dinode_u cbytes_parts ct_dinode_u_size ct_dinode_def)+

text \<open>The structures on disk.\<close>

definition disk_types :: "ctype list" where
  "disk_types = [ct_superblock, ct_dinode, ct_iag, ct_dinomap, ct_iagctl, ct_xtpage, ct_xad, ct_dtpage, ct_dtroot, ct_dtslot, ct_ldtentry,
     ct_btpage, ct_timestruc, ct_pxd, ct_lxd, ct_dxd, ct_dasd, ct_dir_table_slot]"

text \<open>
  C18: one layout. Every structure on disk has the same layout whatever alignment the compiler gives 64-bit integers: each path of
  member names leads to the place where it is with the members back to back, so there is no padding anywhere, and the size is the sum of
  the members: the sizes are those their comments and the code give. The exception is \<^verbatim>\<open>idtentry_t\<close>, to which its comment gives
  32 bytes: declared with \<^verbatim>\<open>wchar_t\<close> its members take 54, and it is padded.
\<close>

theorem disk_layout_portable:
  assumes "t \<in> set disk_types"
  shows "cpath a t p = packed_path t p \<and> csize a t = cbytes t
    \<and> map cbytes disk_types = [184, 512, 4096, 4096, 16, 288, 16, 4096, 288, 32, 32, 4096, 8, 8, 8, 16, 16, 8]
    \<and> map cbytes [ct_superblock, ct_dinode, ct_iag, ct_dtpage] = [sizeof_superblock, unat sizeof_dinode, unat sizeof_iag, unat sizeof_dtpage]
    \<and> cbytes ct_idtentry = 54 \<and> csize a ct_idtentry = 56"
proof -
  have "list_all (tight a) disk_types" by (simp add: disk_types_def tight_simps)
  then have t: "tight a t" using assms by (simp add: list_all_iff)
  have "cbytes ct_superblock = 184" "cbytes ct_dinode = 512" "cbytes ct_iag = 4096" "cbytes ct_dtpage = 4096"
    by (simp_all flip: tight_size(1) [of I386] add: tight_simps ct_superblock_size ct_dinode_size ct_imap_sizes ct_page_sizes)
  moreover have "cbytes ct_dinomap = 4096" "cbytes ct_ldtentry = 32" "cbytes ct_btpage = 4096" "cbytes ct_lxd = 8"
    by (simp_all flip: tight_size(1) [of I386] add: tight_simps ct_imap_sizes ct_page_sizes ct_slot_sizes) (simp add: ct_lxd_def ct_simps)
  ultimately show ?thesis using tight_path [OF t] tight_size(1) [OF t]
    by (simp add: disk_types_def cbytes_parts cbytes_unions ct_simps sizeof_superblock_def sizeof_dinode_def sizeof_iag_def sizeof_dtpage_def) (simp add: ct_idtentry_def ct_pxd_def)
qed

text \<open>The parent of a directory, in its inode.\<close>

theorem disk_layout_portable_witness:
  "cpath I386 ct_dinode di_parent_path = Some (244, c32) \<and> cpath Natural ct_dinode di_parent_path = Some (244, c32)"
proof -
  have "cpath I386 ct_dinode di_parent_path = Some (244, c32)"
    unfolding di_parent_path_def cpath_append dtroot_at using ct_dinode_u_members(3) [of I386] by simp
  moreover have "ct_dinode \<in> set disk_types" by (simp add: disk_types_def)
  ultimately show ?thesis
    using disk_layout_portable [of ct_dinode I386 di_parent_path] disk_layout_portable [of ct_dinode Natural di_parent_path] by simp
qed

section \<open>The decoders against the declarations\<close>

abbreviation vw :: "'a::len word \<Rightarrow> cval" where "vw x \<equiv> VInt (unat x)"

definition vws :: "'a::len word list \<Rightarrow> cval" where
  "vws xs = VList (map vw xs)"

definition val_pxd :: "pxd_t \<Rightarrow> cval" where
  "val_pxd x = VList [VList [vw (pxd_len x), vw (pxd_addr1 x)], vw (pxd_addr2 x)]"

definition val_timestruc :: "timestruc_t \<Rightarrow> cval" where
  "val_timestruc x = VList [vw (tv_sec x), vw (tv_nsec x)]"

definition val_dxd :: "dxd_t \<Rightarrow> cval" where
  "val_dxd x = VList [VList [vw (dxd_flag x), vw (dxd_rsrvd x)], vw (dxd_size x),
     VList [vw (dxd_len x), vw (dxd_addr1 x)], vw (dxd_addr2 x)]"

definition val_xad :: "xad_t \<Rightarrow> cval" where
  "val_xad x = VList [VList [vw (xad_flag x), vw (xad_rsvrd x), vw (xad_off1 x)], vw (xad_off2 x),
     VList [vw (xad_len x), vw (xad_addr1 x)], vw (xad_addr2 x)]"

definition val_dasd :: "dasd_t \<Rightarrow> cval" where
  "val_dasd x = VList [vw (dasd_thresh x), vw (dasd_delta x), vw (dasd_rsrvd1 x), vw (dasd_limit_hi x), vw (dasd_limit_lo x),
     vws (dasd_rsrvd2 x), vw (dasd_used_hi x), vw (dasd_used_lo x)]"

lemma le_nat_add: "le_nat b p (m + n) = le_nat b p m + 256 ^ m * le_nat b (p + m) n"
  by (induction m arbitrary: p) (simp_all add: algebra_simps)

lemma le_nat_words [ct_simps]:
  "le_nat b p (Suc 0) = unat (b ! p)" "le_nat b p 2 = unat (le16 b p)" "le_nat b p 4 = unat (le32 b p)" "le_nat b p 8 = unat (le64 b p)"
proof -
  show "le_nat b p (Suc 0) = unat (b ! p)" for b p by simp
  show two: "le_nat b p 2 = unat (le16 b p)" for b p by (simp add: numeral_2_eq_2 unat_le16)
  show four: "le_nat b p 4 = unat (le32 b p)" for b p
  proof -
    have i: "p + 2 + 1 = p + 3" by simp
    have "le_nat b p 4 = unat (le16 b p) + 65536 * unat (le16 b (p + 2))" using le_nat_add [of b p 2 2] by (simp add: two)
    then show ?thesis unfolding unat_le16 unat_le32 i by (simp add: algebra_simps)
  qed
  show "le_nat b p 8 = unat (le64 b p)"
    using le_nat_add [of b p 4 4] by (simp add: four unat_le64)
qed

lemma digit_div: "(unat (x :: u8) + 256 * n) div 256 = n" "(unat x + 256 * n) mod 256 = unat x"
  using unat_bound [of x] by simp_all

lemma top_byte: "unat (le32 b p) div 16777216 = unat (b ! (p + 3))"
proof -
  have "unat (le32 b p) div (256 * 256 * 256) = unat (b ! (p + 3))" unfolding unat_le32 div_mult2_eq digit_div ..
  then show ?thesis by simp
qed

lemma low_byte: "unat (le32 b p) mod 256 = unat (b ! p)"
  unfolding unat_le32 digit_div ..

lemma middle_bytes: "unat (le32 b p) div 256 mod 65536 = unat (le16 b (p + 1))"
proof -
  have "unat (le32 b p) div 256 mod (256 * 256) = unat (le16 b (p + 1))"
    unfolding unat_le32 unat_le16 digit_div mod_mult2_eq by simp
  then show ?thesis by simp
qed

text \<open>Arrays.\<close>

lemma read_bytes [ct_simps]: "p + n \<le> length b \<Longrightarrow> cread a (CArr (CInt (Suc 0)) n) b p = vws (bytes_at b p n)"
  by (auto simp: vws_def ct_simps intro: nth_equalityI)

lemma read_u16s [ct_simps]: "cread a (CArr c16 n) b p = vws (map (\<lambda>i. le16 b (p + 2 * i)) [0..<n])"
  by (simp add: vws_def ct_simps)

lemma read_u32s [ct_simps]: "cread a (CArr c32 n) b p = vws (map (\<lambda>i. le32 b (p + 4 * i)) [0..<n])"
  by (simp add: vws_def ct_simps)

lemma read_pxds [ct_simps]: "cread a (CArr ct_pxd n) b p = VList (map (\<lambda>i. cread a ct_pxd b (p + 8 * i)) [0..<n])"
  by (simp add: ct_simps)

declare cread.simps(3) [simp del]

lemma unat_ucast_u24: "unat (ucast (x :: u32) :: u24) = unat x mod 16777216"
  by (simp add: unsigned_ucast_eq take_bit_eq_mod)

lemma upper_u24: "unat (ucast (drop_bit 8 (x :: u32)) :: u24) = unat x div 256"
  unfolding unat_ucast_u24 unsigned_drop_bit_eq using unat_bound [of x] by (simp add: drop_bit_eq_div take_bit_nat_eq_self)

lemma top_byte_8: "unat (le32 b (p + 8)) div 16777216 = unat (b ! (p + 11))"
  using top_byte [of b "p + 8"] by (simp add: add.commute)

lemma read_pxd [ct_simps]: "cread a ct_pxd b p = val_pxd (pxd_of b p)"
  using unat_bound [of "b ! (p + 3)"]
  by (simp add: ct_pxd_def val_pxd_def pxd_of_def ct_simps unat_ucast_u24 top_byte)

lemma read_timestruc [ct_simps]: "cread a ct_timestruc b p = val_timestruc (timestruc_of b p)"
  by (simp add: ct_timestruc_def val_timestruc_def timestruc_of_def ct_simps)

lemma read_dxd [ct_simps]: "cread a ct_dxd b p = val_dxd (dxd_of b p)"
  using unat_bound [of "b ! (p + 11)"] unat_bound [of "le32 b p"] top_byte_8 [of b p]
  by (simp add: ct_dxd_def val_dxd_def dxd_of_def ct_simps upper_u24 unat_ucast_u24 [of "le32 b (p + 8)"] low_byte)

lemma read_xad [ct_simps]: "cread a ct_xad b p = val_xad (xad_of b p)"
  using unat_bound [of "b ! (p + 11)"] unat_bound [of "b ! (p + 3)"] top_byte_8 [of b p] top_byte [of b p] middle_bytes [of b p]
  by (simp add: ct_xad_def val_xad_def xad_of_def ct_simps unat_ucast_u24 low_byte div_mult2_eq [symmetric])

lemma read_dasd [ct_simps]: "p + 16 \<le> length b \<Longrightarrow> cread a ct_dasd b p = val_dasd (dasd_of b p)"
proof -
  have three: "Suc (Suc (Suc p)) = p + 3" by simp
  show "p + 16 \<le> length b \<Longrightarrow> ?thesis"
    by (simp add: ct_dasd_def val_dasd_def dasd_of_def ct_simps three)
qed

text \<open>Every member of every structure; the padding of an inode group and the bytes behind the base area of an inode are not part of the
  records.\<close>

definition val_superblock :: "jfs_superblock \<Rightarrow> cval" where
  "val_superblock s = VList [vws (s_magic s), vw (s_version s), vw (s_size s), vw (s_bsize s), vw (s_l2bsize s), vw (s_l2bfactor s),
     vw (s_pbsize s), vw (s_l2pbsize s), vw (s_pad s), vw (s_agsize s), vw (s_flag s), vw (s_state s), vw (s_compress s),
     val_pxd (s_ait2 s), val_pxd (s_aim2 s), vw (s_logdev s), vw (s_logserial s), val_pxd (s_logpxd s), val_pxd (s_fsckpxd s),
     val_timestruc (s_time s), vw (s_fsckloglen s), vw (s_fscklog s), vws (s_fpack s), vw (s_xsize s), val_pxd (s_xfsckpxd s),
     val_pxd (s_xlogpxd s), vws (s_uuid s), vws (s_label s), vws (s_loguuid s)]"

definition val_iag :: "bytes \<Rightarrow> iag_t \<Rightarrow> cval" where
  "val_iag pad i = VList [vw (agstart i), vw (iag_iagnum i), vw (inofreefwd i), vw (inofreeback i), vw (extfreefwd i), vw (extfreeback i),
     vw (iagfree i), vws (inosmap i), vws (extsmap i), vw (nfreeinos i), vw (nfreeexts i), vws pad, vws (wmap i), vws (pmap i),
     VList (map val_pxd (inoext i))]"

definition val_dinode :: "cval \<Rightarrow> dinode_t \<Rightarrow> cval" where
  "val_dinode u i = VList [vw (di_inostamp i), vw (di_fileset i), vw (di_number i), vw (di_gen i), val_pxd (di_ixpxd i), vw (di_size i),
     vw (di_nblocks i), vw (di_nlink i), vw (di_uid i), vw (di_gid i), vw (di_mode i), val_timestruc (di_atime i),
     val_timestruc (di_ctime i), val_timestruc (di_mtime i), val_timestruc (di_otime i), val_dxd (di_acl i), val_dxd (di_ea i),
     vw (di_next_index i), vw (di_acltype i), u]"

definition val_xtheader :: "xtheader \<Rightarrow> cval" where
  "val_xtheader x = VList [vw (xth_next x), vw (xth_prev x), vw (xth_flag x), vw (xth_rsrvd1 x), vw (xth_nextindex x), vw (xth_maxentry x),
     vw (xth_rsrvd2 x), val_pxd (xth_self x)]"

definition val_dtroot_header :: "dtroot_header \<Rightarrow> cval" where
  "val_dtroot_header x = VList [val_dasd (dr_DASD x), vw (dr_flag x), vw (dr_nextindex x), vw (dr_freecnt x), vw (dr_freelist x),
     vw (dr_idotdot x), vws (dr_stbl x)]"

definition val_dtpage_header :: "dtpage_header \<Rightarrow> cval" where
  "val_dtpage_header x = VList [vw (dp_next x), vw (dp_prev x), vw (dp_flag x), vw (dp_nextindex x), vw (dp_freecnt x), vw (dp_freelist x),
     vw (dp_maxslot x), vw (dp_stblindex x), vws (dp_rsrvd x), val_pxd (dp_self x)]"

definition val_ldtentry :: "ldtentry_t \<Rightarrow> cval" where
  "val_ldtentry x = VList [vw (ld_inumber x), vw (ld_next x), vw (ld_namlen x), vws (ld_name x), vw (ld_index x)]"

definition val_dtslot :: "dtslot_t \<Rightarrow> cval" where
  "val_dtslot x = VList [vw (slot_next x), vw (slot_cnt x), vws (slot_name x)]"

lemma read_superblock: "184 \<le> length b \<Longrightarrow> cread a ct_superblock b 0 = val_superblock (superblock_of b)"
  by (cases a; simp add: ct_superblock_def val_superblock_def superblock_of_def ct_simps)

lemma read_iag: "4096 \<le> length b \<Longrightarrow> cread a ct_iag b 0 = val_iag (bytes_at b 72 1976) (iag_of b)"
  by (cases a; simp add: ct_iag_def val_iag_def iag_of_def ct_simps SMAPSZ_def EXTSPERIAG_def comp_def del: upt_rec_numeral)

lemma read_dinode: "cread a ct_dinode b 0 = val_dinode (cread a ct_dinode_u b 128) (dinode_of b)"
  by (cases a; simp add: ct_dinode_def val_dinode_def dinode_of_def ct_simps ct_dinode_u_size)

lemma read_headers:
  "cread a ct_xtheader b 0 = val_xtheader (xtheader_of b)"
  "32 \<le> length b \<Longrightarrow> cread a ct_dtroot_header b 0 = val_dtroot_header (dtroot_header_of b)"
  "32 \<le> length b \<Longrightarrow> cread a ct_dtpage_header b 0 = val_dtpage_header (dtpage_header_of b)"
  by (cases a; simp add: ct_xtheader_def val_xtheader_def xtheader_of_def ct_dtroot_header_def val_dtroot_header_def dtroot_header_of_def
      ct_dtpage_header_def val_dtpage_header_def dtpage_header_of_def ct_simps)+

lemma read_slots:
  "cread a ct_ldtentry b p = val_ldtentry (ldtentry_of b p)" "cread a ct_dtslot b p = val_dtslot (dtslot_of b p)"
  by (simp_all add: ct_ldtentry_def val_ldtentry_def ldtentry_of_def ct_dtslot_def val_dtslot_def dtslot_of_def ct_simps
      del: upt_rec_numeral)

lemma btroot_path: "512 \<le> length b \<Longrightarrow> di_btroot (dinode_of b) = bytes_at b 224 288"
  by (simp add: di_btroot_def dinode_of_def bytes_at_bytes_at)

text \<open>
  C17: the decoders read what the declarations say. On any buffer of 4096 bytes, under both conventions for the alignment
  of 64-bit integers, the superblock, the inode, the inode group, the heads of tree and directory pages and the slots of
  a directory, read member by member by the rules of C from their declarations, have the values the decoders give, and
  the root of an inode's tree is the bytes of the member \<^verbatim>\<open>u._file._u2._xtroot\<close>.
\<close>

theorem decoders_typed:
  assumes "4096 \<le> length b"
  shows "cread a ct_superblock b 0 = val_superblock (superblock_of b)
    \<and> cread a ct_dinode b 0 = val_dinode (cread a ct_dinode_u b 128) (dinode_of b)
    \<and> (\<exists>q t. cpath a ct_dinode di_xtroot_path = Some (q, t) \<and> di_btroot (dinode_of b) = bytes_at b q (csize a t))
    \<and> cread a ct_iag b 0 = val_iag (bytes_at b 72 1976) (iag_of b)
    \<and> cread a ct_xtheader b 0 = val_xtheader (xtheader_of b) \<and> cread a ct_xad b p = val_xad (xad_of b p)
    \<and> cread a ct_dtroot_header b 0 = val_dtroot_header (dtroot_header_of b)
    \<and> cread a ct_dtpage_header b 0 = val_dtpage_header (dtpage_header_of b)
    \<and> cread a ct_ldtentry b p = val_ldtentry (ldtentry_of b p) \<and> cread a ct_dtslot b p = val_dtslot (dtslot_of b p)"
  using assms xtroot_at [of a] btroot_path [of b]
  by (simp add: read_superblock read_dinode read_iag read_headers read_slots read_xad ct_page_sizes)

end
