(* ===== verification/Jfs_Dtree.thy ===== *)
theory Jfs_Dtree
  imports Jfs_Main Jfs_Ctypes
begin

text \<open>
  The macros of \<^verbatim>\<open>jfs_dtree.h\<close>, \<^verbatim>\<open>jfs_imap.h\<close> and \<^verbatim>\<open>jfs_dirread.h\<close> that state how pages are laid out and that the reading code does
  by hand: the slots of a page and of an entry, the table of sorted entries, the parent of a directory, the page of an
  inode. Each is compared with what the code does instead.
\<close>

section \<open>Slots\<close>

definition DTSLOTSIZE :: nat where "DTSLOTSIZE = 32"
definition DTSLOTHDRSIZE :: nat where "DTSLOTHDRSIZE = 2"
definition DTSLOTDATASIZE :: nat where "DTSLOTDATASIZE = 30"
definition DTIHDRSIZE :: nat where "DTIHDRSIZE = 10"
definition DTIHDRDATALEN :: int where "DTIHDRDATALEN = 11"
definition DTLHDRDATALEN_LEGACY :: int where "DTLHDRDATALEN_LEGACY = 13"
definition DTROOTMAXSLOT :: nat where "DTROOTMAXSLOT = 9"
definition DTPAGEMAXSLOT :: nat where "DTPAGEMAXSLOT = 128"
definition DTENTRYSTART :: nat where "DTENTRYSTART = 1"

text \<open>For each size of a page: its bytes, the slots of its table of sorted entries, all its slots.\<close>

definition DTPGNODE :: "(nat \<times> nat \<times> nat) list" where
  "DTPGNODE = [(512, 1, 16), (1024, 1, 32), (2048, 2, 64), (4096, 4, 128)]"

text \<open>
  The table has just the room for an index of one byte for every slot, and behind the head and the table the comment's number of
  slots is left for data.
\<close>

lemma page_geometry:
  "list_all (\<lambda>(bytes, tslots, slots). bytes = DTSLOTSIZE * slots \<and> slots \<le> DTSLOTSIZE * tslots \<and> DTSLOTSIZE * (tslots - 1) < slots) DTPGNODE"
  "map (\<lambda>(bytes, tslots, slots). slots - (DTENTRYSTART + tslots)) DTPGNODE = [14, 30, 61, 123]"
  "(4096, 4, DTPAGEMAXSLOT) \<in> set DTPGNODE" "DTSLOTSIZE = DTSLOTHDRSIZE + DTSLOTDATASIZE" "int DTSLOTDATASIZE = 2 * DTSLOTDATALEN"
  "int DTSLOTSIZE = int DTIHDRSIZE + 2 * DTIHDRDATALEN" "csize a ct_dtroot = DTSLOTSIZE * DTROOTMAXSLOT" "csize a ct_dtpage = DTSLOTSIZE * DTPAGEMAXSLOT"
  by (simp_all add: DTPGNODE_def DTSLOTSIZE_def DTENTRYSTART_def DTPAGEMAXSLOT_def DTSLOTHDRSIZE_def DTSLOTDATASIZE_def DTSLOTDATALEN_def
      DTIHDRSIZE_def DTIHDRDATALEN_def DTROOTMAXSLOT_def ct_page_sizes ct_slot_sizes)

text \<open>The number of slots of an entry: the least that have room for the name.\<close>

lemma slots_least:
  assumes "0 \<le> k" and "1 \<le> n"
  shows "NDTLEAF k \<le> n \<longleftrightarrow> k \<le> DTLHDRDATALEN + DTSLOTDATALEN * (n - 1)"
    and "NDTINTERNAL k \<le> n \<longleftrightarrow> k \<le> DTIHDRDATALEN + DTSLOTDATALEN * (n - 1)"
    and "NDTLEAF_LEGACY k \<le> n \<longleftrightarrow> k \<le> DTLHDRDATALEN_LEGACY + DTSLOTDATALEN * (n - 1)"
proof -
  have "(c + k + 14) div 15 \<le> n \<longleftrightarrow> k \<le> (15 - c) + 15 * (n - 1)" for c :: int
    by presburger
  from this [of 4] this [of 2] show "NDTLEAF k \<le> n \<longleftrightarrow> k \<le> DTLHDRDATALEN + DTSLOTDATALEN * (n - 1)"
    "NDTINTERNAL k \<le> n \<longleftrightarrow> k \<le> DTIHDRDATALEN + DTSLOTDATALEN * (n - 1)"
    "NDTLEAF_LEGACY k \<le> n \<longleftrightarrow> k \<le> DTLHDRDATALEN_LEGACY + DTSLOTDATALEN * (n - 1)"
    by (simp_all add: NDTLEAF_def NDTINTERNAL_def NDTLEAF_LEGACY_def DTLHDRDATALEN_def DTIHDRDATALEN_def DTSLOTDATALEN_def
        DTLHDRDATALEN_LEGACY_def add.commute add.left_commute)
qed

text \<open>An entry whose name the reading code can assemble has at least the slots the macro counts.\<close>

lemma entry_slots:
  assumes "entry_at slot head e"
  shows "\<exists>ss. slots_ok slot (next_slot (ld_next (ldtentry_of slot (32 * unat head)))) ss \<and> NDTLEAF (int (length (snd e))) \<le> 1 + int (length ss)"
proof -
  obtain ss where ss: "slots_ok slot (next_slot (ld_next (ldtentry_of slot (32 * unat head)))) ss" "length (snd e) \<le> 11 + 15 * length ss"
    using assms by (auto simp: entry_at_def Let_def)
  then show ?thesis by (auto simp: slots_least(1) DTLHDRDATALEN_def DTSLOTDATALEN_def intro!: exI [of _ ss])
qed

text \<open>What the tree manager keeps with an entry; \<^verbatim>\<open>tid_t\<close> is an unsigned integer, and pointers have 32 bits.\<close>

definition ct_ddata :: ctype where
  "ct_ddata = CUnion (fields [(''leaf'', CStruct (fields [(''tid'', c32), (''ip'', c32), (''ino'', c32)])), (''xd'', ct_pxd)])"

text \<open>The head of a page buffer.\<close>

definition ct_bufhdr :: ctype where
  "ct_bufhdr = CStruct (fields [(''b_next'', c32), (''b_data'', c32)])"

lemma memory_sizes: "csize a ct_ddata = 12" "csize a ct_bufhdr = 8"
  by (simp_all add: ct_ddata_def ct_bufhdr_def ct_simps)

text \<open>\<^verbatim>\<open>JFS_SBI\<close>, the members \<^verbatim>\<open>i_sb\<close> and \<^verbatim>\<open>mntflag\<close> and the flag are defined nowhere in the repository and are arguments.\<close>

definition DO_INDEX :: "('s \<Rightarrow> 'b) \<Rightarrow> ('i \<Rightarrow> 's) \<Rightarrow> ('b \<Rightarrow> 'w::len word) \<Rightarrow> 'w word \<Rightarrow> 'i \<Rightarrow> 'w word" where
  "DO_INDEX JFS_SBI i_sb mntflag JFS_DIR_INDEX INODE = mntflag (JFS_SBI (i_sb INODE)) AND JFS_DIR_INDEX"

definition MAX_INLINE_DIRTABLE_ENTRY :: nat where "MAX_INLINE_DIRTABLE_ENTRY = 13"
definition DIR_INDEX_VALID :: u8 where "DIR_INDEX_VALID = 1"
definition DIR_INDEX_FREE :: u8 where "DIR_INDEX_FREE = 0"
definition DTLHDRSIZE :: nat where "DTLHDRSIZE = 6"
definition DIREND :: int where "DIREND = 2 ^ 31 - 1"

definition JFS_CREATE :: int where "JFS_CREATE = 1"
definition JFS_LOOKUP :: int where "JFS_LOOKUP = 2"
definition JFS_REMOVE :: int where "JFS_REMOVE = 3"
definition JFS_RENAME :: int where "JFS_RENAME = 4"

text \<open>
  The head of a leaf entry leaves room for 13 units in the old format, and for 11 and the index in the new one; the table in the
  inode, of 96 bytes, has one slot less than the macro's maximum entry.
\<close>

lemma entry_geometry:
  "int DTSLOTSIZE = int DTLHDRSIZE + 2 * DTLHDRDATALEN_LEGACY" "int DTSLOTSIZE = int DTLHDRSIZE + 2 * DTLHDRDATALEN + 4"
  "(MAX_INLINE_DIRTABLE_ENTRY - 1) * csize a ct_dir_table_slot = 96"
  by (simp_all add: DTSLOTSIZE_def DTLHDRSIZE_def DTLHDRDATALEN_LEGACY_def DTLHDRDATALEN_def MAX_INLINE_DIRTABLE_ENTRY_def ct_simps)

text \<open>
  The size of a record with a name of characters of two bytes. All of it is unsigned arithmetic of 32 bits: it is right when
  \<^verbatim>\<open>struct dirent\<close> ends with 256 such characters, and wraps below zero when it ends with a short array, which \<^verbatim>\<open>diskfs_get_directs\<close>
  counts on.
\<close>

definition DIRENTSIZ :: "dirent_layout \<Rightarrow> u32 \<Rightarrow> u32" where
  "DIRENTSIZ ly namlen =
     (of_nat (sizeof_dirent ly) - 2 * (of_nat JFS_NAME_MAX + 1) + 2 * (namlen + 1) + 3) AND NOT 3"

lemma unat_id: "of_nat (unat x) = (x :: u32)"
  by (metis of_nat_unat ucast_id)

lemma unat_of_nat_small: "n < 2 ^ 32 \<Longrightarrow> unat (of_nat n :: u32) = n"
  by (simp add: unat_of_nat)

lemma unat_clear_low: "unat (x AND NOT 3 :: u32) = unat x div 4 * 4"
proof -
  have "(3 :: u32) = mask 2" by (simp add: mask_eq_exp_minus_1)
  moreover have "x AND NOT (mask 2) = push_bit 2 (drop_bit 2 x)" by (rule bit_word_eqI) (auto simp: bit_simps simp flip: add_2_eq_Suc' add_2_eq_Suc)
  moreover have "unat (push_bit 2 (drop_bit 2 x)) = unat x div 4 * 4"
    using unat_bound [of x] by (simp add: unsigned_push_bit_eq unsigned_drop_bit_eq) (simp add: drop_bit_eq_div push_bit_eq_mult take_bit_eq_mod)
  ultimately show ?thesis by simp
qed

lemma DIRENTSIZ_size:
  assumes "sizeof_dirent ly = base + 512" and "base < 2 ^ 16" and "unat namlen \<le> JFS_NAME_MAX"
  shows "unat (DIRENTSIZ ly namlen) = dirent_reclen \<lparr>sizeof_dirent = base, off_d_name = off_d_name ly\<rparr> (2 * (unat namlen + 1))"
proof -
  define n where "n = unat namlen"
  have n: "namlen = of_nat n" "n \<le> 255" using assms(3) unat_id [of namlen] by (simp_all add: n_def JFS_NAME_MAX_def)
  have "(of_nat (sizeof_dirent ly) - 2 * (of_nat JFS_NAME_MAX + 1) + 2 * (namlen + 1) + 3 :: u32) = of_nat (base + 2 * (n + 1) + 3)"
    by (simp add: assms(1) n(1) JFS_NAME_MAX_def)
  moreover have "unat (of_nat (base + 2 * (n + 1) + 3) :: u32) = base + 2 * (n + 1) + 3"
    by (rule unat_of_nat_small) (use assms(2) n(2) in simp)
  ultimately show ?thesis unfolding DIRENTSIZ_def unat_clear_low dirent_reclen_def by (simp add: n_def)
qed

lemma DIRENTSIZ_wraps:
  assumes "sizeof_dirent ly + 2 * unat namlen + 5 < 512"
  shows "2 ^ 32 - 512 \<le> unat (DIRENTSIZ ly namlen)"
proof -
  define m where "m = sizeof_dirent ly + 2 * unat namlen + 5"
  have "(of_nat (sizeof_dirent ly) - 2 * (of_nat JFS_NAME_MAX + 1) + 2 * (namlen + 1) + 3 :: u32) = of_nat (2 ^ 32 - 512 + m)"
    using unat_id [of namlen] by (simp add: m_def JFS_NAME_MAX_def)
  moreover have "unat (of_nat (2 ^ 32 - 512 + m) :: u32) = 2 ^ 32 - 512 + m"
    by (rule unat_of_nat_small) (use assms in \<open>simp add: m_def\<close>)
  ultimately show ?thesis unfolding DIRENTSIZ_def unat_clear_low by simp
qed

section \<open>Pages\<close>

text \<open>The entry at position \<open>i\<close> of the table of sorted entries, in a root page and in any other.\<close>

definition DT_GETSTBL :: "bytes \<Rightarrow> nat \<Rightarrow> fault + u8" where
  "DT_GETSTBL p i = (if dp_flag (dtpage_header_of p) AND BT_ROOT \<noteq> 0 then byte_at (dr_stbl (dtroot_header_of p)) i
     else byte_at p (32 * unat (dp_stblindex (dtpage_header_of p)) + i))"

text \<open>\<^verbatim>\<open>i_dtroot\<close> of an inode is the root page.\<close>

definition PARENT :: "bytes \<Rightarrow> u32" where
  "PARENT root = le32_to_cpu (dr_idotdot (dtroot_header_of root))"

definition dtEmpty :: "bytes \<Rightarrow> bool" where
  "dtEmpty root \<longleftrightarrow> dr_nextindex (dtroot_header_of root) = 0"

text \<open>
  The reading code takes the one table for the page in the inode and the other for every page it reads, without looking at the
  flag; on pages flagged that way it takes what the macro takes.
\<close>

lemma stbl_of_page:
  "DT_GETSTBL p i = (if dp_flag (dtpage_header_of p) AND BT_ROOT \<noteq> 0 then root_stbl p i else page_stbl p i)"
  by (simp add: DT_GETSTBL_def root_stbl_def page_stbl_def)

text \<open>The flag and the count of entries of a page are in the same place in both heads.\<close>

lemma same_head: "dp_flag (dtpage_header_of p) = dr_flag (dtroot_header_of p)" "dp_nextindex (dtpage_header_of p) = dr_nextindex (dtroot_header_of p)"
  by (simp_all add: dtpage_header_of_def dtroot_header_of_def)

lemma dtEmpty_entries:
  assumes "dir_root d root es" and "dr_flag (dtroot_header_of root) AND BT_LEAF \<noteq> 0"
  shows "dtEmpty root \<longleftrightarrow> es = []"
  using assms by (auto simp: dir_root_def dtEmpty_def unat_eq_zero)

section \<open>Inodes and extents\<close>

definition INOSPERIAG :: nat where "INOSPERIAG = 4096"
definition INOSPEREXT :: nat where "INOSPEREXT = 32"
definition EXTSPERSUM :: nat where "EXTSPERSUM = 32"
definition PGSPERIEXT :: nat where "PGSPERIEXT = 4"
definition MAXIAGS :: nat where "MAXIAGS = 2 ^ 20 - 1"
definition AMAPSIZE :: nat where "AMAPSIZE = 512"
definition SMAPSIZE :: nat where "SMAPSIZE = 16"

text \<open>
  The geometry of the inode map: the maps of a group have a bit for each inode and for each extent, an extent of inodes fills its
  pages, every inode number belongs to a group with a number in bounds, and its extent is one of the group's.
\<close>

lemma imap_geometry:
  "INOSPERIAG = EXTSPERIAG * INOSPEREXT" "8 * AMAPSIZE = INOSPERIAG" "8 * SMAPSIZE = EXTSPERIAG" "EXTSPERIAG = SMAPSZ * EXTSPERSUM"
  "PGSPERIEXT * 4096 = INOSPEREXT * csize a ct_dinode" "unat (INOTOIAG ino) \<le> MAXIAGS"
  "unat ino mod INOSPERIAG div INOSPEREXT < EXTSPERIAG"
proof -
  have "unat ino div 4096 < 2 ^ 20" using unat_bound [of ino] by (simp add: less_mult_imp_div_less)
  then show "unat (INOTOIAG ino) \<le> MAXIAGS" by (simp add: unat_INOTOIAG MAXIAGS_def)
  show "unat ino mod INOSPERIAG div INOSPEREXT < EXTSPERIAG"
    by (simp add: INOSPERIAG_def INOSPEREXT_def EXTSPERIAG_def less_mult_imp_div_less)
qed (simp_all add: INOSPERIAG_def INOSPEREXT_def EXTSPERIAG_def EXTSPERSUM_def PGSPERIEXT_def AMAPSIZE_def SMAPSIZE_def SMAPSZ_def ct_dinode_size)

text \<open>\<^verbatim>\<open>L2INOSPERPAGE\<close> is defined nowhere in the repository and is an argument.\<close>

definition INOPBLK :: "nat \<Rightarrow> pxd_t \<Rightarrow> u32 \<Rightarrow> nat \<Rightarrow> u64" where
  "INOPBLK l2inosperpage pxd ino l2nbperpg =
     addressPXD pxd + ucast (push_bit l2nbperpg (drop_bit l2inosperpage (ino AND (32 - 1))))"

definition XT_CMP_4 :: "u64 \<Rightarrow> xad_t \<Rightarrow> int \<times> u64" where
  "XT_CMP_4 K x = (let offset64 = offsetXAD x in (if sint K \<ge> sint (offset64 + ucast (lengthXAD x)) then 1
     else if sint K < sint offset64 then - 1 else 0, offset64))"

lemma XT_CMP_4_compares: "XT_CMP_4 K x = (XT_CMP K x, offsetXAD x)"
  by (simp add: XT_CMP_4_def XT_CMP_def Let_def)

text \<open>
  With eight inodes to a page of 4096 bytes, the page that \<^verbatim>\<open>INOPBLK\<close> names is the one that holds the inode where
  \<^verbatim>\<open>find_inode\<close> puts it.
\<close>

lemma unat_INOPBLK:
  assumes "fs_ok d"
  shows "unat (INOPBLK 3 pxd ino (12 - l2b d)) = unat (addressPXD pxd) + unat ino mod 32 div 8 * 2 ^ (12 - l2b d)"
proof -
  define q where "q = drop_bit 3 (ino AND (32 - 1))"
  define k where "k = 12 - l2b d"
  have "ino AND (32 - 1) = take_bit 5 ino" by (simp add: take_bit_eq_mask mask_eq_exp_minus_1)
  then have q: "unat q = unat ino mod 32 div 8"
    unfolding q_def by (simp only: unsigned_drop_bit_eq unsigned_take_bit_eq) (simp add: drop_bit_eq_div take_bit_eq_mod)
  have "unat ino mod 32 div 8 < 4" by (simp add: less_mult_imp_div_less)
  moreover have "k \<le> 3" using assms by (auto simp: fs_ok_def sb_ok_def k_def)
  then have "(2 :: nat) ^ k \<le> 2 ^ 3" by (intro power_increasing) simp_all
  ultimately have small: "unat ino mod 32 div 8 * 2 ^ k \<le> 4 * 2 ^ 3" by (intro mult_le_mono) simp_all
  have "unat (push_bit k q) = unat q * 2 ^ k"
    using small \<open>k \<le> 3\<close> by (simp add: push_bit_eq_mult unat_word_ariths q unat_two_power)
  then show ?thesis
    unfolding INOPBLK_def q_def [symmetric] k_def [symmetric]
    using small pxd.fetch_bound [of pxd] by (simp add: unat_word_ariths unat_ucast_up q)
qed

text \<open>The extent of the inodes around an inode, from its group.\<close>

definition inode_extent :: "fs \<Rightarrow> xtree \<Rightarrow> nat \<Rightarrow> pxd_t option" where
  "inode_extent d t inum = (let k = (inum div 4096 + 1) * 2 ^ (12 - l2b d)
     in map_option (\<lambda>x. pxd_of (disk_slice d ((xa x + (k - xo x)) * 2 ^ l2b d) 4096) (3072 + 8 * (inum mod 4096 div 32))) (xt_find t k))"

text \<open>
  C19: the address of an inode and the page the macro names. Whenever \<^verbatim>\<open>find_inode\<close>, on a sound inode map, gives an address, it is
  that of the record number \<open>inum mod 8\<close>, of 512 bytes, in the page of 4096 bytes that begins at the block \<^verbatim>\<open>INOPBLK\<close> gives for
  the extent recorded for the inode, for every block size.
\<close>

theorem find_inode_page:
  assumes "fs_ok d" and "imap_ok d which_table t" and "mem_ok h" and "find_inode d inum which_table h = run_return (Some a, h')"
  shows "\<exists>ext. inode_extent d t (unat inum) = Some ext
    \<and> unat a = unat (INOPBLK 3 ext inum (12 - l2b d)) * 2 ^ l2b d + unat inum mod 8 * 512"
proof -
  have "inode_address d t (unat inum) = Some (unat a)"
    using find_inode_correct [OF assms(1,2), of inum h] assms(3,4) by auto
  then obtain ext where ext: "inode_extent d t (unat inum) = Some ext"
    "unat a = unat (addressPXD ext) * 2 ^ l2b d + unat inum mod 32 * 512"
    by (auto simp: inode_address_def inode_extent_def Let_def split: option.splits if_splits)
  have "l2b d \<le> 12" using assms(1) by (simp add: fs_ok_def sb_ok_def)
  then have p: "(2 :: nat) ^ (12 - l2b d) * 2 ^ l2b d = 4096" by (simp flip: power_add)
  have "unat inum mod 32 mod 8 = unat inum mod 8" by (rule mod_mod_cancel) simp
  then have "unat inum mod 32 = unat inum mod 32 div 8 * 8 + unat inum mod 8" using div_mult_mod_eq [of "unat inum mod 32" 8] by simp
  moreover have "unat (INOPBLK 3 ext inum (12 - l2b d)) * 2 ^ l2b d = unat (addressPXD ext) * 2 ^ l2b d + unat inum mod 32 div 8 * 4096"
    unfolding unat_INOPBLK [OF assms(1)] add_mult_distrib mult.assoc p ..
  ultimately show ?thesis using ext by (intro exI [of _ ext]) simp
qed

end
