(* ===== verification/Jfs_Contents.thy ===== *)
theory Jfs_Contents
  imports Jfs_Pager
begin

text \<open>
  The contents of a file, page after page: what a client sees that maps the whole file through \<^verbatim>\<open>pager_read_page\<close> (\<^verbatim>\<open>pager.c\<close>), against
  the bytes the extents of the file name.
\<close>

section \<open>The file as a sequence of bytes\<close>

text \<open>The block of page \<open>k\<close> of a file with the extents of \<open>t\<close>, and byte \<open>i\<close> of the file; a hole holds zeroes.\<close>

definition file_block :: "xtree \<Rightarrow> nat \<Rightarrow> nat option" where
  "file_block t k = map_option (\<lambda>x. xa x + (k - xo x)) (xt_find t k)"

definition file_byte :: "fs \<Rightarrow> xtree \<Rightarrow> nat \<Rightarrow> u8" where
  "file_byte d t i = (case file_block t (i div 4096) of None \<Rightarrow> 0 | Some b \<Rightarrow> dk_byte d (b * 4096 + i mod 4096))"

definition file_bytes :: "fs \<Rightarrow> xtree \<Rightarrow> nat \<Rightarrow> bytes" where
  "file_bytes d t len = map (file_byte d t) [0..<len]"

definition page_count :: "nat \<Rightarrow> nat" where
  "page_count len = (len + 4095) div 4096"

text \<open>Every page of the file has a block on the disk, at an address the store takes, and page offsets fit their type.\<close>

definition file_on_disk :: "fs \<Rightarrow> store \<Rightarrow> xtree \<Rightarrow> nat \<Rightarrow> bool" where
  "file_on_disk d st t len \<longleftrightarrow> len + 4096 \<le> 2 ^ 32 \<and> list_all (\<lambda>k. case file_block t k of None \<Rightarrow> False
     | Some b \<Rightarrow> b * 4096 + 4096 \<le> dk_size d \<and> b * 4096 div 2 ^ log2_block_size st < 2 ^ 31) [0..<page_count len]"

lemma page_count_less: "k < page_count len \<Longrightarrow> 4096 * k < len"
  using div_mult_mod_eq [of "len + 4095" 4096] mod_less_divisor [of 4096 "len + 4095"] by (simp add: page_count_def)

lemma page_count_covers: "len \<le> 4096 * page_count len"
  using div_mult_mod_eq [of "len + 4095" 4096] mod_less_divisor [of 4096 "len + 4095"] unfolding page_count_def by linarith

text \<open>Chunks of one length put together.\<close>

lemma concat_chunks: "concat (map (\<lambda>k. map (\<lambda>j. f (c * k + j)) [0..<c]) [0..<n]) = map f [0..<c * n]"
proof (induction n)
  case (Suc n)
  have "map (\<lambda>j. f (c * n + j)) [0..<c] = map f [c * n..<c * n + c]"
    by (rule nth_equalityI) simp_all
  moreover have "[0..<c * Suc n] = [0..<c * n] @ [c * n..<c * n + c]" using upt_add_eq_append [of 0 "c * n" c] by (simp add: add.commute)
  ultimately show ?case using Suc by simp
qed simp

lemma page_bytes_file:
  assumes "l2b d = 12" and "file_block t k = Some b"
  shows "page_bytes d b (4096 * k) len = map (\<lambda>j. if 4096 * k + j < len then file_byte d t (4096 * k + j) else 0) [0..<4096]"
proof -
  have "(4096 * k + j) div 4096 = k" "(4096 * k + j) mod 4096 = j" if "j < 4096" for j using that by simp_all
  then show ?thesis using assms by (simp add: page_bytes_def file_byte_def)
qed

lemma pages_are_file:
  "concat (map (\<lambda>k. map (\<lambda>j. if 4096 * k + j < len then file_byte d t (4096 * k + j) else 0) [0..<4096]) [0..<page_count len])
    = file_bytes d t len @ replicate (4096 * page_count len - len) 0"
proof -
  have "map (\<lambda>i. if i < len then file_byte d t i else 0) [0..<4096 * page_count len]
      = file_bytes d t len @ replicate (4096 * page_count len - len) 0"
    using page_count_covers [of len]
    by (intro nth_equalityI) (auto simp: file_bytes_def nth_append)
  then show ?thesis using concat_chunks [where c = 4096 and f = "\<lambda>i. if i < len then file_byte d t i else 0"] by simp
qed

section \<open>Reading all pages\<close>

text \<open>A client that asks for \<open>k\<close> pages in a row, from page \<open>i\<close> on: the code and the page of every answer.\<close>

fun read_pages :: "fs \<Rightarrow> sys \<Rightarrow> store \<Rightarrow> nat \<Rightarrow> nat \<Rightarrow> nat \<Rightarrow> world \<Rightarrow> ((int \<times> bytes option) list \<times> world) run" where
  "read_pages d s st u i 0 w = run_return ([], w)"
| "read_pages d s st u i (Suc k) w = run_bind (pager_read_page d s st u (of_nat (4096 * i)) w) (\<lambda>(rc, wl, buf, w).
     run_bind (read_pages d s st u (Suc i) k w) (\<lambda>(rs, w). run_return ((rc, buf) # rs, w)))"

lemma read_pages_each:
  assumes page: "\<And>j c h. j < n \<Longrightarrow> idle c \<Longrightarrow> mem_ok h \<Longrightarrow> \<exists>c' h'. idle c' \<and> mem_ok h' \<and>
      pager_read_page d s st u (of_nat (4096 * j)) (w\<lparr>bufs := c, ns := (ns w)\<lparr>mem := h\<rparr>\<rparr>) =
        run_return (0, 1, Some (f j), w\<lparr>bufs := c', ns := (ns w)\<lparr>mem := h'\<rparr>\<rparr>)"
  shows "idle c \<Longrightarrow> mem_ok h \<Longrightarrow> i + k \<le> n \<Longrightarrow> \<exists>c' h'. idle c' \<and> mem_ok h' \<and>
      read_pages d s st u i k (w\<lparr>bufs := c, ns := (ns w)\<lparr>mem := h\<rparr>\<rparr>) =
        run_return (map (\<lambda>j. (0, Some (f j))) [i..<i + k], w\<lparr>bufs := c', ns := (ns w)\<lparr>mem := h'\<rparr>\<rparr>)"
proof (induction k arbitrary: i c h)
  case (Suc k)
  from page [of i, OF _ Suc.prems(1,2)] Suc.prems(3) obtain c1 h1 where one: "idle c1" "mem_ok h1"
    "pager_read_page d s st u (of_nat (4096 * i)) (w\<lparr>bufs := c, ns := (ns w)\<lparr>mem := h\<rparr>\<rparr>) =
      run_return (0, 1, Some (f i), w\<lparr>bufs := c1, ns := (ns w)\<lparr>mem := h1\<rparr>\<rparr>)" by auto
  have "[i..<i + Suc k] = i # [Suc i..<Suc i + k]" by (simp add: upt_conv_Cons)
  moreover from Suc.IH [OF one(1,2), of "Suc i"] Suc.prems(3) obtain c' h' where "idle c'" "mem_ok h'"
    "read_pages d s st u (Suc i) k (w\<lparr>bufs := c1, ns := (ns w)\<lparr>mem := h1\<rparr>\<rparr>) =
      run_return (map (\<lambda>j. (0, Some (f j))) [Suc i..<Suc i + k], w\<lparr>bufs := c', ns := (ns w)\<lparr>mem := h'\<rparr>\<rparr>)" by auto
  ultimately show ?case using one(3) by (intro exI [of _ c'] exI [of _ h']) simp
qed auto

text \<open>One page of a file that is on the disk, through the pager of its node.\<close>

lemma read_file_page_k:
  assumes fs: "fs_ok d" and im: "imap_ok d FILESYSTEM_I m" and st: "store_ok d st"
    and vm: "vm_page_size s = 4096" and blk: "l2b d = 12"
    and u: "upi_at w u = Some \<lparr>upi_np = Some np, upi_type = FILE_DATA, upi_p = p\<rparr>"
    and n: "node_at (ns w) np = Some n" and a: "inode_address d m (unat (ucast (cache_id n) :: u32)) = Some a"
    and a512: "a + 512 \<le> dk_size d"
    and t: "xt_repr d (di_btroot (dinode_of (disk_slice d a 512))) t" "xt_wf 0 hi t" "xt_nonempty t \<or> (\<exists>xs. t = XLeaf xs)"
    and c: "idle (bufs w)" and h: "mem_ok (mem (ns w))"
    and len: "unat (st_size (dn_stat n)) = len" and disk: "file_on_disk d st t len"
    and k: "k < page_count len"
  shows "\<exists>c' h'. idle c' \<and> mem_ok h' \<and> pager_read_page d s st u (of_nat (4096 * k)) w =
    run_return (0, 1, Some (map (\<lambda>j. if 4096 * k + j < len then file_byte d t (4096 * k + j) else 0) [0..<4096]),
      w\<lparr>bufs := c', ns := (ns w)\<lparr>mem := h'\<rparr>\<rparr>)"
proof -
  have lt: "4096 * k < len" "len + 4096 \<le> 2 ^ 32" using page_count_less [OF k] disk by (simp_all add: file_on_disk_def)
  define page where "page = (of_nat (4096 * k) :: u32)"
  have pg: "unat page = 4096 * k"
    using lt take_bit_nat_eq_self [of "4096 * k" 32] by (simp only: page_def unsigned_of_nat) simp
  obtain b where b: "file_block t k = Some b" "b * 4096 + 4096 \<le> dk_size d" "b * 4096 div 2 ^ log2_block_size st < 2 ^ 31"
    using disk k by (cases "file_block t k") (auto simp: file_on_disk_def list_all_iff dest!: bspec [of _ _ k])
  obtain x where x: "xt_find t k = Some x" "b = xa x + (k - xo x)" using b(1) by (auto simp: file_block_def)
  have "\<exists>w'. pager_read_page d s st u page w = run_return (0, 1, Some (page_bytes d b (unat page) len), w')
    \<and> (\<exists>c' h'. w' = w\<lparr>bufs := c', ns := (ns w)\<lparr>mem := h'\<rparr>\<rparr> \<and> idle c' \<and> mem_ok h')"
    by (rule pager_read_file [OF fs im st vm blk u n a a512 t c h, where x = x]) (use lt len b(2,3) x in \<open>simp_all add: pg\<close>)
  then show ?thesis unfolding pg page_bytes_file [OF blk b(1)] page_def [symmetric] by auto
qed

lemma read_pages_file:
  assumes fs: "fs_ok d" and im: "imap_ok d FILESYSTEM_I m" and st: "store_ok d st"
    and vm: "vm_page_size s = 4096" and blk: "l2b d = 12"
    and u: "upi_at w u = Some \<lparr>upi_np = Some np, upi_type = FILE_DATA, upi_p = p\<rparr>"
    and n: "node_at (ns w) np = Some n" and a: "inode_address d m (unat (ucast (cache_id n) :: u32)) = Some a"
    and a512: "a + 512 \<le> dk_size d"
    and t: "xt_repr d (di_btroot (dinode_of (disk_slice d a 512))) t" "xt_wf 0 hi t" "xt_nonempty t \<or> (\<exists>xs. t = XLeaf xs)"
    and c: "idle (bufs w)" and h: "mem_ok (mem (ns w))"
    and len: "unat (st_size (dn_stat n)) = len" and disk: "file_on_disk d st t len"
  shows "\<exists>bs w'. read_pages d s st u 0 (page_count len) w = run_return (map (\<lambda>b. (0, Some b)) bs, w')
    \<and> concat bs = file_bytes d t len @ replicate (4096 * page_count len - len) 0 \<and> idle (bufs w') \<and> mem_ok (mem (ns w'))"
proof -
  define f where "f k = map (\<lambda>j. if 4096 * k + j < len then file_byte d t (4096 * k + j) else 0) [0..<4096]" for k
  have page: "\<exists>c' h'. idle c' \<and> mem_ok h' \<and>
      pager_read_page d s st u (of_nat (4096 * k)) (w\<lparr>bufs := c, ns := (ns w)\<lparr>mem := h\<rparr>\<rparr>) =
        run_return (0, 1, Some (f k), w\<lparr>bufs := c', ns := (ns w)\<lparr>mem := h'\<rparr>\<rparr>)"
    if k: "k < page_count len" and ok: "idle c" "mem_ok h" for k c h
    using read_file_page_k [OF fs im st vm blk _ _ a a512 t _ _ len disk k, of "w\<lparr>bufs := c, ns := (ns w)\<lparr>mem := h\<rparr>\<rparr>" u np p] u n ok
    by (simp add: f_def)
  from read_pages_each [where f = f and i = 0, OF page c h order_refl [of "0 + page_count len"]] obtain c' h' where
    r: "idle c'" "mem_ok h'" "read_pages d s st u 0 (page_count len) w =
      run_return (map (\<lambda>j. (0, Some (f j))) [0..<page_count len], w\<lparr>bufs := c', ns := (ns w)\<lparr>mem := h'\<rparr>\<rparr>)" by auto
  moreover have "concat (map f [0..<page_count len]) = file_bytes d t len @ replicate (4096 * page_count len - len) 0"
    using pages_are_file unfolding f_def by simp
  ultimately show ?thesis
    by (intro exI [of _ "map f [0..<page_count len]"] exI [of _ "w\<lparr>bufs := c', ns := (ns w)\<lparr>mem := h'\<rparr>\<rparr>"]) (simp add: comp_def)
qed

end
