(* ===== verification/Jfs_Serve.thy ===== *)
theory Jfs_Serve
  imports Jfs_System Jfs_Contents
begin

text \<open>
  The translator against an abstract file system: directories are lists of entries and files sequences of bytes, and nothing
  changes. A request shows an event, what was asked and what was answered; the state of the node cache, of the pagers and of the
  page buffers is not seen. Every event of a running translator is one the abstract file system allows, and requests are answered.
\<close>

section \<open>The abstract file system\<close>

record afs =
  a_dirs :: "u32 \<Rightarrow> dentry list option"
  a_files :: "u32 \<Rightarrow> bytes option"

text \<open>
  Lookup of a name in a directory, with the result code and the number of the node returned; a listing from a position,
  with the number and the name of each record; a page of a file; the size in the attributes of a file; anything else.
\<close>

datatype event = Looked u32 bytes int "u32 option" | Listed u32 nat "(u64 \<times> bytes) list"
  | Paged u32 u32 int "bytes option" | Sized u32 u64 | Internal

definition page_of :: "bytes \<Rightarrow> nat \<Rightarrow> bytes" where
  "page_of bs p = map (\<lambda>j. if p + j < length bs then bs ! (p + j) else 0) [0..<4096]"

fun answers :: "afs \<Rightarrow> event \<Rightarrow> bool" where
  "answers A (Looked i name err r) \<longleftrightarrow> (case a_dirs A i of None \<Rightarrow> False
     | Some es \<Rightarrow> (case find (name_matches name) es of Some e \<Rightarrow> err = 0 \<and> r = Some (fst e) | None \<Rightarrow> err = ENOENT \<and> r = None))"
| "answers A (Listed i k rs) \<longleftrightarrow> (case a_dirs A i of None \<Rightarrow> False
     | Some es \<Rightarrow> rs = map (\<lambda>e. (ucast (fst e), shown_name (snd e) @ [0])) (take 30 (drop k es)))"
| "answers A (Paged i page rc buf) \<longleftrightarrow> (case a_files A i of None \<Rightarrow> False
     | Some bs \<Rightarrow> rc = 0 \<and> buf = Some (page_of bs (unat page)))"
| "answers A (Sized i n) \<longleftrightarrow> (case a_files A i of None \<Rightarrow> False | Some bs \<Rightarrow> unat n = length bs)"
| "answers A Internal \<longleftrightarrow> True"

section \<open>Disks that hold it\<close>

definition on_disk :: "fs \<Rightarrow> xtree \<Rightarrow> u32 \<Rightarrow> bool" where
  "on_disk d t i \<longleftrightarrow> (\<exists>a. inode_address d t (unat i) = Some a \<and> a + 512 \<le> dk_size d)"

definition file_at :: "fs \<Rightarrow> store \<Rightarrow> xtree \<Rightarrow> u32 \<Rightarrow> bytes \<Rightarrow> bool" where
  "file_at d st t i bs \<longleftrightarrow> (\<exists>a ft hi. inode_address d t (unat i) = Some a \<and> a + 512 \<le> dk_size d
     \<and> S_ISREG (di_mode (dinode_of (disk_slice d a 512))) \<and> unat (di_size (dinode_of (disk_slice d a 512))) = length bs
     \<and> xt_repr d (di_btroot (dinode_of (disk_slice d a 512))) ft \<and> xt_wf 0 hi ft \<and> (xt_nonempty ft \<or> (\<exists>xs. ft = XLeaf xs))
     \<and> file_on_disk d st ft (length bs) \<and> bs = file_bytes d ft (length bs))"

text \<open>Blocks of 4096 bytes; the entries of every directory have inodes, and names without zero bytes.\<close>

definition represents :: "fs \<Rightarrow> store \<Rightarrow> xtree \<Rightarrow> afs \<Rightarrow> bool" where
  "represents d st t A \<longleftrightarrow> fs_ok d \<and> l2b d = 12 \<and> store_ok d st \<and> imap_ok d FILESYSTEM_I t \<and> a_dirs A 2 \<noteq> None
     \<and> (\<forall>i es. a_dirs A i = Some es \<longrightarrow> dir_at d t i es \<and> (\<forall>e \<in> set es. on_disk d t (fst e) \<and> 0 \<notin> set (shown_name (snd e))))
     \<and> (\<forall>i bs. a_files A i = Some bs \<longrightarrow> file_at d st t i bs)"

text \<open>A library that gives a node whenever it has memory, and no exceptions.\<close>

definition sound_sys :: "sys \<Rightarrow> node \<Rightarrow> bool" where
  "sound_sys s n0 \<longleftrightarrow> catch_exception s = 0
     \<and> (\<forall>h. mem_ok h \<longrightarrow> fst (make_node s h) = Some n0 \<and> mem_ok (snd (make_node s h)))"

text \<open>A name a client may look up.\<close>

definition plain_name :: "bytes \<Rightarrow> bool" where
  "plain_name name \<longleftrightarrow> name \<noteq> [] \<and> hd name \<noteq> 0x2e \<and> 0 \<notin> set name \<and> length name \<le> sizeof_UTF8_Buffer"

section \<open>Requests\<close>

text \<open>
  Requests that returned. Lookups and listings are made of directories, page-ins of whole pages inside files through the
  pager of the node; the libraries also map nodes, end, soften and count pagers, end nodes, and lock and count references.
\<close>

inductive serve_step :: "fs \<Rightarrow> sys \<Rightarrow> store \<Rightarrow> afs \<Rightarrow> world \<Rightarrow> event \<Rightarrow> world \<Rightarrow> bool" for d s st A where
  looks: "node_at (ns w) dp = Some n \<Longrightarrow> a_dirs A (ucast (cache_id n)) = Some es \<Longrightarrow> plain_name name \<Longrightarrow> lookup_type_ok lib type \<Longrightarrow>
    diskfs_lookup_hard d s lib root dp name type True old (ns w) = run_return (err, r, n') \<Longrightarrow>
    serve_step d s st A w
      (Looked (ucast (cache_id n)) name err (Option.bind r (\<lambda>np. map_option (\<lambda>(i, _). ucast i) (attr_of n' np)))) (w\<lparr>ns := n'\<rparr>)"
| lists: "node_at (ns w) dp = Some n \<Longrightarrow> a_dirs A (ucast (cache_id n)) = Some es \<Longrightarrow> list_all (\<lambda>e. length (snd e) < 100) es \<Longrightarrow>
    off_d_name ly < sizeof_dirent ly \<Longrightarrow> 0 \<le> entry \<Longrightarrow> recs_size ly (take 30 (drop (nat entry) es)) \<le> space \<Longrightarrow>
    diskfs_get_directs d ly space (cache_id n) entry (mem (ns w)) = run_return (amt, cnt, rs, h) \<Longrightarrow>
    serve_step d s st A w (Listed (ucast (cache_id n)) (nat entry) (map (\<lambda>(off, r). (d_ino r, d_name r)) rs))
      (w\<lparr>ns := (ns w)\<lparr>mem := h\<rparr>\<rparr>)"
| pages: "node_at (ns w) np = Some n \<Longrightarrow> fileinfo (dn n) = Some u \<Longrightarrow> a_files A (ucast (cache_id n)) = Some bs \<Longrightarrow>
    unat page < length bs \<Longrightarrow> unat page mod 4096 = 0 \<Longrightarrow> pager_read_page d s st u page w = run_return (rc, wl, buf, w') \<Longrightarrow>
    serve_step d s st A w (Paged (ucast (cache_id n)) page rc buf) w'"
| sizes: "node_at (ns w) np = Some n \<Longrightarrow> a_files A (ucast (cache_id n)) = Some bs \<Longrightarrow>
    serve_step d s st A w (Sized (ucast (cache_id n)) (st_size (dn_stat n))) w"
| maps: "diskfs_get_filemap plib np w = run_return (right, w') \<Longrightarrow> serve_step d s st A w Internal w'"
| clears: "pager_clear_user_data u w = run_return w' \<Longrightarrow> serve_step d s st A w Internal w'"
| softens: "change_softrefs b np w = run_return w' \<Longrightarrow> serve_step d s st A w Internal w'"
| users: "diskfs_pager_users plib w = run_return (k, w') \<Longrightarrow> serve_step d s st A w Internal w'"
| ends: "diskfs_node_norefs np (ns w) = run_return n' \<Longrightarrow> serve_step d s st A w Internal (w\<lparr>ns := n'\<rparr>)"
| unlocks: "mutex_unlock np (ns w) = run_return n' \<Longrightarrow> serve_step d s st A w Internal (w\<lparr>ns := n'\<rparr>)"
| locks: "mutex_lock np (ns w) = run_return n' \<Longrightarrow> serve_step d s st A w Internal (w\<lparr>ns := n'\<rparr>)"
| counts: "serve_step d s st A w Internal (w\<lparr>ns := upd_node np (references_update f) (ns w)\<rparr>)"

section \<open>Nodes carry their inodes\<close>

definition filled :: "fs \<Rightarrow> xtree \<Rightarrow> sys \<Rightarrow> u64 \<times> stat \<Rightarrow> bool" where
  "filled d t s = (\<lambda>(i, x). \<exists>j a x0. i = ucast (j :: u32) \<and> inode_address d t (unat j) = Some a \<and> a + 512 \<le> dk_size d
     \<and> x = fill_stat s i (dinode_of (disk_slice d a 512)) x0)"

definition nodes_filled :: "fs \<Rightarrow> xtree \<Rightarrow> sys \<Rightarrow> nodes \<Rightarrow> bool" where
  "nodes_filled d t s w \<longleftrightarrow> (\<forall>a x. attr_of w a = Some x \<longrightarrow> filled d t s x)"

text \<open>What holds of the nodes between two requests.\<close>

definition nodes_ok :: "fs \<Rightarrow> xtree \<Rightarrow> sys \<Rightarrow> nodes \<Rightarrow> bool" where
  "nodes_ok d t s w \<longleftrightarrow> \<not> refcnt_lock w \<and> mem_ok (mem w) \<and> nodes_filled d t s w"

definition serve_ok :: "fs \<Rightarrow> store \<Rightarrow> xtree \<Rightarrow> afs \<Rightarrow> sys \<Rightarrow> node \<Rightarrow> world \<Rightarrow> bool" where
  "serve_ok d st t A s n0 w \<longleftrightarrow> represents d st t A \<and> sound_sys s n0 \<and> vm_page_size s = 4096
     \<and> world_ok w \<and> nodes_ok d t s (ns w)"

lemma ucast_ucast_ino: "(ucast (ucast (j :: u32) :: u64) :: u32) = j"
  by (rule bit_word_eqI) (auto simp: bit_simps)

lemma node_filled:
  assumes "nodes_filled d t s w" and "node_at w np = Some n"
  obtains a x0 where "cache_id n = ucast (ucast (cache_id n) :: u32)"
    and "inode_address d t (unat (ucast (cache_id n) :: u32)) = Some a" and "a + 512 \<le> dk_size d"
    and "dn_stat n = fill_stat s (cache_id n) (dinode_of (disk_slice d a 512)) x0"
proof -
  have "filled d t s (cache_id n, dn_stat n)" using assms by (auto simp: nodes_filled_def attr_of_def)
  then obtain j a x0 where j: "cache_id n = ucast (j :: u32)" "inode_address d t (unat j) = Some a" "a + 512 \<le> dk_size d"
    "dn_stat n = fill_stat s (cache_id n) (dinode_of (disk_slice d a 512)) x0" by (auto simp: filled_def)
  then show ?thesis by (intro that [of a x0]) (simp_all add: ucast_ucast_ino)
qed

text \<open>A lookup of an inode that is on the disk gives a node with that number, and keeps all nodes filled.\<close>

lemma lookup_serves:
  assumes fs: "fs_ok d" and im: "imap_ok d FILESYSTEM_I t" and s: "sound_sys s n0" and i: "on_disk d t j"
    and ok: "cache_ok w" "nodes_ok d t s w"
    and ret: "diskfs_cached_lookup d s (ucast j) w = run_return (err, r, w')"
  shows "err = 0 \<and> (\<exists>np x. r = Some np \<and> attr_of w' np = Some (ucast j, x)) \<and> nodes_ok d t s w'"
proof -
  have w: "\<not> refcnt_lock w" "mem_ok (mem w)" "nodes_filled d t s w" using ok(2) by (simp_all add: nodes_ok_def)
  show ?thesis
  proof (cases "node_map w (ucast j)")
    case (Some np)
    then obtain n where n: "node_at w np = Some n" "cache_id n = ucast j" using node_map_Some [OF ok(1)] by (auto simp: cached_def)
    from cached_lookup_found [OF ok(1) w(1) Some n(1), of d s] ret have
      "err = 0" "r = Some np" "w' = w\<lparr>refcnt_lock := False, node_at := (node_at w)(np \<mapsto> n\<lparr>references := references n + 1, node_lock := True\<rparr>)\<rparr>"
      by (auto split: if_splits)
    moreover have "(attr_of w)(np \<mapsto> (cache_id n, dn_stat n)) = attr_of w" "attr_of w np = Some (ucast j, dn_stat n)"
      using n by (auto simp: attr_of_def)
    ultimately show ?thesis using w n(2) attr_of_fields(4) [of "w\<lparr>refcnt_lock := False\<rparr>" np]
      by (simp add: nodes_ok_def nodes_filled_def)
  next
    case None
    obtain h1 where h1: "malloc (mem w) = (True, h1)" "mem_ok h1" using mem_ok_malloc [OF w(2)] by (cases "malloc (mem w)") auto
    then obtain h2 where h2: "make_node s h1 = (Some n0, h2)" "mem_ok h2"
      using s by (cases "make_node s h1") (auto simp: sound_sys_def)
    obtain a where a: "inode_address d t (unat j) = Some a" "a + 512 \<le> dk_size d" using i by (auto simp: on_disk_def)
    have "inode_readable d t (ucast j)" using a by (simp add: inode_readable_def ucast_ucast_ino)
    from cached_lookup_new [OF fs im this ok(1) w(1) None h1(1) h2] ret s a(1) obtain n where
      n: "err = 0" "r = Some (node_fresh w)" "node_at w' (node_fresh w) = Some n" "cache_id n = ucast j" "mem_ok (mem w')" "\<not> refcnt_lock w'"
      "dn_stat n = fill_stat s (ucast j) (dinode_of (disk_slice d a 512)) (dn_stat n0)"
      by (auto simp: ucast_ucast_ino sound_sys_def)
    then have at: "attr_of w' (node_fresh w) = Some (ucast j, dn_stat n)" by (simp add: attr_of_def)
    have "filled d t s (ucast j, dn_stat n)" using a n(7) by (auto simp: filled_def)
    then have "nodes_filled d t s w'"
      using cached_lookup_attr [OF ok(1) None w(1) h1(1) h2(1) ret] at w(3) unfolding nodes_filled_def by (metis option.inject)
    with n at show ?thesis by (auto simp: nodes_ok_def)
  qed
qed

text \<open>And it returns, unless the node is locked.\<close>

definition can_look :: "nodes \<Rightarrow> u64 \<Rightarrow> bool" where
  "can_look w i \<longleftrightarrow> (\<forall>np n. node_map w i = Some np \<longrightarrow> node_at w np = Some n \<longrightarrow> \<not> node_lock n)"

lemma lookup_returns:
  assumes fs: "fs_ok d" and im: "imap_ok d FILESYSTEM_I t" and s: "sound_sys s n0" and i: "on_disk d t j"
    and ok: "cache_ok w" "nodes_ok d t s w" and free: "can_look w (ucast j)"
  obtains err r w' where "diskfs_cached_lookup d s (ucast j) w = run_return (err, r, w')"
proof (cases "node_map w (ucast j)")
  case (Some np)
  then obtain n where n: "node_at w np = Some n" using node_map_Some [OF ok(1)] by (auto simp: cached_def)
  with cached_lookup_found [OF ok(1) _ Some n, of d s] ok(2) free Some that show ?thesis by (simp add: nodes_ok_def can_look_def)
next
  case None
  have w: "\<not> refcnt_lock w" "mem_ok (mem w)" using ok(2) by (simp_all add: nodes_ok_def)
  obtain h1 where h1: "malloc (mem w) = (True, h1)" "mem_ok h1" using mem_ok_malloc [OF w(2)] by (cases "malloc (mem w)") auto
  then obtain h2 where h2: "make_node s h1 = (Some n0, h2)" "mem_ok h2"
    using s by (cases "make_node s h1") (auto simp: sound_sys_def)
  have "inode_readable d t (ucast j)" using i by (auto simp: inode_readable_def ucast_ucast_ino on_disk_def)
  from cached_lookup_new [OF fs im this ok(1) w(1) None h1(1) h2] that show ?thesis by blast
qed

section \<open>What the other requests keep\<close>

definition same_nodes :: "nodes \<Rightarrow> nodes \<Rightarrow> bool" where
  "same_nodes w w' \<longleftrightarrow> refcnt_lock w' = refcnt_lock w \<and> (mem_ok (mem w) \<longrightarrow> mem_ok (mem w')) \<and> (\<forall>a x. attr_of w' a = Some x \<longrightarrow> attr_of w a = Some x)"

lemma same_nodes_ok: "same_nodes w w' \<Longrightarrow> nodes_ok d t s w \<Longrightarrow> nodes_ok d t s w'"
  unfolding same_nodes_def nodes_ok_def nodes_filled_def by blast

lemma same_nodes_refl [simp]: "same_nodes w w"
  by (simp add: same_nodes_def)

lemma same_nodes_trans: "same_nodes w w' \<Longrightarrow> same_nodes w' w'' \<Longrightarrow> same_nodes w w''"
  by (simp add: same_nodes_def)

lemma same_nodes_upd: "(\<And>n. cache_id (f n) = cache_id n \<and> dn_stat (f n) = dn_stat n) \<Longrightarrow> same_nodes w (upd_node a f w)"
  by (simp add: same_nodes_def attr_of_upd) (simp add: upd_node_def)

lemma same_nodes_free [simp]: "same_nodes w (w'\<lparr>mem := free_block (mem w')\<rparr>) = same_nodes w w'"
  by (simp add: same_nodes_def)

lemma same_nodes_malloc: "malloc (mem w) = (b, h) \<Longrightarrow> same_nodes w (w\<lparr>mem := h\<rparr>) \<and> same_nodes w (w\<lparr>mem := free_block h\<rparr>)"
  using mem_ok_malloc [of "mem w"] by (simp add: same_nodes_def)

lemma same_nodes_fileinfo [simp]: "same_nodes w (ns (set_fileinfo np v w')) = same_nodes w (ns w')"
  unfolding set_fileinfo_def by (simp add: same_nodes_def attr_of_upd) (simp add: upd_node_def)

lemma same_nodes_mutex:
  "mutex_lock np w = run_return w' \<Longrightarrow> same_nodes w w'" "mutex_unlock np w = run_return w' \<Longrightarrow> same_nodes w w'"
  by (auto simp: mutex_lock_def mutex_unlock_def with_node_def intro!: same_nodes_upd split: option.splits if_splits)

lemma same_nodes_norefs:
  assumes "cache_ok w" and "diskfs_node_norefs np w = run_return w'"
  shows "same_nodes w w'"
proof -
  obtain n w1 where "node_at w np = Some n" and "node_map w (cache_id n) = Some np" and w1: "same_but_links w w1"
    and "cache_ok (w1\<lparr>node_at := (node_at w1)(np := None)\<rparr>)"
    and "node_map (w1\<lparr>node_at := (node_at w1)(np := None)\<rparr>) = (node_map w)(cache_id n := None)"
    and w': "w' = w1\<lparr>node_at := (node_at w1)(np := None), mem := free_block (free_block (mem w1))\<rparr>"
    by (rule node_norefs_effect [OF assms])
  have "attr_of w' = (attr_of w)(np := None)" using attr_of_links [OF w1] by (simp add: w')
  then show ?thesis using w1 by (auto simp: same_nodes_def w' same_but_links_def)
qed

lemma filemap_round_nodes:
  assumes "get_filemap_round lib np w = run_return x"
  shows "case x of Inl w' \<Rightarrow> same_nodes (ns w) (ns w') | Inr (r, w') \<Rightarrow> same_nodes (ns w) (ns w')"
proof -
  obtain n where n: "node_at (ns w) np = Some n"
    using assms by (cases "node_at (ns w) np") (simp_all add: get_filemap_round_def with_node_def)
  obtain ok h where m: "malloc (mem (ns w)) = (ok, h)" by (cases "malloc (mem (ns w))")
  note same = same_nodes_malloc [OF m]
  show ?thesis
  proof (cases "fileinfo (dn n)")
    case None
    with assms n show ?thesis
      by (auto simp: get_filemap_round_def with_node_def m Let_def run_iff same split: option.splits)
  next
    case (Some u)
    with assms n show ?thesis
      by (auto simp: get_filemap_round_def with_node_def with_upi_def deref_def split: option.splits)
  qed
qed

lemma get_filemap_nodes:
  assumes "diskfs_get_filemap lib np w = run_return (r, w')"
  shows "same_nodes (ns w) (ns w')"
proof -
  have "run_loop (get_filemap_round lib np) (w\<lparr>node2pagelock := True\<rparr>) = run_return (r, w')"
    using assms by (auto simp: diskfs_get_filemap_def with_node_def page_lock_def run_iff split: option.splits if_splits)
  then have "case (r, w') of (r, w') \<Rightarrow> same_nodes (ns w) (ns w')"
  proof (rule run_loop_invariant [where I = "\<lambda>v. same_nodes (ns w) (ns v)"])
    fix v v' assume "same_nodes (ns w) (ns v)" "get_filemap_round lib np v = run_return (Inl v')"
    then show "same_nodes (ns w) (ns v')" using filemap_round_nodes [of lib np v "Inl v'"] by (auto intro: same_nodes_trans)
  next
    fix v y assume "same_nodes (ns w) (ns v)" "get_filemap_round lib np v = run_return (Inr y)"
    then show "case y of (r, v') \<Rightarrow> same_nodes (ns w) (ns v')"
      using filemap_round_nodes [of lib np v "Inr y"] by (auto intro: same_nodes_trans)
  qed simp
  then show ?thesis by simp
qed

lemma clear_user_data_nodes:
  assumes ret: "pager_clear_user_data u w = run_return w'"
  shows "same_nodes (ns w) (ns w')"
proof -
  obtain i where i: "upi_at w u = Some i"
    using ret by (auto simp: pager_clear_user_data_def with_upi_def split: option.splits)
  show ?thesis
  proof (cases "upi_type i")
    case DISK
    with ret i show ?thesis by (auto simp: pager_clear_user_data_def with_upi_def)
  next
    case FILE_DATA
    then have "\<not> node2pagelock w"
      using ret i by (auto simp: pager_clear_user_data_def with_upi_def page_lock_def run_iff split: if_splits)
    with FILE_DATA obtain np n where "upi_np i = Some np" "node_at (ns w) np = Some n"
      using ret i by (auto simp: pager_clear_user_data_def with_upi_def page_lock_def deref_def with_node_def run_iff split: option.splits if_splits)
    with ret i FILE_DATA show ?thesis
      by (auto simp: pager_clear_user_data_def with_upi_def page_lock_def deref_def with_node_def split: if_splits)
  qed
qed

lemma change_softrefs_nodes: "change_softrefs b np w = run_return w' \<Longrightarrow> ns w' = ns w"
  by (auto simp: change_softrefs_def page_lock_def with_node_def with_upi_def deref_def split: option.splits if_splits)

section \<open>Every request answers as the specification says\<close>

lemma representsD:
  assumes "represents d st t A"
  shows "fs_ok d" and "l2b d = 12" and "store_ok d st" and "imap_ok d FILESYSTEM_I t" and "a_dirs A 2 \<noteq> None"
    and "a_dirs A i = Some es \<Longrightarrow> dir_at d t i es"
    and "a_dirs A i = Some es \<Longrightarrow> e \<in> set es \<Longrightarrow> on_disk d t (fst e) \<and> 0 \<notin> set (shown_name (snd e))"
    and "a_files A i = Some bs \<Longrightarrow> file_at d st t i bs"
  using assms by (simp_all add: represents_def)

lemma looks_calls:
  assumes ok: "serve_ok d st t A s n0 w" and n: "node_at (ns w) dp = Some n" and es: "a_dirs A (ucast (cache_id n)) = Some es"
    and nm: "plain_name name" and ty: "lookup_type_ok lib type"
  obtains v where "cache_ok v" and "nodes_ok d t s v" and "cache_step d (ns w) v" and "\<forall>i. can_look v i = can_look (ns w) i"
    and "diskfs_lookup_hard d s lib root dp name type True old (ns w) = (case find (name_matches name) es of
       Some e \<Rightarrow> diskfs_cached_lookup d s (ucast (fst e)) v
     | None \<Rightarrow> if es = [] then run_fault Uninit_Read else run_return (ENOENT, None, v))"
proof -
  have R: "represents d st t A" and c: "cache_ok (ns w)" and N: "nodes_ok d t s (ns w)"
    using ok by (simp_all add: serve_ok_def world_ok_def)
  note rep = representsD [OF R]
  have h: "mem_ok (mem (ns w))" using N by (simp add: nodes_ok_def)
  obtain h' where h': "mem_ok h'" "diskfs_lookup_hard d s lib root dp name type True old (ns w) =
    (case find (name_matches name) es of
       Some e \<Rightarrow> diskfs_cached_lookup d s (ucast (fst e)) ((ns w)\<lparr>mem := h'\<rparr>)
     | None \<Rightarrow> if es = [] then run_fault Uninit_Read else run_return (ENOENT, None, (ns w)\<lparr>mem := h'\<rparr>))"
    using lookup_hard_finds [OF rep(1) n rep(6) [OF es] h ty, of name s root old] nm by (auto simp: plain_name_def)
  show ?thesis
    by (rule that [OF _ _ cache_step.heap [of d "ns w" h'] _ h'(2)])
      (use same_cache_ok [of "ns w" "(ns w)\<lparr>mem := h'\<rparr>"] cache_cong [of "(ns w)\<lparr>mem := h'\<rparr>" "ns w"] c N h'(1)
        in \<open>simp_all add: nodes_ok_def nodes_filled_def can_look_def\<close>)
qed

lemma find_on_disk:
  "represents d st t A \<Longrightarrow> a_dirs A i = Some es \<Longrightarrow> find P es = Some e \<Longrightarrow> on_disk d t (fst e)"
  using representsD(7) [of d st t A i es e] by (metis find_Some_iff nth_mem)

lemma looks_answers:
  assumes ok: "serve_ok d st t A s n0 w" and n: "node_at (ns w) dp = Some n" and es: "a_dirs A (ucast (cache_id n)) = Some es"
    and nm: "plain_name name" and ty: "lookup_type_ok lib type"
    and ret: "diskfs_lookup_hard d s lib root dp name type True old (ns w) = run_return (err, r, n')"
  shows "answers A (Looked (ucast (cache_id n)) name err (Option.bind r (\<lambda>np. map_option (\<lambda>(i, _). ucast i) (attr_of n' np))))
    \<and> nodes_ok d t s n' \<and> (cache_step d)\<^sup>*\<^sup>* (ns w) n'"
proof -
  have R: "represents d st t A" and s: "sound_sys s n0" using ok by (simp_all add: serve_ok_def)
  obtain v where v: "cache_ok v" "nodes_ok d t s v" "cache_step d (ns w) v" and
    f: "diskfs_lookup_hard d s lib root dp name type True old (ns w) = (case find (name_matches name) es of
       Some e \<Rightarrow> diskfs_cached_lookup d s (ucast (fst e)) v
     | None \<Rightarrow> if es = [] then run_fault Uninit_Read else run_return (ENOENT, None, v))"
    using looks_calls [OF ok n es nm ty] by metis
  show ?thesis
  proof (cases "find (name_matches name) es")
    case None
    with ret f es v(2,3) show ?thesis by (auto split: if_splits)
  next
    case (Some e)
    then have lk: "diskfs_cached_lookup d s (ucast (fst e)) v = run_return (err, r, n')" using ret f by simp
    with lookup_serves [OF representsD(1,4) [OF R] s find_on_disk [OF R es Some] v(1,2)]
    have "err = 0 \<and> (\<exists>np x. r = Some np \<and> attr_of n' np = Some (ucast (fst e), x)) \<and> nodes_ok d t s n'" by blast
    moreover have "(cache_step d)\<^sup>*\<^sup>* (ns w) n'" using v(3) cache_step.lookup [OF lk] by auto
    ultimately show ?thesis using es Some by (auto simp: ucast_ucast_ino)
  qed
qed

lemma lookup_hard_returns:
  assumes ok: "serve_ok d st t A s n0 w" and n: "node_at (ns w) dp = Some n" and es: "a_dirs A (ucast (cache_id n)) = Some es" "es \<noteq> []"
    and nm: "plain_name name" and ty: "lookup_type_ok lib type"
    and free: "\<forall>e. find (name_matches name) es = Some e \<longrightarrow> can_look (ns w) (ucast (fst e))"
  shows "\<exists>err r n'. diskfs_lookup_hard d s lib root dp name type True old (ns w) = run_return (err, r, n')"
proof -
  have R: "represents d st t A" and s: "sound_sys s n0" using ok by (simp_all add: serve_ok_def)
  obtain v where v: "cache_ok v" "nodes_ok d t s v" "\<forall>i. can_look v i = can_look (ns w) i" and
    f: "diskfs_lookup_hard d s lib root dp name type True old (ns w) = (case find (name_matches name) es of
       Some e \<Rightarrow> diskfs_cached_lookup d s (ucast (fst e)) v
     | None \<Rightarrow> if es = [] then run_fault Uninit_Read else run_return (ENOENT, None, v))"
    using looks_calls [OF ok n es(1) nm ty] by metis
  show ?thesis
  proof (cases "find (name_matches name) es")
    case (Some e)
    then have "can_look v (ucast (fst e))" using free v(3) by blast
    from lookup_returns [OF representsD(1,4) [OF R] s find_on_disk [OF R es(1) Some] v(1,2) this] f Some
    show ?thesis by (metis option.simps(5))
  qed (use f es(2) in simp)
qed

lemma lists_answers:
  assumes ok: "serve_ok d st t A s n0 w" and n: "node_at (ns w) dp = Some n" and es: "a_dirs A (ucast (cache_id n)) = Some es"
    and short: "list_all (\<lambda>e. length (snd e) < 100) es" and ly: "off_d_name ly < sizeof_dirent ly"
    and k: "0 \<le> entry" "recs_size ly (take 30 (drop (nat entry) es)) \<le> space"
  shows "\<exists>amt cnt rs h. diskfs_get_directs d ly space (cache_id n) entry (mem (ns w)) = run_return (amt, cnt, rs, h) \<and> mem_ok h
    \<and> answers A (Listed (ucast (cache_id n)) (nat entry) (map (\<lambda>(off, r). (d_ino r, d_name r)) rs))"
proof -
  have R: "represents d st t A" and h: "mem_ok (mem (ns w))" using ok by (simp_all add: serve_ok_def nodes_ok_def)
  note rep = representsD [OF R]
  define ls where "ls = take 30 (drop (nat entry) es)"
  obtain amt cnt h' where g: "diskfs_get_directs d ly space (cache_id n) entry (mem (ns w)) = run_return (amt, cnt, place_recs ly 0 ls, h')" "mem_ok h'"
    using get_directs_returns [OF rep(1) rep(6) [OF es] short ly h k(1) ls_def] k(2) unfolding ls_def [symmetric] by blast
  have "map (\<lambda>(off, r). (d_ino r, d_name r)) (place_recs ly o0 xs) = map (\<lambda>e. (ucast (fst e), shown_name (snd e) @ [0])) xs"
    if "\<forall>e \<in> set xs. 0 \<notin> set (shown_name (snd e))" for o0 xs
    using that by (induction xs arbitrary: o0) (simp_all add: dirent_name, simp add: dirent_for_def)
  moreover have "\<forall>e \<in> set ls. 0 \<notin> set (shown_name (snd e))"
    using rep(7) [OF es] by (auto simp: ls_def dest!: in_set_takeD in_set_dropD)
  ultimately show ?thesis using g es by (auto simp: ls_def)
qed

lemma fill_stat_file:
  assumes "S_ISREG (di_mode di)"
  shows "S_ISREG (st_mode (fill_stat s i di st))" and "st_size (fill_stat s i di st) = di_size di"
proof -
  have "\<not> S_ISLNK (di_mode di)" "\<not> S_ISDIR (di_mode di)"
    using assms by (simp_all add: S_ISREG_def S_ISLNK_def S_ISDIR_def)
  then show "S_ISREG (st_mode (fill_stat s i di st))" "st_size (fill_stat s i di st) = di_size di"
    by (simp_all add: fill_stat_def Let_def) (simp add: S_ISREG_def S_IFMT_def S_IFREG_def)
qed

lemma pages_answers:
  assumes ok: "serve_ok d st t A s n0 w" and n: "node_at (ns w) np = Some n" "fileinfo (dn n) = Some u"
    and bs: "a_files A (ucast (cache_id n)) = Some bs" and page: "unat page < length bs" "unat page mod 4096 = 0"
  shows "\<exists>c h. idle c \<and> mem_ok h \<and> pager_read_page d s st u page w =
    run_return (0, 1, Some (page_of bs (unat page)), w\<lparr>bufs := c, ns := (ns w)\<lparr>mem := h\<rparr>\<rparr>)"
proof -
  have R: "represents d st t A" and vm: "vm_page_size s = 4096" and w: "pagers_ok w" "idle (bufs w)" "mem_ok (mem (ns w))"
    and N: "nodes_filled d t s (ns w)" using ok by (simp_all add: serve_ok_def world_ok_def nodes_ok_def)
  note rep = representsD [OF R]
  obtain p where u: "upi_at w u = Some \<lparr>upi_np = Some np, upi_type = FILE_DATA, upi_p = Some p\<rparr>"
    using w(1) n unfolding pagers_ok_def by blast
  obtain a ft hi where f: "inode_address d t (unat (ucast (cache_id n) :: u32)) = Some a" "a + 512 \<le> dk_size d"
    "S_ISREG (di_mode (dinode_of (disk_slice d a 512)))" "unat (di_size (dinode_of (disk_slice d a 512))) = length bs"
    "xt_repr d (di_btroot (dinode_of (disk_slice d a 512))) ft" "xt_wf 0 hi ft" "xt_nonempty ft \<or> (\<exists>xs. ft = XLeaf xs)"
    "file_on_disk d st ft (length bs)" "bs = file_bytes d ft (length bs)"
    using rep(8) [OF bs] by (auto simp: file_at_def)
  obtain a' x0 where "inode_address d t (unat (ucast (cache_id n) :: u32)) = Some a'"
    "dn_stat n = fill_stat s (cache_id n) (dinode_of (disk_slice d a' 512)) x0" using node_filled [OF N n(1)] by metis
  then have len: "unat (st_size (dn_stat n)) = length bs" using f(1,3,4) fill_stat_file(2) [OF f(3)] by simp
  define k where "k = unat page div 4096"
  have pg: "unat page = 4096 * k" using page(2) div_mult_mod_eq [of "unat page" 4096] by (simp add: k_def)
  have k: "k < page_count (length bs)" using page(1) page_count_covers [of "length bs"] pg by simp
  have "page = of_nat (4096 * k)" using pg by (metis of_nat_unat ucast_id)
  with read_file_page_k [OF rep(1,4,3) vm rep(2) u n(1) f(1,2,5-7) w(2,3) len f(8) k] obtain c h where
    "idle c" "mem_ok h" "pager_read_page d s st u page w = run_return (0, 1,
      Some (map (\<lambda>j. if 4096 * k + j < length bs then file_byte d ft (4096 * k + j) else 0) [0..<4096]), w\<lparr>bufs := c, ns := (ns w)\<lparr>mem := h\<rparr>\<rparr>)"
    by auto
  moreover have "bs ! i = file_byte d ft i" if "i < length bs" for i
    by (subst f(9)) (use that in \<open>simp add: file_bytes_def\<close>)
  ultimately show ?thesis by (auto simp: page_of_def pg cong: map_cong if_cong)
qed

text \<open>One request.\<close>

lemma sizes_answers:
  assumes ok: "serve_ok d st t A s n0 w" and n: "node_at (ns w) np = Some n" and bs: "a_files A (ucast (cache_id n)) = Some bs"
  shows "answers A (Sized (ucast (cache_id n)) (st_size (dn_stat n)))"
proof -
  have R: "represents d st t A" and N: "nodes_filled d t s (ns w)" using ok by (simp_all add: serve_ok_def nodes_ok_def)
  obtain a where f: "inode_address d t (unat (ucast (cache_id n) :: u32)) = Some a"
    "S_ISREG (di_mode (dinode_of (disk_slice d a 512)))" "unat (di_size (dinode_of (disk_slice d a 512))) = length bs"
    using representsD(8) [OF R bs] by (auto simp: file_at_def)
  obtain a' x0 where "inode_address d t (unat (ucast (cache_id n) :: u32)) = Some a'"
    "dn_stat n = fill_stat s (cache_id n) (dinode_of (disk_slice d a' 512)) x0" using node_filled [OF N n] by metis
  then show ?thesis using f fill_stat_file(2) [OF f(2)] bs by simp
qed

lemma serve_ok_change:
  "serve_ok d st t A s n0 w \<Longrightarrow> world_ok w' \<Longrightarrow> nodes_ok d t s (ns w') \<Longrightarrow> serve_ok d st t A s n0 w'"
  by (simp add: serve_ok_def)

lemma serve_step_answers:
  "serve_step d s st A w e w' \<Longrightarrow> serve_ok d st t A s n0 w \<Longrightarrow> answers A e \<and> serve_ok d st t A s n0 w'"
proof (induction rule: serve_step.induct)
  case (looks w dp n es name lib type root old err r n')
  have "world_ok w" using looks(6) by (simp add: serve_ok_def)
  with looks_answers [OF looks(6,1-5)] world_ok_nodes [of w d n'] serve_ok_change [OF looks(6), of "w\<lparr>ns := n'\<rparr>"] show ?case by simp
next
  case (lists w dp n es ly entry space amt cnt rs h)
  from lists_answers [OF lists(8,1-6)] lists(7) have r: "mem_ok h"
    "answers A (Listed (ucast (cache_id n)) (nat entry) (map (\<lambda>(off, r). (d_ino r, d_name r)) rs))" by auto
  have "world_ok (w\<lparr>ns := (ns w)\<lparr>mem := h\<rparr>\<rparr>)" "nodes_ok d t s ((ns w)\<lparr>mem := h\<rparr>)"
    using lists(8) r(1) world_ok_nodes [of w d "(ns w)\<lparr>mem := h\<rparr>"] cache_step.heap [of d "ns w" h]
    by (auto simp: serve_ok_def nodes_ok_def nodes_filled_def)
  with r(2) serve_ok_change [OF lists(8), of "w\<lparr>ns := (ns w)\<lparr>mem := h\<rparr>\<rparr>"] show ?case by simp
next
  case (pages w np n u bs page rc wl buf w')
  from pages_answers [OF pages(7,1-5)] pages(6) obtain c h where r: "idle c" "mem_ok h" "rc = 0" "buf = Some (page_of bs (unat page))"
    "w' = w\<lparr>bufs := c, ns := (ns w)\<lparr>mem := h\<rparr>\<rparr>" by auto
  have "world_ok w'" "nodes_ok d t s (ns w')"
    using pages(7) r(2,5) world_ok_mem [OF _ r(1), of w h] by (auto simp: serve_ok_def nodes_ok_def nodes_filled_def)
  with r(3,4) pages(3) serve_ok_change [OF pages(7), of w'] show ?case by simp
next
  case (sizes w np n bs)
  from sizes_answers [OF sizes(3,1,2)] sizes(3) show ?case by blast
next
  case (maps plib np w right w')
  then show ?case using get_filemap_keeps [of w plib np right w'] same_nodes_ok [OF get_filemap_nodes [OF maps(1)]] by (simp add: serve_ok_def)
next
  case (clears u w w')
  then show ?case using clear_user_data_keeps [of w u w'] same_nodes_ok [OF clear_user_data_nodes [OF clears(1)]] by (simp add: serve_ok_def)
next
  case (softens b np w w')
  then show ?case using change_softrefs_keeps [of w b np w'] change_softrefs_nodes [OF softens(1)] by (simp add: serve_ok_def)
next
  case (users plib w k w')
  then show ?case using pager_users_calls [OF users(1)] by (auto simp: serve_ok_def world_ok_calls)
next
  case (ends np w n')
  have "cache_ok (ns w)" using ends(2) by (simp add: serve_ok_def world_ok_def)
  from same_nodes_ok [OF same_nodes_norefs [OF this ends(1)]] ends world_ok_nodes [of w d n'] cache_step.norefs [OF ends(1), of d]
  show ?case by (auto simp: serve_ok_def)
next
  case (unlocks np w n')
  from same_nodes_ok [OF same_nodes_mutex(2) [OF unlocks(1)]] unlocks world_ok_nodes [of w d n'] cache_step.unlock [OF unlocks(1), of d]
  show ?case by (auto simp: serve_ok_def)
next
  case (locks np w n')
  from same_nodes_ok [OF same_nodes_mutex(1) [OF locks(1)]] locks world_ok_nodes [of w d n'] cache_step.lock [OF locks(1), of d]
  show ?case by (auto simp: serve_ok_def)
next
  case (counts w np f)
  have "same_nodes (ns w) (upd_node np (references_update f) (ns w))" by (rule same_nodes_upd) simp
  from same_nodes_ok [OF this] counts world_ok_nodes [of w d "upd_node np (references_update f) (ns w)"] cache_step.refs [of d "ns w" np f]
  show ?case by (auto simp: serve_ok_def)
qed

interpretation serve: allowed_events "serve_step d s st A" "serve_ok d st t A s n0" "answers A" for d s st A t n0
  by unfold_locales (use serve_step_answers in blast)+

section \<open>From start-up\<close>

text \<open>The state before \<^verbatim>\<open>main\<close> runs: no nodes, locks free, no page buffer in use.\<close>

definition fresh_world :: "world \<Rightarrow> bool" where
  "fresh_world w \<longleftrightarrow> (\<forall>x. node_at (ns w) x = None) \<and> \<not> refcnt_lock (ns w) \<and> mem_ok (mem (ns w))
     \<and> \<not> node2pagelock w \<and> idle (bufs w)"

definition served :: "disk \<Rightarrow> fs \<Rightarrow> store \<Rightarrow> xtree \<Rightarrow> afs \<Rightarrow> sys \<Rightarrow> node \<Rightarrow> world \<Rightarrow> bool" where
  "served dk d st t A s n0 w \<longleftrightarrow> get_hypermetadata dk = run_return d \<and> represents d st t A \<and> sound_sys s n0
     \<and> vm_page_size s = 4096 \<and> fresh_world w \<and> (\<forall>u \<ge> upi_fresh w. upi_at w u = None)"

lemma start_serves:
  assumes "served dk d st t A s n0 w0"
  shows "\<exists>root w1. main_start plib s dk w0 = run_return (d, Some root, w1) \<and> serve_ok d st t A s n0 w1"
proof -
  have dk: "get_hypermetadata dk = run_return d" and R: "represents d st t A" and s: "sound_sys s n0" "vm_page_size s = 4096"
    and up: "\<And>u. upi_fresh w0 \<le> u \<Longrightarrow> upi_at w0 u = None"
    and w0: "\<And>x. node_at (ns w0) x = None" "\<not> refcnt_lock (ns w0)" "mem_ok (mem (ns w0))" "\<not> node2pagelock w0" "idle (bufs w0)"
    using assms by (simp_all add: served_def fresh_world_def)
  have s': "catch_exception s = 0" "\<And>h. mem_ok h \<Longrightarrow> fst (make_node s h) = Some n0 \<and> mem_ok (snd (make_node s h))"
    using s(1) by (simp_all add: sound_sys_def)
  note rep = representsD [OF R]
  obtain es where "a_dirs A 2 = Some es" using rep(5) by auto
  from rep(6) [OF this] obtain a where a: "inode_address d t 2 = Some a" "a + 512 \<le> dk_size d" by (auto simp: dir_at_def)
  obtain w1 root n where m: "main_start plib s dk w0 = run_return (d, Some root, w1)" "cache_ok (ns w1)"
    "node_map (ns w1) = [2 \<mapsto> root]" "node_at (ns w1) root = Some n" "cache_id n = 2"
    "\<not> refcnt_lock (ns w1)" "mem_ok (mem (ns w1))" "dn_stat n = fill_stat s 2 (dinode_of (disk_slice d a 512)) (dn_stat n0)"
    using main_start_up [OF dk rep(1,4) a w0(1-3) s'] by blast
  have "filled d t s (cache_id n, dn_stat n)"
    using a m(5,8) unfolding filled_def by (auto intro!: exI [of _ "2 :: u32"] exI [of _ a])
  moreover have "x = (cache_id n, dn_stat n)" if at: "attr_of (ns w1) b = Some x" for b x
  proof -
    obtain n' where n': "node_at (ns w1) b = Some n'" "x = (cache_id n', dn_stat n')" using at by (auto simp: attr_of_def)
    then show ?thesis using live_cached [OF m(2) n'(1)] m(3,4) by (auto split: if_splits)
  qed
  ultimately have "nodes_ok d t s (ns w1)" using m(6,7) by (auto simp: nodes_ok_def nodes_filled_def)
  with main_start_keeps [OF w0(1) up w0(5,4) m(1)] R s m(1) show ?thesis by (auto simp: serve_ok_def)
qed

text \<open>
  C2: refinement of a read-only file system. Start the translator on a store that holds an abstract file system and let any
  sequence of requests return, interleaved with nodes being dropped, pagers ended, softened and counted, and references and
  locks taken. Then every answer given is the one the abstract file system, which has no cache and no state, gives: each lookup of
  a name returns the node of the first entry that matches or \<^verbatim>\<open>ENOENT\<close>, each listing shows the next entries of the directory,
  each page of a file holds its bytes with zeroes after the end, and the size of a file in its attributes is the number of its bytes.
\<close>

theorem translator_refines:
  assumes "served dk d st t A s n0 w0"
  shows "\<exists>root w1. main_start plib s dk w0 = run_return (d, Some root, w1)
    \<and> (\<forall>evs w. run_events (serve_step d s st A) w1 evs w \<longrightarrow> list_all (answers A) evs)"
proof -
  obtain root w1 where "main_start plib s dk w0 = run_return (d, Some root, w1)" "serve_ok d st t A s n0 w1"
    using start_serves [OF assms] by blast
  then show ?thesis using serve.run_allowed by blast
qed

text \<open>
  C3: every request is answered. After start-up and any such sequence of requests, a lookup of a plain name in a directory that is
  not empty returns, provided the node it leads to is not locked; a listing of entries with names shorter than 100 characters from any
  position returns when the buffer is large enough; and a page-in of any page inside a file returns. Each of them gives the answer
  of the abstract file system.
\<close>

theorem translator_answers:
  assumes "served dk d st t A s n0 w0" and "main_start plib s dk w0 = run_return (d, root, w1)"
    and "run_events (serve_step d s st A) w1 evs w" and n: "node_at (ns w) np = Some n" and i: "i = ucast (cache_id n)"
  shows "(a_dirs A i = Some es \<and> es \<noteq> [] \<and> plain_name name \<and> lookup_type_ok lib type
       \<and> (\<forall>e. find (name_matches name) es = Some e \<longrightarrow> can_look (ns w) (ucast (fst e))) \<longrightarrow>
      (\<exists>err r n'. diskfs_lookup_hard d s lib root np name type True old (ns w) = run_return (err, r, n')
        \<and> answers A (Looked i name err (Option.bind r (\<lambda>np. map_option (\<lambda>(i, _). ucast i) (attr_of n' np))))))
    \<and> (a_dirs A i = Some es \<and> list_all (\<lambda>e. length (snd e) < 100) es \<and> off_d_name ly < sizeof_dirent ly
       \<and> 0 \<le> entry \<and> recs_size ly (take 30 (drop (nat entry) es)) \<le> space \<longrightarrow>
      (\<exists>amt cnt rs h. diskfs_get_directs d ly space (cache_id n) entry (mem (ns w)) = run_return (amt, cnt, rs, h)
        \<and> answers A (Listed i (nat entry) (map (\<lambda>(off, r). (d_ino r, d_name r)) rs))))
    \<and> (a_files A i = Some bs \<and> fileinfo (dn n) = Some u \<and> unat page < length bs \<and> unat page mod 4096 = 0 \<longrightarrow>
      (\<exists>wl buf w'. pager_read_page d s st u page w = run_return (0, wl, buf, w') \<and> answers A (Paged i page 0 buf)))"
proof -
  from start_serves [OF assms(1), of plib] assms(2) have "serve_ok d st t A s n0 w1" by auto
  from serve.run_allowed [OF assms(3) this] have ok: "serve_ok d st t A s n0 w" by blast
  have L: "\<exists>err r n'. diskfs_lookup_hard d s lib root np name type True old (ns w) = run_return (err, r, n')
      \<and> answers A (Looked i name err (Option.bind r (\<lambda>np. map_option (\<lambda>(i, _). ucast i) (attr_of n' np))))"
    if a: "a_dirs A i = Some es" "es \<noteq> []" "plain_name name" "lookup_type_ok lib type"
      "\<forall>e. find (name_matches name) es = Some e \<longrightarrow> can_look (ns w) (ucast (fst e))"
    using lookup_hard_returns [OF ok n a(1) [unfolded i] a(2-5)] looks_answers [OF ok n a(1) [unfolded i] a(3,4)] unfolding i by blast
  have G: "\<exists>amt cnt rs h. diskfs_get_directs d ly space (cache_id n) entry (mem (ns w)) = run_return (amt, cnt, rs, h)
      \<and> answers A (Listed i (nat entry) (map (\<lambda>(off, r). (d_ino r, d_name r)) rs))"
    if a: "a_dirs A i = Some es" "list_all (\<lambda>e. length (snd e) < 100) es" "off_d_name ly < sizeof_dirent ly"
      "0 \<le> entry" "recs_size ly (take 30 (drop (nat entry) es)) \<le> space"
    using lists_answers [OF ok n a(1) [unfolded i] a(2-5)] unfolding i by blast
  have P: "\<exists>wl buf w'. pager_read_page d s st u page w = run_return (0, wl, buf, w') \<and> answers A (Paged i page 0 buf)"
    if a: "a_files A i = Some bs" "fileinfo (dn n) = Some u" "unat page < length bs" "unat page mod 4096 = 0"
    using pages_answers [OF ok n a(2) a(1) [unfolded i] a(3,4)] a(1) by auto
  show ?thesis by (intro conjI impI; elim conjE; (rule L | rule G | rule P); assumption)
qed

end
