(* ===== verification/Jfs_Readonly.thy ===== *)
theory Jfs_Readonly
  imports Jfs_Serve
begin

text \<open>
  Clients that try to modify the file system. Next to the requests of \<^verbatim>\<open>Jfs_Serve\<close> the libraries pass on modifying requests
  and lookups made to remove or rename an entry; purged from a run, they leave the same run.
\<close>

section \<open>Requests of any kind\<close>

text \<open>A step shows what was answered to a request that is served, or the code a modifying one returned.\<close>

inductive client_step :: "fs \<Rightarrow> sys \<Rightarrow> store \<Rightarrow> afs \<Rightarrow> world \<Rightarrow> event + int \<Rightarrow> world \<Rightarrow> bool" for d s st A where
  serves: "serve_step d s st A w e w' \<Longrightarrow> client_step d s st A w (Inl e) w'"
| modifies: "modify_run m w = run_return (err, w') \<Longrightarrow> client_step d s st A w (Inr err) w'"
| looks_to_modify: "\<not> lookup_type_ok lib type \<Longrightarrow>
    diskfs_lookup_hard d s lib root dp name type npp old (ns w) = run_return (err, r, n') \<Longrightarrow>
    client_step d s st A w (Inr err) (w\<lparr>ns := n'\<rparr>)"

inductive_cases client_served: "client_step d s st A w (Inl e) w'"
inductive_cases client_refused: "client_step d s st A w (Inr err) w'"

fun purge :: "(event + int) list \<Rightarrow> event list" where
  "purge [] = []"
| "purge (Inl e # es) = e # purge es"
| "purge (Inr err # es) = purge es"

lemma refused_keeps: "client_step d s st A w (Inr err) w' \<Longrightarrow> err = EROFS \<and> w' = w"
  by (erule client_refused) (auto simp: modify_run_refused dest: lookup_hard_refused split: option.splits)

lemma run_purged:
  "run_events (client_step d s st A) w evs w' \<Longrightarrow>
    run_events (serve_step d s st A) w (purge evs) w' \<and> (\<forall>err. Inr err \<in> set evs \<longrightarrow> err = EROFS)"
proof (induction rule: run_events.induct)
  case (more w e w' es w'')
  then show ?case by (cases e) (auto elim: client_served dest: refused_keeps)
qed auto

text \<open>
  C20: clients cannot modify anything. Start the translator on a store that holds an abstract file system, and let requests to read and
  to modify it return in any order. Then every modifying request, and every lookup to remove or rename, was refused with
  \<^verbatim>\<open>EROFS\<close>; all others were answered as the abstract file system answers; and leaving out the refused requests gives a run
  to the same state. In that state a lookup to remove or rename in a live directory is refused again, and any other modifying
  request is refused or ends the process exactly as \<open>refusal\<close> says.
\<close>

theorem clients_cannot_modify:
  assumes "served dk d st t A s n0 w0" and "main_start plib s dk w0 = run_return (d, root, w1)"
    and "run_events (client_step d s st A) w1 evs w"
  shows "(\<forall>err. Inr err \<in> set evs \<longrightarrow> err = EROFS) \<and> list_all (answers A) (purge evs)
    \<and> run_events (serve_step d s st A) w1 (purge evs) w
    \<and> modify_run m w = (case refusal m of None \<Rightarrow> run_return (EROFS, w) | Some f \<Rightarrow> run_fault f)
    \<and> (\<not> lookup_type_ok lib type \<and> node_at (ns w) dp = Some n \<longrightarrow>
        (\<exists>r. diskfs_lookup_hard d s lib root' dp name type True old (ns w) = run_return (EROFS, r, ns w)))"
proof -
  from start_serves [OF assms(1), of plib] assms(2) have ok: "serve_ok d st t A s n0 w1" by auto
  from run_purged [OF assms(3)] have p: "run_events (serve_step d s st A) w1 (purge evs) w" "\<forall>err. Inr err \<in> set evs \<longrightarrow> err = EROFS"
    by blast+
  with serve.run_allowed [OF p(1) ok] show ?thesis
    by (auto simp: modify_run_refused intro: lookup_hard_refuses)
qed

end
