(* ===== verification/Jfs_Runs.thy ===== *)
theory Jfs_Runs
  imports Jfs_Demo Jfs_Threads Jfs_Clear Jfs_Races Jfs_Dtree Jfs_Contents Jfs_Readonly
begin

text \<open>
  The theorems about directories, nodes, pagers and start-up at work on the image of \<^verbatim>\<open>Jfs_Demo\<close>: concrete states of the
  node cache and of the pager on which their hypotheses hold.
\<close>

section \<open>Directories\<close>

lemma demo_small: "list_all (\<lambda>e. length (snd e) < 100) demo_entries"
  by (simp add: demo_entries_def)

text \<open>The name \<^verbatim>\<open>a\<close> is not in the directory; the search finds the inode of \<^verbatim>\<open>ab\<close>.\<close>

lemma demo_search: "find (name_matches [0x61]) demo_entries = Some (4, [0x61, 0x62])"
  "find (name_matches [0x62]) demo_entries = Some (5, [0x62])"
  "find (name_matches [0x63]) demo_entries = None" "find (name_matches [0x2e, 0x2e]) demo_entries = None"
  by (simp_all add: demo_entries_def name_matches_def demo_shown)

theorem directory_first_prefix_witness:
  "\<exists>h'. directory demo 2 [0x61, 0] 1 None demo_heap = run_return (Some 4, h')"
proof -
  have "unat (4 :: u32) = 4" by simp
  then show ?thesis
    using directory_first_prefix [of demo demo_map 2 demo_entries demo_heap "[0x61]" "[0]" None] demo_dir
    by (auto simp: demo_search sizeof_UTF8_Buffer_def PATH_MAX_def)
qed

theorem name_inum_overflow_witness:
  "name_inum (disk_slice demo 87264 288) 1 2 demo_heap = run_fault Out_Of_Bounds
    \<and> name_inum (disk_slice demo 87264 288) 1 3 demo_heap \<noteq> run_fault Out_Of_Bounds"
  using name_inum_overflow [OF demo_entry_at(1) demo_mem_ok, of 2] name_inum_overflow [OF demo_entry_at(1) demo_mem_ok, of 3]
  by simp

text \<open>A page whose entry 1 continues in slot 2, which continues in itself.\<close>

definition demo_cycle :: bytes where
  "demo_cycle = (replicate 288 0)[36 := 2, 37 := 20, 64 := 2]"

theorem name_cycle_diverges_witness:
  "name_inum demo_cycle 1 100 demo_heap = None \<and> print_direntry demo_cycle 1 [0x61, 0] 1 None demo_heap = None"
proof (rule name_cycle_diverges [where C = "{2}" and k = 2])
  show "next_slot (ld_next (ldtentry_of demo_cycle (32 * unat (1 :: u8)))) = Some 2"
    by (simp add: next_slot_def ldtentry_of_def demo_cycle_def)
qed (simp_all add: next_slot_def slot_succ_def dtslot_of_def demo_cycle_def)

text \<open>A thread looks for \<^verbatim>\<open>b\<close> at the entry \<^verbatim>\<open>ab\<close> while another converts the entry \<^verbatim>\<open>b\<close>: it gets inode 4.\<close>

theorem conversion_shared_witness:
  "\<exists>buf' h' T. run_schedule (\<lambda>t. if t = 0 then direntry_section (disk_slice demo 87264 288) 1 [0x62, 0] 1 None
        else direntry_section (disk_slice demo 87264 288) 2 [0x61, 0] 1 None)
      [0, 1, 0 :: nat] ([], demo_heap) (\<lambda>_. Convert) = run_return ((buf', h'), T) \<and> T 0 = Answer 0 (Some 4)"
proof -
  have m: "\<not> name_matches [0x62] (4, [0x61, 0x62])" "name_matches [0x62] (5, [0x62])" "length [0x62 :: u8] \<le> sizeof_UTF8_Buffer"
    by (simp_all add: name_matches_def demo_shown sizeof_UTF8_Buffer_def PATH_MAX_def)
  show ?thesis
    using conversion_shared [OF demo_entry_at(1) m(1) demo_entry_at(2) m(2) _ m(3) demo_mem_ok, of None "[0x61, 0]" 1 None "[]"]
    by (simp add: if_distrib cong: if_cong) blast
qed

section \<open>Layout and buffers\<close>

text \<open>The page of the superblock, read by the rules of C.\<close>

theorem decoders_typed_witness:
  "cread I386 ct_superblock (disk_slice demo 32768 4096) 0 = val_superblock (superblock_of (disk_slice demo 32768 4096))"
  using decoders_typed [of "disk_slice demo 32768 4096" I386] by simp

text \<open>Inode 4, in the first page of the extent at block 21.\<close>

theorem find_inode_page_witness:
  "\<exists>a h'. find_inode demo 4 FILESYSTEM_I demo_heap = run_return (Some a, h') \<and> inode_extent demo demo_map 4 = Some \<lparr>pxd_len = 4, pxd_addr1 = 0, pxd_addr2 = 21\<rparr>
    \<and> unat a = unat (INOPBLK 3 \<lparr>pxd_len = 4, pxd_addr1 = 0, pxd_addr2 = 21\<rparr> 4 0) * 4096 + 4 * 512"
proof -
  have n: "unat (4 :: u32) = 4" by simp
  obtain a h' where f: "find_inode demo 4 FILESYSTEM_I demo_heap = run_return (Some a, h')"
    using find_inode_correct [OF demo_fs_ok demo_imap_ok, of 4 demo_heap] by (auto simp: n)
  have "inode_extent demo demo_map 4 = Some \<lparr>pxd_len = 4, pxd_addr1 = 0, pxd_addr2 = 21\<rparr>"
    by (simp add: inode_extent_def demo_find [unfolded One_nat_def] demo_iag)
  then show ?thesis using find_inode_page [OF demo_fs_ok demo_imap_ok demo_mem_ok f] f by (simp add: n)
qed

text \<open>Two buffers on the list; threads descend from the extent of the inode map and from the extent of the file.\<close>

definition demo_bufs :: bcache where
  "demo_bufs = \<lparr>bCachelist = Some 1, b_next = [1 \<mapsto> 0], b_data = (\<lambda>_. replicate 4096 0), nBuffer = 2, bc_fresh = 2\<rparr>"

theorem buffers_shared_witness:
  "\<exists>c' T. run_schedule (\<lambda>t. bread_section demo (addressXAD (if t = 0 then demo_iag_xad else demo_file_xad)) (drop_bit (s_l2b demo) PAGESIZE) None)
      [0, 0, 1, 1, 0, 0, 1, 1 :: nat] (demo_bufs, demo_heap) (\<lambda>_. Test) = run_return ((c', demo_heap), T)
    \<and> T 0 = Have 0 (Some 1) \<and> T 1 = Have 0 (Some 1) \<and> b_data c' 1 = disk_slice demo (24 * 4096) 4096
    \<and> b_next (bRelease 1 (bRelease 1 c')) 1 = Some 1"
proof -
  have "pool demo_bufs [1, 0]" by (simp add: pool_def demo_bufs_def)
  then have "idle demo_bufs" unfolding idle_def by (intro exI [of _ "[1, 0]"]) (auto simp: demo_bufs_def)
  from buffers_shared [OF demo_fs_ok this, of 1 demo_iag_xad demo_file_xad demo_heap] show ?thesis
    by (auto simp: demo_bufs_def)
qed

section \<open>Nodes\<close>

definition demo_stat :: stat where
  "demo_stat = \<lparr>st_fstype = 0, st_fsid = 0, st_ino = 0, st_gen = 0, st_rdev = 0, st_mode = 0, st_nlink = 0, st_uid = 0,
     st_gid = 0, st_author = 0, st_size = 0, st_atim = \<lparr>tv_sec = 0, tv_nsec = 0\<rparr>, st_mtim = \<lparr>tv_sec = 0, tv_nsec = 0\<rparr>,
     st_ctim = \<lparr>tv_sec = 0, tv_nsec = 0\<rparr>, st_blksize = 0, st_blocks = 0, st_flags = 0\<rparr>"

definition demo_node :: node where
  "demo_node = \<lparr>cache_id = 0, references = 1, node_lock = False, dn_stat = demo_stat, author_tracks_uid = False,
     dn = \<lparr>fileinfo = None, hnext = None, hprevp = Bucket 0\<rparr>\<rparr>"

definition demo_sys :: "int \<Rightarrow> sys" where
  "demo_sys e = \<lparr>catch_exception = e, getpid = 7, vm_page_size = 4096, log2_blocks_per_page = 3,
     make_node = (\<lambda>h. case malloc h of (ok, h) \<Rightarrow> (if ok then Some demo_node else None, h))\<rparr>"

text \<open>A cache with nothing in it, and one with one node for inode \<open>i\<close>.\<close>

definition demo_empty :: nodes where
  "demo_empty = inode_init INOHSZ \<lparr>nodehash = (\<lambda>_. Some 3), node_at = Map.empty, node_fresh = 0, refcnt_lock = False,
     mem = demo_heap\<rparr>"

definition demo_dn :: "u64 \<Rightarrow> nat option \<Rightarrow> stat \<Rightarrow> node" where
  "demo_dn i f st = demo_node\<lparr>cache_id := i, dn_stat := st, dn := \<lparr>fileinfo = f, hnext = None, hprevp = Bucket (INOHASH i)\<rparr>\<rparr>"

definition demo_one :: "u64 \<Rightarrow> nat option \<Rightarrow> stat \<Rightarrow> nodes" where
  "demo_one i f st = \<lparr>nodehash = [INOHASH i \<mapsto> 0], node_at = [0 \<mapsto> demo_dn i f st], node_fresh = 1, refcnt_lock = False,
     mem = demo_heap\<rparr>"

lemma demo_empty_ok [simp]: "cache_ok demo_empty" "node_map demo_empty = Map.empty" "\<not> refcnt_lock demo_empty"
  "mem demo_empty = demo_heap" "node_fresh demo_empty = 0" "node_at demo_empty = Map.empty"
  using inode_init_empty [of "\<lparr>nodehash = (\<lambda>_. Some 3), node_at = Map.empty, node_fresh = 0, refcnt_lock = False,
     mem = demo_heap\<rparr>"]
  by (simp_all add: demo_empty_def inode_init_fields inode_init_table)

lemma demo_one_fields [simp]:
  "node_at (demo_one i f st) 0 = Some (demo_dn i f st)" "\<not> refcnt_lock (demo_one i f st)" "mem (demo_one i f st) = demo_heap"
  "cache_id (demo_dn i f st) = i" "fileinfo (dn (demo_dn i f st)) = f" "dn_stat (demo_dn i f st) = st"
  "node_lock (demo_dn i f st) = False" "references (demo_dn i f st) = 1"
  by (simp_all add: demo_one_def demo_dn_def demo_node_def)

lemma demo_one_ok [simp]: "cache_ok (demo_one i f st)"
proof -
  have L: "links_of (demo_one i f st) = [0 \<mapsto> (i, None, Bucket (INOHASH i))]"
    by (auto simp: links_of_def demo_one_def demo_dn_def fun_eq_iff)
  have "table_ok (links_of (demo_one i f st)) (nodehash (demo_one i f st)) (\<lambda>b. if b = INOHASH i then [0] else [])"
    unfolding L using INOHASH_less [of i] by (auto simp: table_ok_def bucket_ok_def ino_of_def demo_one_def)
  then show ?thesis by (auto simp: cache_ok_def demo_one_def)
qed

lemma demo_one_map [simp]: "node_map (demo_one i f st) i = Some 0"
  using live_cached [OF demo_one_ok demo_one_fields(1)] by simp

lemma demo_malloc: "\<exists>h'. malloc demo_heap = (True, h') \<and> mem_ok h'"
  using mem_ok_malloc [OF demo_mem_ok] by (cases "malloc demo_heap") auto

lemma demo_make:
  obtains h1 h2 where "malloc demo_heap = (True, h1)" and "make_node (demo_sys e) h1 = (Some demo_node, h2)" and "mem_ok h2"
proof -
  obtain h1 where h1: "malloc demo_heap = (True, h1)" "mem_ok h1" using demo_malloc by blast
  obtain h2 where "malloc h1 = (True, h2)" "mem_ok h2" using mem_ok_malloc [OF h1(2)] by (cases "malloc h1") auto
  then show ?thesis using that [OF h1(1), of h2] by (simp add: demo_sys_def)
qed

lemma demo_readable: "inode_readable demo demo_map 2" "unat (ucast (2 :: u64) :: u32) = 2" "unat (ucast (4 :: u64) :: u32) = 4"
  by (simp_all add: inode_readable_def)

theorem node_norefs_witness:
  "\<exists>w'. diskfs_node_norefs 0 (demo_one 2 None demo_stat) = run_return w' \<and> cache_ok w' \<and> node_map w' 2 = None
    \<and> mh_live (mem w') = - 2"
  using diskfs_node_norefs_correct [of "demo_one 2 None demo_stat" 2 0 "demo_dn 2 None demo_stat"]
  by (auto simp: demo_heap_def)

theorem cached_lookup_hit_witness:
  "\<exists>w'. diskfs_cached_lookup demo (demo_sys 0) 2 (demo_one 2 None demo_stat) = run_return (0, Some 0, w')
    \<and> map_option references (node_at w' 0) = Some 2"
  using cached_lookup_hit [of "demo_one 2 None demo_stat" 2 0 "demo_dn 2 None demo_stat" demo "demo_sys 0"] by simp

theorem cached_lookup_miss_witness:
  "\<exists>w'. diskfs_cached_lookup demo (demo_sys 0) 2 demo_empty = run_return (0, Some 0, w') \<and> node_map w' = [2 \<mapsto> 0]
    \<and> \<not> refcnt_lock w'"
proof -
  obtain h1 h2 where m: "malloc demo_heap = (True, h1)" "make_node (demo_sys 0) h1 = (Some demo_node, h2)" "mem_ok h2"
    by (rule demo_make)
  have "catch_exception (demo_sys 0) = 0" by (simp add: demo_sys_def)
  then show ?thesis
    using cached_lookup_miss [of demo demo_map 2 demo_empty h1 "demo_sys 0" demo_node h2] m demo_readable by auto
qed

theorem cached_lookup_exception_witness:
  "\<exists>w'. diskfs_cached_lookup demo (demo_sys 5) 2 demo_empty = run_return (5, Some 0, w')
    \<and> diskfs_cached_lookup demo (demo_sys 0) 3 w' = None"
proof -
  obtain h1 h2 where m: "malloc demo_heap = (True, h1)" "make_node (demo_sys 5) h1 = (Some demo_node, h2)" "mem_ok h2"
    by (rule demo_make)
  have "catch_exception (demo_sys 5) = 5" by (simp add: demo_sys_def)
  then show ?thesis
    using cached_lookup_exception [of demo demo_map 2 demo_empty h1 "demo_sys 5" demo_node h2 87040] m demo_readable by auto
qed

theorem cached_lookup_nomem_witness:
  "\<exists>w'. diskfs_cached_lookup demo (demo_sys 0) 2 (demo_empty\<lparr>mem := \<lparr>mh_answers = (\<lambda>i. i = 0), mh_live = 0\<rparr>\<rparr>)
      = run_return (ENOMEM, None, w') \<and> mh_live (mem w') = 0"
proof -
  define w where "w = demo_empty\<lparr>mem := \<lparr>mh_answers = (\<lambda>i. i = 0), mh_live = 0\<rparr>\<rparr>"
  have "cache_ok w" "node_map w = Map.empty" "\<not> refcnt_lock w"
    using cache_cong [of w demo_empty] by (simp_all add: w_def)
  then show ?thesis
    using cached_lookup_nomem [of w 2 "demo_sys 0" demo] by (auto simp: w_def demo_sys_def malloc_def)
qed

section \<open>Threads\<close>

text \<open>Two threads look inode 2 up: the first makes the node, the second finds it before it is filled.\<close>

definition demo_threads :: threads where
  "demo_threads = [0 \<mapsto> (2, Enter 2), 1 \<mapsto> (2, Enter 2)]"

lemma demo_unlocked: "\<not> node_lock demo_node"
  by (simp add: demo_node_def)

theorem concurrent_lookups_agree_witness:
  "\<exists>w T. (thread_step demo)\<^sup>*\<^sup>* (demo_empty, Map.empty) (w, T)
    \<and> T 0 = Some (2, Read_inode 0) \<and> T 1 = Some (2, Await 0) \<and> cached w 2 0"
proof -
  obtain h1 h2 where m: "malloc demo_heap = (True, h1)" "make_node (demo_sys 0) h1 = (Some demo_node, h2)"
    by (rule demo_make)
  obtain u where e: "enter_section (demo_sys 0) 2 demo_empty = run_return (Read_inode 0, u)"
    and u: "cache_ok u" "node_map u = [2 \<mapsto> 0]" "\<not> refcnt_lock u"
    by (rule enter_new [of demo_empty 2 h1 "demo_sys 0" demo_node h2]) (use m in auto)
  define w where "w = upd_node 0 (\<lambda>n. n\<lparr>references := references n + 1\<rparr>) u"
  define T where "T = demo_threads(0 \<mapsto> (2, Read_inode 0))"
  have "(thread_step demo)\<^sup>*\<^sup>* (demo_empty, Map.empty) (demo_empty, [0 \<mapsto> (2, Enter 2)])"
    by (intro r_into_rtranclp thread_step.begins) simp
  also have "thread_step demo (demo_empty, [0 \<mapsto> (2, Enter 2)]) (demo_empty, demo_threads)"
    unfolding demo_threads_def by (rule thread_step.begins [where t = 1]) simp
  also have "thread_step demo (demo_empty, demo_threads) (u, T)"
    unfolding T_def by (rule thread_step.runs [where s = "demo_sys 0" and pc = "Enter 2"]) (simp_all add: e demo_threads_def)
  also have "thread_step demo (u, T) (w, T(1 \<mapsto> (2, Await 0)))"
    by (rule thread_step.runs [where s = "demo_sys 0" and pc = "Enter 2"])
      (use u enter_hit [OF u(1,3), of 2 0 "demo_sys 0"] in \<open>simp_all add: T_def w_def demo_threads_def\<close>)
  finally have run: "(thread_step demo)\<^sup>*\<^sup>* (demo_empty, Map.empty) (w, T(1 \<mapsto> (2, Await 0)))" .
  have one: "(T(1 \<mapsto> (2, Await 0))) 1 = Some (2, Await 0)" "node_of (Await 0) = Some 0" by simp_all
  have "\<And>a. node_at \<lparr>nodehash = (\<lambda>_. Some 3), node_at = Map.empty, node_fresh = 0, refcnt_lock = False, mem = demo_heap\<rparr> a = None" by simp
  from concurrent_lookups_agree [OF this run [unfolded demo_empty_def]] one have "cached w 2 0" by blast
  moreover have "(T(1 \<mapsto> (2, Await 0))) 0 = Some (2, Read_inode 0)" by (simp add: T_def)
  ultimately show ?thesis using run one(1) by blast
qed

theorem lookup_race_unfilled_witness:
  "\<exists>w T n. (thread_step demo)\<^sup>*\<^sup>* (demo_empty, demo_threads) (w, T) \<and> T 1 = Some (2, Done 0 (Some 0))
    \<and> node_at w 0 = Some n \<and> dn_stat n = demo_stat"
proof -
  obtain h1 h2 where m: "malloc demo_heap = (True, h1)" "make_node (demo_sys 0) h1 = (Some demo_node, h2)"
    by (rule demo_make)
  have "dn_stat demo_node = demo_stat" by (simp add: demo_node_def)
  then show ?thesis
    using lookup_race_unfilled [of demo_empty 2 h1 "demo_sys 0" demo_node h2 demo_threads 0 1 demo] m demo_unlocked
    by (auto simp: demo_threads_def)
qed

theorem lookup_race_reference_witness:
  "\<exists>w T err n. (thread_step demo)\<^sup>*\<^sup>* (demo_empty, demo_threads) (w, T) \<and> T 0 = Some (2, Done err (Some 0))
    \<and> T 1 = Some (2, Done 0 (Some 0)) \<and> node_at w 0 = Some n \<and> references n = 2"
proof -
  obtain h1 h2 where m: "malloc demo_heap = (True, h1)" "make_node (demo_sys 0) h1 = (Some demo_node, h2)" "mem_ok h2"
    by (rule demo_make)
  have "references demo_node = 1" "catch_exception (demo_sys 0) = 0" by (simp_all add: demo_node_def demo_sys_def)
  then show ?thesis
    using lookup_race_reference [of demo demo_map 2 "demo_sys 0" demo_empty h1 demo_node h2 demo_threads 0 1] m demo_unlocked
      demo_readable(1)
    by (auto simp: demo_threads_def)
qed

section \<open>Directory operations\<close>

definition demo_ly :: dirent_layout where
  "demo_ly = \<lparr>sizeof_dirent = 12, off_d_name = 11\<rparr>"

definition demo_h :: diskfs_h where
  "demo_h = \<lparr>LOOKUP = 0, CREATE = 1, REMOVE = 2, RENAME = 3, SPEC_DOTDOT = 0x10000000, diskfs_nref = (\<lambda>_ w. w),
     diskfs_nput = (\<lambda>_. run_return)\<rparr>"

lemma demo_lookup_type [simp]: "lookup_type_ok demo_h 0"
  by (simp add: lookup_type_ok_def demo_h_def)

lemma demo_reclen: "reclen_for demo_ly (4, [0x61, 0x62]) = 16" "reclen_for demo_ly (5, [0x62]) = 16"
  by (simp_all add: reclen_for_def dirent_reclen_def demo_out strlen_def demo_ly_def)

theorem get_directs_witness:
  "\<exists>h' rs. diskfs_get_directs demo demo_ly 4096 2 0 demo_heap = run_return (2, 32, rs, h')
    \<and> map fst rs = [0, 16] \<and> map (\<lambda>r. d_name (snd r)) rs = [[0x61, 0x62, 0], [0x62, 0]] \<and> mh_live h' = 5"
proof -
  have "recs_size demo_ly demo_entries = 32" "length demo_entries = 2"
    by (simp_all add: recs_size_def demo_entries_def demo_reclen)
  moreover have "place_recs demo_ly 0 demo_entries = [(0, dirent_for demo_ly (4, [0x61, 0x62])), (16, dirent_for demo_ly (5, [0x62]))]"
    by (simp add: demo_entries_def demo_reclen)
  moreover have "off_d_name demo_ly < sizeof_dirent demo_ly" by (simp add: demo_ly_def)
  ultimately show ?thesis
    using diskfs_get_directs_lists [of demo demo_map 2 demo_entries demo_ly demo_heap 0 demo_entries 4096] demo_dir demo_small
    by (auto simp: dirent_for_def demo_out strlen_def) (simp add: demo_heap_def)
qed

theorem lookup_hard_name_witness:
  "\<exists>h'. diskfs_lookup_hard demo (demo_sys 0) demo_h None 0 [0x63] 0 True None (demo_one 2 None demo_stat)
    = run_return (ENOENT, None, (demo_one 2 None demo_stat)\<lparr>mem := h'\<rparr>)"
proof -
  have "demo_entries \<noteq> []" by (simp add: demo_entries_def)
  then show ?thesis
    using lookup_hard_name [of demo "demo_one 2 None demo_stat" 0 "demo_dn 2 None demo_stat" demo_map demo_entries demo_h 0 "[0x63]"
        "demo_sys 0" None None] demo_dir
    by (auto simp: demo_search sizeof_UTF8_Buffer_def PATH_MAX_def)
qed

theorem lookup_hard_dotdot_witness:
  "\<exists>h'. diskfs_lookup_hard demo (demo_sys 0) demo_h None 0 [0x2e, 0x2e] 0 True None (demo_one 2 None demo_stat) =
    run_bind (mutex_unlock 0 ((demo_one 2 None demo_stat)\<lparr>mem := h'\<rparr>)) (\<lambda>w.
      run_bind (diskfs_cached_lookup demo (demo_sys 0) (- 1) w) (\<lambda>(err, np, w).
        run_bind (mutex_lock 0 w) (\<lambda>w. run_return (0, np, w))))"
proof -
  have "demo_entries \<noteq> []" "(ucast (SPEC_DOTDOT demo_h) :: u8) = 0" by (simp_all add: demo_entries_def demo_h_def)
  then show ?thesis
    using lookup_hard_dotdot [of demo "demo_one 2 None demo_stat" 0 "demo_dn 2 None demo_stat" demo_map demo_entries demo_h 0
        "demo_sys 0" None None] demo_dir by (auto simp: demo_search)
qed

section \<open>Pagers\<close>

definition demo_lib :: pager_lib where
  "demo_lib = \<lparr>pager_create = (\<lambda>_. Some 5), pager_get_port = (\<lambda>_ _. Some 8), ports_count_bucket = (\<lambda>_. 2),
     bucket_pagers = (\<lambda>_. [5]), pager_get_upi = (\<lambda>_. 0), diskfs_disk_pager = 4\<rparr>"

definition demo_file_stat :: "u64 \<Rightarrow> stat" where
  "demo_file_stat len = demo_stat\<lparr>st_mode := 0x8000, st_size := len\<rparr>"

text \<open>Inode 4 is cached and has a pager.\<close>

definition demo_paged :: "u64 \<Rightarrow> world" where
  "demo_paged len = \<lparr>ns = demo_one 4 (Some 0) (demo_file_stat len), upi_at = [0 \<mapsto> \<lparr>upi_np = Some 0, upi_type = FILE_DATA, upi_p = Some 5\<rparr>],
     upi_fresh = 1, node2pagelock = False, bufs = demo_pool, calls = []\<rparr>"

lemma demo_regular: "S_ISREG (st_mode (demo_file_stat len))"
  by (simp add: S_ISREG_def S_IFMT_def demo_file_stat_def)

lemma demo_paged_ok: "pagers_ok (demo_paged len)"
  by (auto simp: pagers_ok_def demo_paged_def demo_one_def split: if_splits)

text \<open>
  The pager of node 0 begins to end; detached, before its reference is given back, the node is mapped again and gets
  another pager; the first clear can still go on.
\<close>

theorem clears_interleaved_witness:
  "\<exists>w1 w2 pc v. clear_section 0 Detach (demo_paged 5000) = run_return (Unref, w1) \<and> diskfs_get_filemap demo_lib 0 w1 = run_return (Some 8, w2)
    \<and> fileinfo_of w2 0 = Some 1 \<and> pagers_ok w2 \<and> upi_at w2 0 \<noteq> None \<and> clear_section 0 Unref w2 = run_return (pc, v) \<and> pagers_ok v"
proof -
  let ?w = "demo_paged 5000"
  define w1 where "w1 = page_unlock (set_fileinfo 0 None (?w\<lparr>node2pagelock := True\<rparr>))"
  have s: "clear_section 0 Detach ?w = run_return (Unref, w1)"
    by (simp add: with_upi_def page_lock_def deref_def with_node_def w1_def demo_paged_def)
  have n: "node_at (ns w1) 0 = Some (demo_dn 4 None (demo_file_stat 5000))" "upi_fresh w1 = 1" "\<not> node2pagelock w1" "mem_ok (mem (ns w1))"
    by (simp_all add: w1_def page_unlock_def set_fileinfo_def upd_node_def demo_paged_def demo_one_def demo_dn_def)
  obtain w2 where w2: "diskfs_get_filemap demo_lib 0 w1 = run_return (Some 8, w2)" "fileinfo_of w2 0 = Some 1"
    using get_filemap_new [OF n(1) _ _ n(3,4), of demo_lib 5 8] demo_regular n(2) by (auto simp: demo_lib_def)
  have "clear_step demo (?w, Map.empty) (?w, [0 \<mapsto> Detach])" by (rule clear_step.begins) (simp_all add: demo_paged_def)
  moreover have "clear_step demo (?w, [0 \<mapsto> Detach]) (w1, [0 \<mapsto> Unref])"
    using clear_step.goes_on [of "[0 \<mapsto> Detach]" 0 Detach ?w Unref w1 demo, OF _ s] by simp
  moreover have "clear_step demo (w1, [0 \<mapsto> Unref]) (w2, [0 \<mapsto> Unref])" using w2(1) by (rule clear_step.maps)
  ultimately have run: "(clear_step demo)\<^sup>*\<^sup>* (?w, Map.empty) (w2, [0 \<mapsto> Unref])"
    by (blast intro: rtranclp.rtrancl_into_rtrancl)
  have "world_ok ?w" using demo_paged_ok by (simp add: world_ok_def) (simp add: demo_paged_def)
  moreover have "nodes_held ?w Map.empty" by (simp add: nodes_held_def demo_paged_def)
  ultimately have c: "pagers_ok w2" "\<forall>u pc. [0 \<mapsto> Unref] u = Some pc \<longrightarrow> upi_at w2 u \<noteq> None
      \<and> (\<exists>pc' v. clear_section u pc w2 = run_return (pc', v) \<and> pagers_ok v)
      \<and> (pc = Detach \<or> (\<forall>np. fileinfo_of w2 np \<noteq> Some u))"
    using clears_interleaved [OF _ _ run] by simp_all
  from c(2) [rule_format, of 0 Unref] c(1) s w2 show ?thesis by (simp del: clear_section.simps)
qed

definition demo_store :: store where
  "demo_store = \<lparr>log2_block_size = 9, store_read = (\<lambda>a n. (0, disk_slice demo (unat a * 512) n)), mmap_answers = True\<rparr>"

lemma demo_store_ok: "store_ok demo demo_store"
  by (simp add: store_ok_def demo_store_def)

theorem read_file_page_hole_witness:
  "(\<exists>c' h'. read_file_page demo (demo_sys 0) demo_store (demo_dn 4 None (demo_file_stat 20000)) (dinode_of (disk_slice demo 88064 512))
      8192 demo_pool demo_heap = run_return (1, None, c', h'))
    \<and> (\<exists>c' h'. read_file_page demo (demo_sys 0) demo_store (demo_dn 4 None (demo_file_stat 5000)) (dinode_of (disk_slice demo 88064 512))
      8192 demo_pool demo_heap = run_return (0, Some (replicate 4096 0), c', h'))"
  using read_file_page_hole [of demo "dinode_of (disk_slice demo 88064 512)" demo_file "2 ^ 41" demo_pool demo_heap 8192
      "demo_sys 0" demo_store "demo_dn 4 None (demo_file_stat 20000)"]
    read_file_page_hole [of demo "dinode_of (disk_slice demo 88064 512)" demo_file "2 ^ 41" demo_pool demo_heap 8192
      "demo_sys 0" demo_store "demo_dn 4 None (demo_file_stat 5000)"] demo_repr(2) demo_wf(2) demo_find(4)
  by (auto simp: demo_file_root demo_file_stat_def demo_sys_def demo_store_def)

section \<open>The traversal stack and start-up\<close>

theorem bt_stack_path_witness:
  "\<exists>s'. bt_push_all (BT_CLR \<lparr>bs_top = 3, bs_nsplit = 0, bs_stack = replicate 8 \<lparr>bf_bn = 0, bf_index = 0, bf_lastindex = 0, bf_mp = None\<rparr>\<rparr>) [(20, 2), (21, 5)]
    = run_return s' \<and> bt_path s' = [(20, 2), (21, 5)]"
  using bt_stack_path [of "\<lparr>bs_top = 3, bs_nsplit = 0, bs_stack = replicate 8 \<lparr>bf_bn = 0, bf_index = 0, bf_lastindex = 0, bf_mp = None\<rparr>\<rparr>" "[(20, 2), (21, 5)]"]
  by (auto simp: MAXTREEHEIGHT_def)

definition demo_boot :: world where
  "demo_boot = \<lparr>ns = \<lparr>nodehash = (\<lambda>_. Some 3), node_at = Map.empty, node_fresh = 0, refcnt_lock = False, mem = demo_heap\<rparr>,
     upi_at = Map.empty, upi_fresh = 0, node2pagelock = False, bufs = demo_pool, calls = []\<rparr>"

theorem main_start_not_jfs_witness:
  "main_start demo_lib (demo_sys 0) \<lparr>dk_size = 131072, dk_byte = (\<lambda>_. 0)\<rparr> demo_boot = run_fault (Exit_Called 0)"
proof -
  have "[0..<4] = [0, 1, 2, 3 :: nat]" by (simp add: upt_rec)
  then show ?thesis
    using main_start_not_jfs [of "\<lparr>dk_size = 131072, dk_byte = (\<lambda>_. 0)\<rparr>" demo_boot demo_lib "demo_sys 0"]
    by (simp add: disk_slice_def SUPER1_OFF_def sizeof_superblock_def JFS_MAGIC_def demo_boot_def)
qed

end
