(* ===== verification/Spec2Isabelle.thy ===== *)
theory Spec2Isabelle
  imports Jfs_Runs
begin

text \<open>
  A verification of the JFS translator for the GNU Hurd: a read-only server that maps a store with a JFS file system and answers
  the requests \<^verbatim>\<open>libdiskfs\<close> and \<^verbatim>\<open>libpager\<close> pass on. The sources are under \<^verbatim>\<open>src/\<close>.

  \<^bold>\<open>The program.\<close> \<^verbatim>\<open>main\<close> (\<^verbatim>\<open>jfs.c\<close>) maps the store (\<^verbatim>\<open>create_disk_pager\<close>, \<^verbatim>\<open>pager.c\<close>), checks the superblock
  (\<^verbatim>\<open>get_hypermetadata\<close>, \<^verbatim>\<open>hyper.c\<close>), clears the table of nodes (\<^verbatim>\<open>inode_init\<close>, \<^verbatim>\<open>dir.c\<close>) and looks up inode 2. From then on the
  libraries call: \<^verbatim>\<open>diskfs_lookup_hard\<close> and \<^verbatim>\<open>diskfs_get_directs\<close> (\<^verbatim>\<open>dir.c\<close>) read directories through \<^verbatim>\<open>directory\<close> and \<^verbatim>\<open>readndir\<close>
  (\<^verbatim>\<open>jfs_dirread.c\<close>), whose names are converted by \<^verbatim>\<open>jfs_unicode.c\<close>; nodes are cached by \<^verbatim>\<open>diskfs_cached_lookup\<close> (\<^verbatim>\<open>dir.c\<close>) and filled from
  inodes found by \<^verbatim>\<open>find_inode\<close> (\<^verbatim>\<open>jfs_inode.c\<close>); \<^verbatim>\<open>pager_read_page\<close> (\<^verbatim>\<open>pager.c\<close>) finds the blocks of a file with \<^verbatim>\<open>xt_Lookup\<close>
  (\<^verbatim>\<open>jfs_fileread.c\<close>); requests that would write end in \<^verbatim>\<open>callbacks.c\<close>.

  \<^bold>\<open>How C is modelled.\<close> A call is a value of \<open>'a run\<close>: it returns, it stops the process with a named \<open>fault\<close> (a wild access, a failed
  assertion, \<^verbatim>\<open>exit\<close>), or it never ends (\<open>None\<close>). Loops that may not end are \<open>run_loop\<close>, a \<^verbatim>\<open>partial_function\<close>, so no fuel or bound is
  chosen anywhere: that a loop ends is proved, and so is that some do not. Integers are words of the C width. \<^verbatim>\<open>malloc\<close> answers from a
  script and counts live blocks, so failures and leaks can be stated. Structures on disk are records with decoders from bytes at the
  offsets of the C layout (32-bit, little-endian). Nodes, pager structures and buffers live in stores of addressed objects; locks are
  flags, and waiting for a held lock does not end.

  \<^bold>\<open>The theories.\<close>
  \<^item> \<^verbatim>\<open>Jfs_Prelude\<close>: word lemmas, the outcome of a call, loops and their rules, linked chains, the allocator, little-endian reading.
  \<^item> \<^verbatim>\<open>Jfs_Types\<close>: the descriptors of \<^verbatim>\<open>jfs_types.h\<close>, \<^verbatim>\<open>jfs_xtree.h\<close>, \<^verbatim>\<open>jfs_dtree.h\<close> and their macros; the locale \<open>split40\<close> for the 40-bit
    fields, interpreted for each; the round trip of every field.
  \<^item> \<^verbatim>\<open>Jfs_Layout\<close>: superblock, inode, inode group, extent-tree and directory pages as records and decoders.
  \<^item> \<^verbatim>\<open>Jfs_Ctypes\<close>: the declarations of all structures on disk as data, with the rules by which C lays a structure out, for both
    alignments of 64-bit integers; the layout is proved to have no padding and not to depend on the alignment, and the decoders to read
    the declared members.
  \<^item> \<^verbatim>\<open>Jfs_Disk\<close>: \<^verbatim>\<open>ujfs_read_diskblocks\<close>, \<^verbatim>\<open>xRead\<close>, \<^verbatim>\<open>get_hypermetadata\<close>: every range inside the mapping is read exactly.
  \<^item> \<^verbatim>\<open>Jfs_Xtree\<close>: the binary search of a page (locale \<open>ordered_cmp\<close>, interpreted on the pages) and the abstract extent tree \<open>xtree\<close> with \<open>xt_find\<close>.
  \<^item> \<^verbatim>\<open>Jfs_Imap\<close>: \<^verbatim>\<open>find_iag\<close>, \<^verbatim>\<open>find_inode\<close>; they refine \<open>inode_address\<close>.
  \<^item> \<^verbatim>\<open>Jfs_Fileread\<close>: the pool of page buffers (locale \<open>buffer_pool\<close>) and \<^verbatim>\<open>xt_Lookup\<close>, which refines \<open>xt_find\<close>; what happens on pages that
    are not well formed.
  \<^item> \<^verbatim>\<open>Jfs_Unicode\<close>: \<^verbatim>\<open>UniStrncpy\<close> and the UTF-8 conversion, against a reference encoding.
  \<^item> \<^verbatim>\<open>Jfs_Dirread\<close>: names from slots, \<^verbatim>\<open>readndir\<close>, \<^verbatim>\<open>directory\<close>; the locale \<open>leaf_walk\<close> proves the walk over the leaves once for both.
  \<^item> \<^verbatim>\<open>Jfs_Dtree\<close>: the macros on directory pages, entries and inode pages that the code does by hand, compared with what it does.
  \<^item> \<^verbatim>\<open>Jfs_Nodes\<close>: the node cache. The doubly linked buckets refine a map from inode numbers to nodes (locale \<open>node_table\<close>); hits, misses,
    failures; the invariant over all sequences of calls (\<open>cache_reach\<close>).
  \<^item> \<^verbatim>\<open>Jfs_Sections\<close>: a call cut into sections, run alone (\<open>run_sections\<close>) or in the order of a schedule (\<open>run_schedule\<close>).
  \<^item> \<^verbatim>\<open>Jfs_Threads\<close>: lookups on several threads, cut into the sections between which another thread can run. Alone they are the sequential
    definition; interleaved they keep the table well formed and all threads agree on the node of a number; a node can be had before it is
    filled, and a reference can be lost.
  \<^item> \<^verbatim>\<open>Jfs_Dir\<close>: listing and lookup. \<^verbatim>\<open>Jfs_Pager\<close>: the pagers of nodes and page-in. \<^verbatim>\<open>Jfs_Callbacks\<close>: the read-only callbacks.
    \<^verbatim>\<open>Jfs_Contents\<close>: all pages of a file, against the bytes its extents name. \<^verbatim>\<open>Jfs_Btree\<close>: the traversal stack and the page
    buffers of a search. \<^verbatim>\<open>Jfs_Main\<close>: start-up.
  \<^item> \<^verbatim>\<open>Jfs_Races\<close>: the state no lock protects, the list of page buffers and the conversion buffer: \<^verbatim>\<open>bRead\<close> and \<^verbatim>\<open>print_direntry\<close> in
    sections, and schedules of two threads that share a buffer or answer with the wrong inode.
  \<^item> \<^verbatim>\<open>Jfs_System\<close>: the running translator as a step relation (\<open>world_step\<close>), one step per request that returned; the invariant of nodes,
    pagers, page buffers and locks together, after start-up and any sequence of requests, on any disk and with any failures.
  \<^item> \<^verbatim>\<open>Jfs_Clear\<close>: the end of pagers (\<^verbatim>\<open>pager_clear_user_data\<close> in sections) while nodes are mapped again, as a step relation: pagers stay
    well formed, and every clear in progress can go on.
  \<^item> \<^verbatim>\<open>Jfs_Events\<close>: the contracts of a step relation with an invariant (locale \<open>invariant_steps\<close>) and of steps that show events a
    specification allows (locale \<open>allowed_events\<close>); every step relation of the development is an interpretation.
  \<^item> \<^verbatim>\<open>Jfs_Serve\<close>: the abstract file system \<open>afs\<close>, directories as lists of entries and files as bytes, without cache or state, and when a disk holds
    one (\<open>represents\<close>). The running translator refines it: every lookup, listing, page and size in every run of requests (\<open>serve_step\<close>) is
    the answer the abstract file system allows (\<open>answers\<close>), and every such request returns.
  \<^item> \<^verbatim>\<open>Jfs_Readonly\<close>: clients that try to modify the file system, next to the requests of \<^verbatim>\<open>Jfs_Serve\<close>: every such request is refused and can
    be purged from a run (\<open>client_step\<close>, \<open>purge\<close>).
  \<^item> \<^verbatim>\<open>Jfs_Demo\<close>, \<^verbatim>\<open>Jfs_Runs\<close>: a small disk image and states on which the theorems apply.
  \<^item> this theory: the composition of the parts, from start-up to the contents of a file found by name, and from a listing to lookups of
    the names listed.

  \<^bold>\<open>Parameters.\<close> Code outside the repository is an argument of the definitions: \<open>sys\<close> (\<^verbatim>\<open>diskfs_catch_exception\<close>, \<^verbatim>\<open>getpid\<close>, the page size, the block size of the store against it,
  \<^verbatim>\<open>diskfs_make_node\<close>), \<open>diskfs_h\<close> (the constants and reference counting of \<^verbatim>\<open>hurd/diskfs.h\<close>), \<open>dirent_layout\<close>, \<open>pager_lib\<close> (what \<^verbatim>\<open>libpager\<close>
  and \<^verbatim>\<open>libports\<close> answer, which may depend on the calls made so far), \<open>store\<close>, \<open>metapage_h\<close> (the page
  buffers of \<^verbatim>\<open>jfs_btree.h\<close>), the kernel types \<^verbatim>\<open>DO_INDEX\<close> names, \<^verbatim>\<open>vfprintf\<close>, \<^verbatim>\<open>L2INOSPERPAGE\<close>, and \<^verbatim>\<open>__cpu_to_le32\<close>, \<^verbatim>\<open>__cpu_to_le24\<close>.

  \<^bold>\<open>Well-formedness.\<close> \<open>fs_ok\<close> (block size a power of two from 512 to 4096, a whole number of blocks), \<open>xt_repr\<close> and \<open>xt_wf\<close> (pages that represent an
  ordered extent tree), \<open>imap_ok\<close>, \<open>dir_at\<close> (a directory with the given entries), \<open>cache_ok\<close>, \<open>pagers_ok\<close>, \<open>idle\<close>/\<open>lent\<close> (the buffer pool).

  \<^bold>\<open>Not modelled.\<close> Interleaving of threads inside calls other than \<^verbatim>\<open>diskfs_cached_lookup\<close>, \<^verbatim>\<open>pager_clear_user_data\<close>, \<^verbatim>\<open>bRead\<close> and
  \<^verbatim>\<open>print_direntry\<close> (elsewhere a call is one step; locks are checked when taken), and the weakly ordered effects of unlocked accesses; \<^verbatim>\<open>jfs_panic\<close>,
  which is commented out; the names and versions the build gives the server, and flag constants no code uses; bytes of the store that change while it is mapped.
\<close>

section \<open>Composition\<close>

text \<open>
  What is on the disk and what the libraries give, for the life of a file from start-up to a page of its data: a JFS store
  of sound geometry with the directory \<open>es\<close> as root, memory that never runs out, no exception, and pagers and rights for the
  asking.
\<close>

definition sound_disk :: "disk \<Rightarrow> fs \<Rightarrow> xtree \<Rightarrow> dentry list \<Rightarrow> bool" where
  "sound_disk dk d t es \<longleftrightarrow> get_hypermetadata dk = run_return d \<and> fs_ok d \<and> dir_at d t 2 es"

lemma start_then_lookup:
  assumes dk: "sound_disk dk d t es" and w: "fresh_world w" and s: "sound_sys s n0" and nm: "plain_name name"
    and ty: "lookup_type_ok lib type" and e: "find (name_matches name) es = Some e" "fst e \<noteq> 2"
    and a: "inode_address d t (unat (fst e)) = Some a" "a + 512 \<le> dk_size d"
  obtains root np w1 w2 n rn where "main_start plib s dk w = run_return (d, Some root, w1)"
    and "diskfs_lookup_hard d s lib (Some root) root name type True None (ns w1) = run_return (0, Some np, w2)"
    and "cache_ok w2" and "node_map w2 = [2 \<mapsto> root, ucast (fst e) \<mapsto> np]"
    and "node_at w2 np = Some n" and "cache_id n = ucast (fst e)" and "fileinfo (dn n) = None" and "mem_ok (mem w2)" and "\<not> node2pagelock w1" and "idle (bufs w1)"
    and "dn_stat n = fill_stat s (ucast (fst e)) (dinode_of (disk_slice d a 512)) (dn_stat n0)"
    and "node_at (ns w1) root = Some rn" and "cache_id rn = 2"
proof -
  have d: "get_hypermetadata dk = run_return d" "fs_ok d" "dir_at d t 2 es" using dk by (simp_all add: sound_disk_def)
  then obtain r where im: "imap_ok d FILESYSTEM_I t" and r: "inode_address d t 2 = Some r" "r + 512 \<le> dk_size d"
    by (auto simp: dir_at_def)
  have w': "\<And>x. node_at (ns w) x = None" "\<not> refcnt_lock (ns w)" "mem_ok (mem (ns w))" "\<not> node2pagelock w" "idle (bufs w)"
    using w by (simp_all add: fresh_world_def)
  have s': "catch_exception s = 0" "\<And>h. mem_ok h \<Longrightarrow> fst (make_node s h) = Some n0 \<and> mem_ok (snd (make_node s h))"
    using s by (simp_all add: sound_sys_def)
  obtain w1 root rn where m: "main_start plib s dk w = run_return (d, Some root, w1)" "cache_ok (ns w1)"
    "node_map (ns w1) = [2 \<mapsto> root]" "node_at (ns w1) root = Some rn" "cache_id rn = 2"
    "\<not> refcnt_lock (ns w1)" "mem_ok (mem (ns w1))" "bufs w1 = bufs w" "node2pagelock w1 = node2pagelock w"
    using main_start_up [OF d(1,2) im r w'(1-3) s'] by blast
  have two: "(ucast (cache_id rn) :: u32) = 2" by (simp add: m(5))
  obtain h' where h': "mem_ok h'" "diskfs_lookup_hard d s lib (Some root) root name type True None (ns w1) =
      diskfs_cached_lookup d s (ucast (fst e)) ((ns w1)\<lparr>mem := h'\<rparr>)"
    using lookup_hard_finds [OF d(2) m(4) _ m(7) ty, of t es name s "Some root" None] d(3) nm e(1)
    by (auto simp: two plain_name_def)
  define v where "v = (ns w1)\<lparr>mem := h'\<rparr>"
  have v: "cache_ok v" "node_map v = [2 \<mapsto> root]" "\<not> refcnt_lock v" "mem v = h'"
    using cache_cong [of v "ns w1"] m(2,3,6) by (simp_all add: v_def)
  obtain h1 where h1: "malloc h' = (True, h1)" "mem_ok h1" using mem_ok_malloc [OF h'(1)] by (cases "malloc h'") auto
  obtain h2 where h2: "make_node s h1 = (Some n0, h2)" "mem_ok h2" using s'(2) [OF h1(2)] by (cases "make_node s h1") auto
  have uc: "(ucast (ucast (fst e) :: u64) :: u32) = fst e" by (rule bit_word_eqI) (auto simp: bit_simps)
  have ne: "(ucast (fst e) :: u64) \<noteq> 2" proof
    assume "(ucast (fst e) :: u64) = 2"
    with uc have "(ucast (2 :: u64) :: u32) = fst e" by simp
    with e(2) show False by simp
  qed
  have rd: "inode_readable d t (ucast (fst e))" using a by (simp add: inode_readable_def uc)
  from cached_lookup_new [OF d(2) im rd v(1,3), of h1 s n0 h2] v(2,4) h1(1) h2 ne a(1) s'(1) obtain w2 n where
    "diskfs_cached_lookup d s (ucast (fst e)) v = run_return (0, Some (node_fresh v), w2)" "cache_ok w2"
    "node_map w2 = [2 \<mapsto> root, ucast (fst e) \<mapsto> node_fresh v]" "node_at w2 (node_fresh v) = Some n" "cache_id n = ucast (fst e)"
    "fileinfo (dn n) = None" "mem_ok (mem w2)" "dn_stat n = fill_stat s (ucast (fst e)) (dinode_of (disk_slice d a 512)) (dn_stat n0)"
    by (auto simp: uc)
  with m h'(2) w'(4,5) that [of root w1 "node_fresh v" w2 n rn] show ?thesis by (simp add: v_def)
qed

text \<open>
  C1: from a name to the contents. On a sound disk with blocks of 4096 bytes, starting up, looking a regular file up by name, asking
  for its memory object and paging in all of its pages in order delivers exactly the bytes that the extents of the file name,
  filled up with zeroes to the end of the last page; every page-in returns 0.
\<close>

theorem file_by_name:
  assumes dk: "sound_disk dk d t es" and w: "fresh_world w" and s: "sound_sys s n0" and nm: "plain_name name"
    and ty: "lookup_type_ok lib type" and e: "find (name_matches name) es = Some e" "fst e \<noteq> 2"
    and a: "inode_address d t (unat (fst e)) = Some a" "a + 512 \<le> dk_size d"
    and inode: "inode = dinode_of (disk_slice d a 512)" "S_ISREG (di_mode inode)"
    and tree: "xt_repr d (di_btroot inode) ft" "xt_wf 0 hi ft" "xt_nonempty ft \<or> (\<exists>xs. ft = XLeaf xs)"
    and len: "len = unat (di_size inode)" and disk: "file_on_disk d st ft len"
    and st: "store_ok d st" and vm: "vm_page_size s = 4096" "l2b d = 12"
    and pl: "\<And>cs. pager_create plib cs = Some p" "\<And>cs. pager_get_port plib p cs = Some r"
  shows "\<exists>root np w1 w2 w3 u bs w4. main_start plib s dk w = run_return (d, Some root, w1)
    \<and> diskfs_lookup_hard d s lib (Some root) root name type True None (ns w1) = run_return (0, Some np, w2)
    \<and> diskfs_get_filemap plib np (w1\<lparr>ns := w2\<rparr>) = run_return (Some r, w3)
    \<and> fileinfo_of w3 np = Some u
    \<and> read_pages d s st u 0 (page_count len) w3 = run_return (map (\<lambda>b. (0, Some b)) bs, w4)
    \<and> concat bs = file_bytes d ft len @ replicate (4096 * page_count len - len) 0"
proof -
  obtain root np w1 w2 n where o: "main_start plib s dk w = run_return (d, Some root, w1)"
    "diskfs_lookup_hard d s lib (Some root) root name type True None (ns w1) = run_return (0, Some np, w2)"
    "cache_ok w2" "node_map w2 = [2 \<mapsto> root, ucast (fst e) \<mapsto> np]" "node_at w2 np = Some n" "cache_id n = ucast (fst e)"
    "fileinfo (dn n) = None" "mem_ok (mem w2)" "\<not> node2pagelock w1" "idle (bufs w1)" "dn_stat n = fill_stat s (ucast (fst e)) inode (dn_stat n0)"
    using start_then_lookup [OF dk w s nm ty e a, of plib] unfolding inode(1) by metis
  note fs = fill_stat_file [OF inode(2), of s "ucast (fst e)" "dn_stat n0"]
  define v where "v = w1\<lparr>ns := w2\<rparr>"
  have v: "ns v = w2" "\<not> node2pagelock v" "idle (bufs v)" using o(9,10) by (simp_all add: v_def)
  have reg: "S_ISREG (st_mode (dn_stat n))" using fs(1) o(11) by simp
  have nv: "node_at (ns v) np = Some n" "mem_ok (mem (ns v))" using o(5,8) v(1) by simp_all
  obtain w3 where w3: "diskfs_get_filemap plib np v = run_return (Some r, w3)" "fileinfo_of w3 np = Some (upi_fresh v)"
    "upi_at w3 (upi_fresh v) = Some \<lparr>upi_np = Some np, upi_type = FILE_DATA, upi_p = Some p\<rparr>"
    "mem_ok (mem (ns w3))" "bufs w3 = bufs v" "node_at (ns w3) np = Some (n\<lparr>dn := (dn n)\<lparr>fileinfo := Some (upi_fresh v)\<rparr>\<rparr>)"
    using get_filemap_new [OF nv(1) o(7) reg v(2) nv(2) pl(1) pl(2)] by blast
  have uc: "(ucast (ucast (fst e) :: u64) :: u32) = fst e" by (rule bit_word_eqI) (auto simp: bit_simps)
  have im: "fs_ok d" "imap_ok d FILESYSTEM_I t" using dk by (simp_all add: sound_disk_def dir_at_def)
  have "\<exists>bs w4. read_pages d s st (upi_fresh v) 0 (page_count len) w3 = run_return (map (\<lambda>b. (0, Some b)) bs, w4)
      \<and> concat bs = file_bytes d ft len @ replicate (4096 * page_count len - len) 0 \<and> idle (bufs w4) \<and> mem_ok (mem (ns w4))"
    by (rule read_pages_file [OF im st vm w3(3,6) _ a(2) tree [unfolded inode(1)] _ w3(4) _ disk])
      (use a(1) uc o(6,11) fs(2) len v(3) w3(5) in simp_all)
  with o(1,2) w3(1,2) show ?thesis unfolding v_def by blast
qed

text \<open>
  A directory a client can work with: ordinary ASCII names, none of which begins with the name of a later entry.
\<close>

definition clear_names :: "dentry list \<Rightarrow> bool" where
  "clear_names es \<longleftrightarrow> sorted_wrt (\<lambda>e f. \<not> name_matches (shown_name (snd f)) e) es
     \<and> list_all (\<lambda>e. plain_name (shown_name (snd e)) \<and> list_all (\<lambda>b. unat b < 128) (shown_name (snd e))) es"

lemma clear_names_find:
  assumes "clear_names es" and "e \<in> set es"
  shows "find (name_matches (shown_name (snd e))) es = Some e"
proof -
  obtain xs ys where es: "es = xs @ e # ys" using assms(2) by (auto simp: in_set_conv_decomp)
  have "name_matches (shown_name (snd e)) e" using assms(1) by (simp add: name_matches_def clear_names_def es)
  moreover have "find (name_matches (shown_name (snd e))) xs = None"
    using assms(1) by (auto simp: clear_names_def es sorted_wrt_append find_None_iff)
  ultimately show ?thesis by (simp add: es find_append)
qed

text \<open>
  C7: what is listed can be opened. In a directory of at most 30 entries with clear names, listing it from the start gives a
  record for every entry, and looking up the name of any record, in any state of the node cache, asks the node cache for exactly
  the inode number that record carries.
\<close>

theorem listed_names_found:
  assumes "fs_ok d" and "node_at w dp = Some n" and "dir_at d t (ucast (cache_id n)) es" and "mem_ok (mem w)"
    and "lookup_type_ok lib type" and "list_all (\<lambda>e. length (snd e) < 100) es" and "off_d_name ly < sizeof_dirent ly"
    and "length es \<le> 30" and "recs_size ly es \<le> space" and "clear_names es"
  shows "\<exists>cnt rs h. diskfs_get_directs d ly space (cache_id n) 0 (mem w) = run_return (int (length es), cnt, rs, h)
    \<and> length rs = length es
    \<and> (\<forall>(off, r) \<in> set rs. \<exists>h'. diskfs_lookup_hard d s lib root dp (butlast (d_name r)) type True old w =
         diskfs_cached_lookup d s (d_ino r) (w\<lparr>mem := h'\<rparr>))"
proof -
  obtain cnt h where g: "diskfs_get_directs d ly space (cache_id n) 0 (mem w) =
      run_return (int (length es), cnt, place_recs ly 0 es, h)"
    using get_directs_returns [OF assms(1,3,6,7,4), of 0 es space] assms(8,9) by auto
  have "\<exists>h'. diskfs_lookup_hard d s lib root dp (butlast (d_name r)) type True old w =
      diskfs_cached_lookup d s (d_ino r) (w\<lparr>mem := h'\<rparr>)" if r: "(off, r) \<in> set (place_recs ly 0 es)" for off r
  proof -
    obtain e where e: "e \<in> set es" "r = dirent_for ly e" using place_recs_entry [OF r] by blast
    have nm: "plain_name (shown_name (snd e))" using assms(10) e(1) by (auto simp: clear_names_def list_all_iff)
    then have rec: "butlast (d_name r) = shown_name (snd e)" "d_ino r = ucast (fst e)"
      using dirent_name [of e ly] by (simp_all add: e(2) plain_name_def) (simp add: dirent_for_def)
    from lookup_hard_finds [OF assms(1-5), of "shown_name (snd e)" s root old] nm clear_names_find [OF assms(10) e(1)]
    show ?thesis by (auto simp: rec plain_name_def)
  qed
  moreover have "length (place_recs ly o0 es) = length es" for o0 by (induction es arbitrary: o0) simp_all
  ultimately show ?thesis using g by auto
qed

section \<open>The compositions on the image\<close>

lemma demo_sound: "sound_disk demo_disk demo demo_map demo_entries" "fresh_world demo_boot" "sound_sys (demo_sys 0) demo_node"
  "plain_name [0x61]"
proof -
  show "sound_disk demo_disk demo demo_map demo_entries" using demo_hyper demo_dir by (simp add: sound_disk_def)
  show "fresh_world demo_boot" by (simp add: fresh_world_def demo_boot_def)
  show "plain_name [0x61]" by (simp add: plain_name_def sizeof_UTF8_Buffer_def PATH_MAX_def)
  have "fst (make_node (demo_sys 0) h) = Some demo_node \<and> mem_ok (snd (make_node (demo_sys 0) h))" if "mem_ok h" for h
    using mem_ok_malloc [OF that] by (cases "malloc h") (simp add: demo_sys_def)
  then show "sound_sys (demo_sys 0) demo_node" by (simp add: sound_sys_def demo_sys_def)
qed

lemma demo_file_inode: "di_mode (dinode_of (disk_slice demo 88064 512)) = 0x81A4" "di_size (dinode_of (disk_slice demo 88064 512)) = 5000"
  by (simp_all add: dinode_of_def le32_def le64_def demo_eval push_bit_eq_mult)

text \<open>The file \<^verbatim>\<open>ab\<close> of 5000 bytes, in blocks 24 and 25.\<close>

lemma demo_on_disk: "file_on_disk demo demo_store demo_file 5000" "page_count 5000 = 2"
proof -
  have "[0..<2] = [0, 1 :: nat]" by (simp add: upt_rec)
  then show "file_on_disk demo demo_store demo_file 5000"
    using demo_find(2,3) by (simp add: file_on_disk_def page_count_def file_block_def demo_store_def)
  show "page_count 5000 = 2" by (simp add: page_count_def)
qed

theorem file_by_name_witness:
  "\<exists>root np w1 w2 w3 u b b' w4. main_start demo_lib (demo_sys 0) demo_disk demo_boot = run_return (demo, Some root, w1)
    \<and> diskfs_lookup_hard demo (demo_sys 0) demo_h (Some root) root [0x61] 0 True None (ns w1) = run_return (0, Some np, w2)
    \<and> diskfs_get_filemap demo_lib np (w1\<lparr>ns := w2\<rparr>) = run_return (Some 8, w3) \<and> fileinfo_of w3 np = Some u
    \<and> read_pages demo (demo_sys 0) demo_store u 0 (page_count 5000) w3 = run_return ([(0, Some b), (0, Some b')], w4)
    \<and> (b @ b') ! 0 = 0x58 \<and> (b @ b') ! 5000 = 0"
proof -
  have byte: "(file_bytes demo demo_file 5000 @ replicate (4096 * page_count 5000 - 5000) 0) ! 0 = 0x58"
    "(file_bytes demo demo_file 5000 @ replicate (4096 * page_count 5000 - 5000) 0) ! 5000 = 0"
    using demo_find(2) by (simp_all add: file_bytes_def nth_append file_byte_def file_block_def demo_on_disk(2) demo_eval)
  have "\<exists>root np w1 w2 w3 u bs w4. main_start demo_lib (demo_sys 0) demo_disk demo_boot = run_return (demo, Some root, w1)
    \<and> diskfs_lookup_hard demo (demo_sys 0) demo_h (Some root) root [0x61] 0 True None (ns w1) = run_return (0, Some np, w2)
    \<and> diskfs_get_filemap demo_lib np (w1\<lparr>ns := w2\<rparr>) = run_return (Some 8, w3) \<and> fileinfo_of w3 np = Some u
    \<and> read_pages demo (demo_sys 0) demo_store u 0 (page_count 5000) w3 = run_return (map (\<lambda>b. (0, Some b)) bs, w4)
    \<and> concat bs = file_bytes demo demo_file 5000 @ replicate (4096 * page_count 5000 - 5000) 0"
    by (rule file_by_name [OF demo_sound demo_lookup_type demo_search(1), where a = 88064
          and inode = "dinode_of (disk_slice demo 88064 512)" and hi = "2 ^ 41" and p = 5])
      (use demo_store_ok demo_repr(2) demo_wf(2) demo_on_disk(1) demo_file_inode in
        \<open>simp_all add: demo_file_root S_ISREG_def S_IFMT_def demo_lib_def demo_sys_def\<close>)
  moreover have "\<exists>b b'. bs = [b, b']"
    if "read_pages demo (demo_sys 0) demo_store u 0 (page_count 5000) w3 = run_return (map (\<lambda>b. (0, Some b)) bs, w4)" for bs u w3 w4
    using that by (auto simp: demo_on_disk(2) numeral_2_eq_2 run_bind_return_iff map_eq_Cons_conv)
  ultimately show ?thesis using byte by fastforce
qed

theorem listed_names_found_witness:
  "\<exists>cnt rs h. diskfs_get_directs demo demo_ly 4096 2 0 demo_heap = run_return (2, cnt, rs, h) \<and> length rs = 2
    \<and> (\<forall>(off, r) \<in> set rs. \<exists>h'. diskfs_lookup_hard demo (demo_sys 0) demo_h None 0 (butlast (d_name r)) 0 True None
         (demo_one 2 None demo_stat) = diskfs_cached_lookup demo (demo_sys 0) (d_ino r) ((demo_one 2 None demo_stat)\<lparr>mem := h'\<rparr>))"
proof -
  have "clear_names demo_entries"
    by (simp add: clear_names_def demo_entries_def demo_shown name_matches_def plain_name_def sizeof_UTF8_Buffer_def PATH_MAX_def)
  moreover have "recs_size demo_ly demo_entries = 32" "length demo_entries = 2"
    by (simp_all add: recs_size_def demo_entries_def demo_reclen)
  moreover have "off_d_name demo_ly < sizeof_dirent demo_ly" by (simp add: demo_ly_def)
  ultimately show ?thesis
    using listed_names_found [of demo "demo_one 2 None demo_stat" 0 "demo_dn 2 None demo_stat" demo_map demo_entries demo_h 0
        demo_ly 4096 "demo_sys 0" None None] demo_dir demo_small demo_lookup_type by simp
qed

text \<open>Start-up, the lookup of a file and its first mapping.\<close>

lemma demo_mapped:
  obtains root np w1 n2 rn m w3 u where
    "main_start demo_lib (demo_sys 0) demo_disk demo_boot = run_return (demo, Some root, w1)"
    and "diskfs_lookup_hard demo (demo_sys 0) demo_h (Some root) root [0x61] 0 True None (ns w1) = run_return (0, Some np, n2)"
    and "diskfs_get_filemap demo_lib np (w1\<lparr>ns := n2\<rparr>) = run_return (Some 8, w3)" and "fileinfo_of w3 np = Some u"
    and "node_at (ns w1) root = Some rn" and "cache_id rn = 2" and "node_at (ns w3) np = Some m" and "cache_id m = 4" and "fileinfo (dn m) = Some u"
proof -
  have n: "unat (4 :: u32) = 4" "(4 :: u32) \<noteq> 2" by simp_all
  obtain root np w1 n2 m rn where o: "main_start demo_lib (demo_sys 0) demo_disk demo_boot = run_return (demo, Some root, w1)"
    "diskfs_lookup_hard demo (demo_sys 0) demo_h (Some root) root [0x61] 0 True None (ns w1) = run_return (0, Some np, n2)"
    "node_at n2 np = Some m" "cache_id m = 4" "fileinfo (dn m) = None" "mem_ok (mem n2)" "\<not> node2pagelock w1"
    "dn_stat m = fill_stat (demo_sys 0) 4 (dinode_of (disk_slice demo 88064 512)) (dn_stat demo_node)" "node_at (ns w1) root = Some rn" "cache_id rn = 2"
    by (rule start_then_lookup [OF demo_sound demo_lookup_type demo_search(1), of 88064 demo_lib]) (use n in auto)
  have reg: "S_ISREG (st_mode (dn_stat m))"
    unfolding o(8) by (rule fill_stat_file) (simp add: demo_file_inode S_ISREG_def S_IFMT_def)
  define v where "v = w1\<lparr>ns := n2\<rparr>"
  obtain w3 where w3: "diskfs_get_filemap demo_lib np v = run_return (Some 8, w3)" "fileinfo_of w3 np = Some (upi_fresh v)"
    "node_at (ns w3) np = Some (m\<lparr>dn := (dn m)\<lparr>fileinfo := Some (upi_fresh v)\<rparr>\<rparr>)"
    using get_filemap_new [of v np m demo_lib 5 8] o(3-7) reg by (auto simp: v_def demo_lib_def)
  show ?thesis by (rule that [OF o(1,2) w3(1) [unfolded v_def] w3(2) o(9,10) w3(3)]) (simp_all add: o(4))
qed

theorem translator_invariant_witness:
  "\<exists>root np w1 n2 w3 u. main_start demo_lib (demo_sys 0) demo_disk demo_boot = run_return (demo, Some root, w1)
    \<and> diskfs_lookup_hard demo (demo_sys 0) demo_h (Some root) root [0x61] 0 True None (ns w1) = run_return (0, Some np, n2)
    \<and> diskfs_get_filemap demo_lib np (w1\<lparr>ns := n2\<rparr>) = run_return (Some 8, w3)
    \<and> fileinfo_of w3 np = Some u \<and> pagers_ok w3 \<and> idle (bufs w3) \<and> (\<exists>r. hash_search (ns w3) 4 = run_return r)"
proof -
  obtain root np w1 n2 w3 u where o: "main_start demo_lib (demo_sys 0) demo_disk demo_boot = run_return (demo, Some root, w1)"
    "diskfs_lookup_hard demo (demo_sys 0) demo_h (Some root) root [0x61] 0 True None (ns w1) = run_return (0, Some np, n2)"
    "diskfs_get_filemap demo_lib np (w1\<lparr>ns := n2\<rparr>) = run_return (Some 8, w3)" "fileinfo_of w3 np = Some u"
    by (rule demo_mapped)
  have "lib_steps demo demo_h" by (simp add: lib_steps_def demo_h_def)
  then have "world_step demo w1 (w1\<lparr>ns := n2\<rparr>)" using o(2) by (rule world_step.lookup)
  moreover have "world_step demo (w1\<lparr>ns := n2\<rparr>) w3" using o(3) by (rule world_step.filemap)
  ultimately have run: "(world_step demo)\<^sup>*\<^sup>* w1 w3" by auto
  have "\<And>a. node_at (ns demo_boot) a = None" "\<And>u. upi_fresh demo_boot \<le> u \<Longrightarrow> upi_at demo_boot u = None"
    "idle (bufs demo_boot)" "\<not> node2pagelock demo_boot" by (simp_all add: demo_boot_def)
  from translator_invariant [OF this o(1) run, of 4] o show ?thesis by blast
qed

text \<open>The abstract file system of the image: its root directory and the file \<^verbatim>\<open>ab\<close>.\<close>

definition demo_afs :: afs where
  "demo_afs = \<lparr>a_dirs = [2 \<mapsto> demo_entries], a_files = [4 \<mapsto> file_bytes demo demo_file 5000]\<rparr>"

lemma demo_afs_simps [simp]: "a_dirs demo_afs i = (if i = 2 then Some demo_entries else None)"
  "a_files demo_afs i = (if i = 4 then Some (file_bytes demo demo_file 5000) else None)"
  by (simp_all add: demo_afs_def)

lemma demo_represents: "represents demo demo_store demo_map demo_afs"
proof -
  have l: "length (file_bytes demo demo_file 5000) = 5000" by (simp add: file_bytes_def)
  have "file_at demo demo_store demo_map 4 (file_bytes demo demo_file 5000)"
    unfolding file_at_def l
    by (rule exI [of _ 88064], rule exI [of _ demo_file], rule exI [of _ "2 ^ 41"])
      (use demo_repr(2) demo_wf(2) demo_on_disk(1) demo_file_inode in \<open>simp add: demo_file_root S_ISREG_def S_IFMT_def\<close>)
  moreover have "inode_address demo demo_map 5 = Some 88576"
    by (simp add: inode_address_def demo_find [unfolded One_nat_def] demo_iag addressPXD_def le32_to_cpu_def)
  then have "\<forall>e \<in> set demo_entries. on_disk demo demo_map (fst e) \<and> 0 \<notin> set (shown_name (snd e))"
    by (simp add: demo_entries_def on_disk_def demo_shown)
  ultimately show ?thesis using demo_dir demo_store_ok by (simp add: represents_def)
qed

lemma demo_served: "served demo_disk demo demo_store demo_map demo_afs (demo_sys 0) demo_node demo_boot"
  using demo_hyper demo_represents demo_sound(2,3) by (simp add: served_def demo_sys_def demo_boot_def)

text \<open>A run of the translator: \<^verbatim>\<open>a\<close> is looked up in the root and the node it gives is mapped.\<close>

lemma demo_run:
  obtains root np w1 n2 rn m w3 u where
    "main_start demo_lib (demo_sys 0) demo_disk demo_boot = run_return (demo, Some root, w1)"
    and "run_events (serve_step demo (demo_sys 0) demo_store demo_afs) w1 [Looked 2 [0x61] 0 (map_option (\<lambda>(i, _). ucast i) (attr_of n2 np)), Internal] w3"
    and "node_at (ns w3) np = Some m" and "cache_id m = 4" and "fileinfo (dn m) = Some u"
proof -
  obtain root np w1 n2 rn m w3 u where
    o: "main_start demo_lib (demo_sys 0) demo_disk demo_boot = run_return (demo, Some root, w1)"
    "diskfs_lookup_hard demo (demo_sys 0) demo_h (Some root) root [0x61] 0 True None (ns w1) = run_return (0, Some np, n2)"
    "diskfs_get_filemap demo_lib np (w1\<lparr>ns := n2\<rparr>) = run_return (Some 8, w3)" "node_at (ns w1) root = Some rn" "cache_id rn = 2"
    "node_at (ns w3) np = Some m" "cache_id m = 4" "fileinfo (dn m) = Some u"
    by (rule demo_mapped)
  have "serve_step demo (demo_sys 0) demo_store demo_afs w1
      (Looked (ucast (cache_id rn)) [0x61] 0 (Option.bind (Some np) (\<lambda>np. map_option (\<lambda>(i, _). ucast i) (attr_of n2 np)))) (w1\<lparr>ns := n2\<rparr>)"
    by (rule serve_step.looks [OF o(4) _ demo_sound(4) demo_lookup_type o(2)]) (simp add: o(5))
  moreover have "serve_step demo (demo_sys 0) demo_store demo_afs (w1\<lparr>ns := n2\<rparr>) Internal w3" using o(3) by (rule serve_step.maps)
  ultimately show ?thesis using that [OF o(1) _ o(6-8)] by (auto simp: o(5) run_events_Cons)
qed

theorem translator_refines_witness:
  "\<exists>root w1 i w3. main_start demo_lib (demo_sys 0) demo_disk demo_boot = run_return (demo, Some root, w1)
    \<and> run_events (serve_step demo (demo_sys 0) demo_store demo_afs) w1 [Looked 2 [0x61] 0 i, Internal] w3 \<and> i = Some 4"
proof -
  obtain root w1 i w3 where o: "main_start demo_lib (demo_sys 0) demo_disk demo_boot = run_return (demo, Some root, w1)"
    "run_events (serve_step demo (demo_sys 0) demo_store demo_afs) w1 [Looked 2 [0x61] 0 i, Internal] w3"
    using demo_run by metis
  with translator_refines [OF demo_served, of demo_lib] have "list_all (answers demo_afs) [Looked 2 [0x61] 0 i, Internal]" by auto
  with o show ?thesis by (auto simp: demo_search)
qed

text \<open>After it, the first byte of the file can be paged in.\<close>

theorem translator_answers_witness:
  "\<exists>root w1 evs w3 np u wl buf w'. main_start demo_lib (demo_sys 0) demo_disk demo_boot = run_return (demo, Some root, w1)
    \<and> run_events (serve_step demo (demo_sys 0) demo_store demo_afs) w1 evs w3 \<and> fileinfo_of w3 np = Some u
    \<and> pager_read_page demo (demo_sys 0) demo_store u 0 w3 = run_return (0, wl, Some buf, w') \<and> buf ! 0 = 0x58"
proof -
  obtain root np w1 evs m w3 u where o: "main_start demo_lib (demo_sys 0) demo_disk demo_boot = run_return (demo, Some root, w1)"
    "run_events (serve_step demo (demo_sys 0) demo_store demo_afs) w1 evs w3"
    "node_at (ns w3) np = Some m" "cache_id m = 4" "fileinfo (dn m) = Some u"
    using demo_run by metis
  let ?bs = "file_bytes demo demo_file 5000"
  have bs: "length ?bs = 5000" by (simp add: file_bytes_def)
  have "\<exists>wl buf w'. pager_read_page demo (demo_sys 0) demo_store u 0 w3 = run_return (0, wl, buf, w') \<and> answers demo_afs (Paged 4 0 0 buf)"
    using translator_answers [OF demo_served o(1-3), of 4 _ _ _ _ _ _ _ _ ?bs u 0] o(4,5) bs by simp
  moreover have "page_of ?bs 0 ! 0 = 0x58"
    using demo_find(2) by (simp add: page_of_def bs) (simp add: file_bytes_def file_byte_def file_block_def demo_eval)
  ultimately obtain wl w' where "pager_read_page demo (demo_sys 0) demo_store u 0 w3 = run_return (0, wl, Some (page_of ?bs 0), w')"
    "page_of ?bs 0 ! 0 = 0x58" by auto
  moreover have "fileinfo_of w3 np = Some u" using o(3,5) by (simp add: fileinfo_of_def)
  ultimately show ?thesis using o(1,2) by blast
qed

text \<open>
  The same run with a client that truncates the file and looks its name up to remove it in between; both are refused.
\<close>

theorem clients_cannot_modify_witness:
  "\<exists>root w1 i e1 e2 w3. main_start demo_lib (demo_sys 0) demo_disk demo_boot = run_return (demo, Some root, w1)
    \<and> run_events (client_step demo (demo_sys 0) demo_store demo_afs) w1 [Inr e1, Inl (Looked 2 [0x61] 0 i), Inl Internal, Inr e2] w3
    \<and> e1 = EROFS \<and> e2 = EROFS \<and> i = Some 4"
proof -
  obtain root np w1 i rn m w3 u where o: "main_start demo_lib (demo_sys 0) demo_disk demo_boot = run_return (demo, Some root, w1)"
    "run_events (serve_step demo (demo_sys 0) demo_store demo_afs) w1 [Looked 2 [0x61] 0 i, Internal] w3"
    "node_at (ns w3) np = Some m"
    using demo_run by metis
  obtain r where r: "diskfs_lookup_hard demo (demo_sys 0) demo_h None np [0x61] 2 True None (ns w3) = run_return (EROFS, r, ns w3)"
    using lookup_hard_refuses [OF _ o(3), of demo_h 2 demo "demo_sys 0" None "[0x61]" None]
    by (auto simp: lookup_type_ok_def demo_h_def)
  have "client_step demo (demo_sys 0) demo_store demo_afs w1 (Inr EROFS) w1"
    by (rule client_step.modifies [of "Truncate np 0"]) (simp add: diskfs_truncate_def)
  moreover have "client_step demo (demo_sys 0) demo_store demo_afs w3 (Inr EROFS) (w3\<lparr>ns := ns w3\<rparr>)"
    by (rule client_step.looks_to_modify [OF _ r]) (simp add: lookup_type_ok_def demo_h_def)
  ultimately have run: "run_events (client_step demo (demo_sys 0) demo_store demo_afs) w1
      [Inr EROFS, Inl (Looked 2 [0x61] 0 i), Inl Internal, Inr EROFS] w3"
    using o(2) by (auto simp: run_events_Cons intro: client_step.serves)
  have "list_all (answers demo_afs) [Looked 2 [0x61] 0 i, Internal]"
    using clients_cannot_modify [OF demo_served o(1) run] by simp
  with o(1) run show ?thesis by (auto simp: demo_search)
qed

end
